(* ===== verification/Js_Date.thy ===== *)
theory Js_Date
  imports Prelude
begin

text \<open>
  JavaScript dates. A time value is an \<open>int\<close> of milliseconds since 1970-01-01T00:00:00Z; an invalid
  date is \<open>None\<close>. \<open>to_iso\<close> is \<open>toISOString\<close>; \<open>parse_iso\<close> is \<open>Date.parse\<close> on the forms the program
  stores and sends, \<open>YYYY-MM-DD\<close>, \<open>YYYY-MM-DDTHH:mm:ssZ\<close> and \<open>YYYY-MM-DDTHH:mm:ss.sssZ\<close> (a day past
  the end of its month rolls over, as V8's does); any other text is read as an invalid date.
\<close>

section \<open>The proleptic Gregorian calendar\<close>

text \<open>Years start on 1 March here, so that the leap day is the last day of its year.\<close>

definition days_of_civil :: "int \<Rightarrow> int \<Rightarrow> int \<Rightarrow> int" where
  "days_of_civil y m d =
     (let y0 = (if m \<le> 2 then y - 1 else y);
          era = y0 div 400;
          yoe = y0 mod 400;
          mp = (if 2 < m then m - 3 else m + 9);
          doy = (153 * mp + 2) div 5 + d - 1;
          doe = yoe * 365 + yoe div 4 - yoe div 100 + doy
      in era * 146097 + doe - 719468)"

definition civil_of_days :: "int \<Rightarrow> int \<times> int \<times> int" where
  "civil_of_days n =
     (let z = n + 719468;
          era = z div 146097;
          doe = z mod 146097;
          cent = min 3 (doe div 36524);
          r1 = doe - cent * 36524;
          quad = r1 div 1461;
          r2 = r1 mod 1461;
          yr = min 3 (r2 div 365);
          doy = r2 - yr * 365;
          y0 = 400 * era + 100 * cent + 4 * quad + yr;
          mp = (5 * doy + 2) div 153;
          d = doy - (153 * mp + 2) div 5 + 1;
          m = (if mp < 10 then mp + 3 else mp - 9)
      in (if m \<le> 2 then y0 + 1 else y0, m, d))"

definition leap :: "int \<Rightarrow> bool" where
  "leap y = (4 dvd y \<and> (\<not> 100 dvd y \<or> 400 dvd y))"

definition days_in_month :: "int \<Rightarrow> int \<Rightarrow> int" where
  "days_in_month y m =
     (if m = 2 then (if leap y then 29 else 28)
      else if m \<in> {4, 6, 9, 11} then 30 else 31)"

lemma div_bounds: "0 < b \<Longrightarrow> b * (a div b) \<le> a \<and> a < b * (a div b) + b" for a b :: int
  by (metis add_strict_left_mono mult_div_mod_eq le_add_same_cancel1 pos_mod_bound pos_mod_sign)

text \<open>The position of a day in its 400-year era, as century, 4-year block, year and day.\<close>

lemma era_digits:
  fixes doe :: int
  assumes "0 \<le> doe" "doe < 146097"
  defines "cent \<equiv> min 3 (doe div 36524)"
  defines "r1 \<equiv> doe - cent * 36524"
  defines "quad \<equiv> r1 div 1461"
  defines "r2 \<equiv> r1 mod 1461"
  defines "yr \<equiv> min 3 (r2 div 365)"
  defines "doy \<equiv> r2 - yr * 365"
  shows "0 \<le> cent" "cent \<le> 3" "0 \<le> quad" "quad \<le> 24" "0 \<le> yr" "yr \<le> 3" "0 \<le> doy" "doy \<le> 365"
    and "doe = 36524 * cent + 1461 * quad + 365 * yr + doy"
proof -
  have cent: "0 \<le> cent \<and> cent \<le> 3 \<and> 0 \<le> r1 \<and> r1 \<le> 36524"
    using div_bounds [of 36524 doe] assms(1,2) unfolding cent_def r1_def min_def by (simp split: if_splits)
  have quad: "0 \<le> quad \<and> quad \<le> 24 \<and> 0 \<le> r2 \<and> r2 \<le> 1460 \<and> r1 = 1461 * quad + r2"
  proof -
    have "r1 = 1461 * quad + r2" "0 \<le> r2" "r2 < 1461" unfolding quad_def r2_def by simp_all
    then show ?thesis using cent by linarith
  qed
  have yr: "0 \<le> yr \<and> yr \<le> 3 \<and> 0 \<le> doy \<and> doy \<le> 365"
    using div_bounds [of 365 r2] quad unfolding yr_def doy_def min_def by (simp split: if_splits)
  show "0 \<le> cent" "cent \<le> 3" "0 \<le> quad" "quad \<le> 24" "0 \<le> yr" "yr \<le> 3" "0 \<le> doy" "doy \<le> 365"
    using cent quad yr by auto
  show "doe = 36524 * cent + 1461 * quad + 365 * yr + doy"
    using quad r1_def doy_def by simp
qed

text \<open>The month of a day counted from 1 March.\<close>

lemma month_digits:
  fixes doy :: int
  assumes "0 \<le> doy" "doy \<le> 365"
  defines "mp \<equiv> (5 * doy + 2) div 153"
  shows "0 \<le> mp" "mp \<le> 11" "1 \<le> doy - (153 * mp + 2) div 5 + 1" "doy - (153 * mp + 2) div 5 + 1 \<le> 31"
proof -
  have a: "153 * mp \<le> 5 * doy + 2" "5 * doy + 2 < 153 * mp + 153"
    unfolding mp_def using div_bounds [of 153 "5 * doy + 2"] by simp_all
  then show mp: "0 \<le> mp" "mp \<le> 11" using assms(1,2) by linarith+
  define q where "q = (153 * mp + 2) div 5"
  have q: "5 * q \<le> 153 * mp + 2" "153 * mp + 2 < 5 * q + 5"
    unfolding q_def using div_bounds [of 5 "153 * mp + 2"] by simp_all
  show "1 \<le> doy - (153 * mp + 2) div 5 + 1" "doy - (153 * mp + 2) div 5 + 1 \<le> 31"
    using a q unfolding q_def [symmetric] by linarith+
qed

lemma days_of_civil_of_days:
  assumes "civil_of_days n = (y, m, d)"
  shows "days_of_civil y m d = n \<and> 1 \<le> m \<and> m \<le> 12 \<and> 1 \<le> d \<and> d \<le> 31"
proof -
  define z where "z = n + 719468"
  define era where "era = z div 146097"
  define doe where "doe = z mod 146097"
  define cent where "cent = min 3 (doe div 36524)"
  define r1 where "r1 = doe - cent * 36524"
  define quad where "quad = r1 div 1461"
  define r2 where "r2 = r1 mod 1461"
  define yr where "yr = min 3 (r2 div 365)"
  define doy where "doy = r2 - yr * 365"
  define yoe where "yoe = 100 * cent + 4 * quad + yr"
  define mp where "mp = (5 * doy + 2) div 153"
  note defs = z_def era_def doe_def cent_def r1_def quad_def r2_def yr_def doy_def mp_def
  have doe: "0 \<le> doe" "doe < 146097" by (simp_all add: doe_def)
  note dig = era_digits [OF doe, folded cent_def, folded r1_def, folded quad_def r2_def,
      folded yr_def, folded doy_def]
  note mon = month_digits [OF dig(7,8), folded mp_def]
  have y: "y = (if m \<le> 2 then 400 * era + yoe + 1 else 400 * era + yoe)"
    and m: "m = (if mp < 10 then mp + 3 else mp - 9)"
    and d: "d = doy - (153 * mp + 2) div 5 + 1"
    using assms unfolding civil_of_days_def Let_def defs [symmetric] yoe_def by auto
  have yoe: "0 \<le> yoe" "yoe < 400" using dig(1-6) unfolding yoe_def by linarith+
  have yoe4: "yoe div 4 = 25 * cent + quad"
    by (rule int_div_pos_eq [where r = yr]) (use dig in \<open>auto simp: yoe_def\<close>)
  have yoe100: "yoe div 100 = cent"
    by (rule int_div_pos_eq [where r = "4 * quad + yr"]) (use dig in \<open>auto simp: yoe_def\<close>)
  have y0: "(if m \<le> 2 then y - 1 else y) = 400 * era + yoe" using y by simp
  have mp': "(if 2 < m then m - 3 else m + 9) = mp" using m mon by auto
  have "(400 * era + yoe) div 400 = era" "(400 * era + yoe) mod 400 = yoe" using yoe by simp_all
  then have "days_of_civil y m d
      = era * 146097 + (yoe * 365 + (25 * cent + quad) - cent + doy) - 719468"
    unfolding days_of_civil_def Let_def y0 mp' by (simp add: yoe4 yoe100 d)
  also have "\<dots> = era * 146097 + doe - 719468" using dig(9) by (simp add: yoe_def)
  also have "\<dots> = n" unfolding era_def doe_def z_def by simp
  finally show ?thesis using m mon d by auto
qed

section \<open>ISO text\<close>

definition two :: "int \<Rightarrow> string" where
  "two n = [digit_char (nat (n div 10)), digit_char (nat (n mod 10))]"

definition three :: "int \<Rightarrow> string" where
  "three n = digit_char (nat (n div 100)) # two (n mod 100)"

definition four :: "int \<Rightarrow> string" where
  "four n = two (n div 100) @ two (n mod 100)"

definition six :: "int \<Rightarrow> string" where
  "six n = two (n div 10000) @ four (n mod 10000)"

definition iso_year :: "int \<Rightarrow> string" where
  "iso_year y =
     (if 0 \<le> y \<and> y \<le> 9999 then four y
      else if y < 0 then ''-'' @ six (- y) else ''+'' @ six y)"

definition day_ms :: int where
  "day_ms = 86400000"

definition to_iso :: "int \<Rightarrow> string" where
  "to_iso t =
     (let (y, m, d) = civil_of_days (t div day_ms); r = t mod day_ms
      in iso_year y @ ''-'' @ two m @ ''-'' @ two d @ ''T'' @ two (r div 3600000) @ '':''
         @ two (r div 60000 mod 60) @ '':'' @ two (r div 1000 mod 60) @ ''.'' @ three (r mod 1000) @ ''Z'')"

text \<open>A field of exactly the given digits.\<close>

definition field :: "string \<Rightarrow> nat \<Rightarrow> nat \<Rightarrow> int option" where
  "field s i n =
     (let t = take n (drop i s) in
      if length t = n \<and> list_all is_digit t then Some (int (digits_val t)) else None)"

definition parse_date_part :: "string \<Rightarrow> int option" where
  "parse_date_part s =
     (case (field s 0 4, field s 5 2, field s 8 2) of
        (Some y, Some m, Some d) \<Rightarrow>
          if s ! 4 = CHR ''-'' \<and> s ! 7 = CHR ''-'' \<and> 1 \<le> m \<and> m \<le> 12 \<and> 1 \<le> d \<and> d \<le> 31
          then Some (days_of_civil y m d * day_ms) else None
      | _ \<Rightarrow> None)"

definition parse_time_part :: "string \<Rightarrow> int option" where
  "parse_time_part s =
     (case (field s 11 2, field s 14 2, field s 17 2) of
        (Some h, Some mi, Some sec) \<Rightarrow>
          if s ! 10 = CHR ''T'' \<and> s ! 13 = CHR '':'' \<and> s ! 16 = CHR '':'' \<and> h \<le> 23 \<and> mi \<le> 59 \<and> sec \<le> 59
          then Some (h * 3600000 + mi * 60000 + sec * 1000) else None
      | _ \<Rightarrow> None)"

definition parse_iso :: "string \<Rightarrow> int option" where
  "parse_iso s =
     (if length s = 10 then parse_date_part s
      else if length s = 20 \<and> s ! 19 = CHR ''Z'' then
        (case (parse_date_part s, parse_time_part s) of (Some a, Some b) \<Rightarrow> Some (a + b) | _ \<Rightarrow> None)
      else if length s = 24 \<and> s ! 19 = CHR ''.'' \<and> s ! 23 = CHR ''Z'' then
        (case (parse_date_part s, parse_time_part s, field s 20 3) of
           (Some a, Some b, Some c) \<Rightarrow> Some (a + b + c) | _ \<Rightarrow> None)
      else None)"

lemma length_two [simp]: "length (two n) = 2"
  by (simp add: two_def)

lemma length_three [simp]: "length (three n) = 3"
  by (simp add: three_def)

lemma length_four [simp]: "length (four n) = 4"
  by (simp add: four_def)

lemma two_value:
  assumes "0 \<le> n" "n < 100"
  shows "list_all is_digit (two n)" "digits_val (two n) = nat n"
proof -
  have "n div 10 < 10" "0 \<le> n div 10" "0 \<le> n mod 10" "n mod 10 < 10" using assms by auto
  then have d: "nat (n div 10) < 10" "nat (n mod 10) < 10" by auto
  then show "list_all is_digit (two n)" by (simp add: two_def)
  have "10 * nat (n div 10) + nat (n mod 10) = nat n"
    using assms by (simp add: nat_div_distrib nat_mod_distrib)
  with d show "digits_val (two n) = nat n" by (simp add: two_def digits_val_def)
qed

lemma digits_val_append_two: "digits_val (s @ two n) = 100 * digits_val s + digits_val (two n)"
  by (simp add: digits_val_def two_def)

lemma three_value:
  assumes "0 \<le> n" "n < 1000"
  shows "list_all is_digit (three n)" "digits_val (three n) = nat n"
proof -
  have a: "nat (n div 100) < 10" "0 \<le> n mod 100" "n mod 100 < 100" "0 \<le> n div 100" using assms by auto
  then show "list_all is_digit (three n)" by (simp add: three_def two_value)
  have "digits_val (three n) = 100 * nat (n div 100) + nat (n mod 100)"
    using digits_val_append_two [of "[digit_char (nat (n div 100))]" "n mod 100"] a two_value
    by (simp add: three_def digits_val_def)
  then show "digits_val (three n) = nat n"
    using assms by (simp add: nat_div_distrib nat_mod_distrib)
qed

lemma four_value:
  assumes "0 \<le> n" "n < 10000"
  shows "list_all is_digit (four n)" "digits_val (four n) = nat n"
proof -
  have a: "0 \<le> n div 100" "n div 100 < 100" "0 \<le> n mod 100" "n mod 100 < 100" using assms by auto
  then show "list_all is_digit (four n)" by (simp add: four_def two_value)
  have "digits_val (four n) = 100 * nat (n div 100) + nat (n mod 100)"
    using a by (simp add: four_def digits_val_append_two two_value)
  then show "digits_val (four n) = nat n"
    using assms by (simp add: nat_div_distrib nat_mod_distrib)
qed

lemma field_append:
  "length p = i \<Longrightarrow> length f = n \<Longrightarrow> list_all is_digit f \<Longrightarrow> field (p @ f @ q) i n = Some (int (digits_val f))"
  by (simp add: field_def)

text \<open>The text \<open>toISOString\<close> writes is read back as the same instant, for the years 0 to 9999.\<close>

lemma parse_to_iso:
  assumes "fst (civil_of_days (t div day_ms)) \<in> {0..9999}"
  shows "parse_iso (to_iso t) = Some t"
proof -
  obtain y m d where c: "civil_of_days (t div day_ms) = (y, m, d)"
    by (cases "civil_of_days (t div day_ms)")
  note days = days_of_civil_of_days [OF c]
  have y: "0 \<le> y" "y < 10000" using assms c by auto
  define r where "r = t mod day_ms"
  define h where "h = r div 3600000"
  define mi where "mi = r div 60000 mod 60"
  define sec where "sec = r div 1000 mod 60"
  define ms where "ms = r mod 1000"
  have r: "0 \<le> r" "r < 86400000" by (simp_all add: r_def day_ms_def)
  have b: "0 \<le> h" "h \<le> 23" "0 \<le> mi" "mi \<le> 59" "0 \<le> sec" "sec \<le> 59" "0 \<le> ms" "ms \<le> 999"
    using r by (auto simp: h_def mi_def sec_def ms_def)
  have r_eq: "r = h * 3600000 + mi * 60000 + sec * 1000 + ms"
  proof -
    have "r = 1000 * (r div 1000) + ms" unfolding ms_def by simp
    moreover have "r div 1000 = 60 * (r div 60000) + sec"
      unfolding sec_def using mult_div_mod_eq [of 60 "r div 1000"] zdiv_zmult2_eq [of 60 r 1000] by simp
    moreover have "r div 60000 = 60 * h + mi"
      unfolding mi_def h_def using mult_div_mod_eq [of 60 "r div 60000"] zdiv_zmult2_eq [of 60 r 60000] by simp
    ultimately show ?thesis by linarith
  qed
  define s where "s = to_iso t"
  have s: "s = four y @ ''-'' @ two m @ ''-'' @ two d @ ''T'' @ two h @ '':'' @ two mi @ '':'' @ two sec
      @ ''.'' @ three ms @ ''Z''"
    using y by (simp add: s_def to_iso_def c Let_def r_def [symmetric] h_def mi_def sec_def ms_def iso_year_def)
  have len: "length s = 24" by (simp add: s)
  have fy: "field s 0 4 = Some y" using field_append [of "[]" 0 "four y" 4] four_value [of y] y
    by (simp add: s)
  have fm: "field s 5 2 = Some m"
    using field_append [of "four y @ ''-''" 5 "two m" 2] two_value [of m] days by (simp add: s)
  have fd: "field s 8 2 = Some d"
    using field_append [of "four y @ ''-'' @ two m @ ''-''" 8 "two d" 2] two_value [of d] days
    by (simp add: s)
  have fh: "field s 11 2 = Some h"
    using field_append [of "four y @ ''-'' @ two m @ ''-'' @ two d @ ''T''" 11 "two h" 2] two_value [of h] b
    by (simp add: s)
  have fmi: "field s 14 2 = Some mi"
    using field_append [of "four y @ ''-'' @ two m @ ''-'' @ two d @ ''T'' @ two h @ '':''" 14 "two mi" 2]
      two_value [of mi] b by (simp add: s)
  have fs: "field s 17 2 = Some sec"
    using field_append [of "four y @ ''-'' @ two m @ ''-'' @ two d @ ''T'' @ two h @ '':'' @ two mi @ '':''"
        17 "two sec" 2] two_value [of sec] b by (simp add: s)
  have fms: "field s 20 3 = Some ms"
    using field_append [of "four y @ ''-'' @ two m @ ''-'' @ two d @ ''T'' @ two h @ '':'' @ two mi @ '':''
        @ two sec @ ''.''" 20 "three ms" 3] three_value [of ms] b by (simp add: s)
  have seps: "s ! 4 = CHR ''-''" "s ! 7 = CHR ''-''" "s ! 10 = CHR ''T''" "s ! 13 = CHR '':''"
    "s ! 16 = CHR '':''" "s ! 19 = CHR ''.''" "s ! 23 = CHR ''Z''"
    by (simp_all add: s nth_append)
  have "parse_date_part s = Some (t div day_ms * day_ms)"
    using days by (simp add: parse_date_part_def fy fm fd seps)
  moreover have "parse_time_part s = Some (h * 3600000 + mi * 60000 + sec * 1000)"
    using b by (simp add: parse_time_part_def fh fmi fs seps)
  ultimately have "parse_iso s = Some (t div day_ms * day_ms + r)"
    by (simp add: parse_iso_def len seps fms r_eq)
  then show ?thesis by (simp add: s_def r_def)
qed

section \<open>Dates as the code receives them\<close>

text \<open>\<open>Date | string | null | undefined\<close>; a \<open>Date\<close> may be the invalid date.\<close>

datatype date_input = NoDate | DateValue "int option" | DateText string

fun as_date :: "date_input \<Rightarrow> int option" where
  "as_date NoDate = None"
| "as_date (DateValue t) = t"
| "as_date (DateText s) = (if s = [] then None else parse_iso s)"

end
