(* ===== verification/Js_Number.thy ===== *)
theory Js_Number
  imports Complex_Main "HOL-Library.Log_Nat" Prelude
begin

text \<open>
  JavaScript numbers. A finite double is the rational it denotes; an arithmetic operation is the
  exact rational operation followed by \<open>dbl\<close>, the IEEE 754 rounding to 53 significant bits, ties
  to even. The exponent range is not bounded: the quantities of the source (weights between
  1e-45 and 100, prices, milliseconds, percentages) stay far inside the range of binary64, so
  neither overflow nor a subnormal result occurs. Counters and times are integers below \<open>2 ^ 53\<close>,
  on which double arithmetic is exact, and the model keeps those as \<open>int\<close>.
\<close>

section \<open>Rounding to the nearest integer\<close>

definition round_even :: "rat \<Rightarrow> int" where
  "round_even x =
     (let f = \<lfloor>x\<rfloor>; r = x - of_int f in
      if r < 1 / 2 then f
      else if r > 1 / 2 then f + 1
      else if even f then f else f + 1)"

text \<open>\<open>Math.round\<close>: the nearest integer, halves towards plus infinity.\<close>

definition js_round :: "rat \<Rightarrow> int" where
  "js_round x = \<lfloor>x + 1 / 2\<rfloor>"

lemma round_even_cases: "round_even x = \<lfloor>x\<rfloor> \<or> (round_even x = \<lfloor>x\<rfloor> + 1 \<and> of_int \<lfloor>x\<rfloor> + 1 / 2 \<le> x)"
  by (auto simp: round_even_def Let_def)

lemma round_even_of_int [simp]: "round_even (of_int n) = n"
  by (simp add: round_even_def Let_def)

lemma round_even_error: "\<bar>of_int (round_even x) - x\<bar> \<le> 1 / 2"
proof -
  have "of_int \<lfloor>x\<rfloor> \<le> x" "x < of_int \<lfloor>x\<rfloor> + 1" by linarith+
  then show ?thesis by (auto simp: round_even_def Let_def)
qed

lemma round_even_mono: "x \<le> y \<Longrightarrow> round_even x \<le> round_even y"
proof -
  assume xy: "x \<le> y"
  then have f: "\<lfloor>x\<rfloor> \<le> \<lfloor>y\<rfloor>" by (rule floor_mono)
  show ?thesis
  proof (cases "\<lfloor>x\<rfloor> = \<lfloor>y\<rfloor>")
    case True
    with xy show ?thesis by (auto simp: round_even_def Let_def)
  next
    case False
    with f have "\<lfloor>x\<rfloor> + 1 \<le> \<lfloor>y\<rfloor>" by simp
    then show ?thesis using round_even_cases [of x] round_even_cases [of y] by linarith
  qed
qed

lemma js_round_of_int [simp]: "js_round (of_int n) = n"
  unfolding js_round_def by linarith

lemma js_round_mono: "x \<le> y \<Longrightarrow> js_round x \<le> js_round y"
  unfolding js_round_def by (rule floor_mono) simp

lemma js_round_0 [simp]: "js_round 0 = 0"
  using js_round_of_int [of 0] by simp

section \<open>Rounding to a double\<close>

text \<open>The exponent of the leading bit of a positive rational.\<close>

definition ilog2 :: "rat \<Rightarrow> int" where
  "ilog2 q =
     (let (n, d) = quotient_of q;
          k = int (floorlog 2 (nat n)) - int (floorlog 2 (nat d))
      in if q < 2 powi k then k - 1 else k)"

definition dbl :: "rat \<Rightarrow> rat" where
  "dbl x =
     (if x = 0 then 0
      else let e = ilog2 \<bar>x\<bar> - 52
           in sgn x * of_int (round_even (\<bar>x\<bar> / 2 powi e)) * 2 powi e)"

lemma powi_pos: "0 < (2 :: rat) powi k"
  by (simp add: zero_less_power_int)

lemma powi_add: "(2 :: rat) powi (a + b) = 2 powi a * 2 powi b"
  by (simp add: power_int_add)

lemma powi_mono: "a \<le> b \<Longrightarrow> (2 :: rat) powi a \<le> 2 powi b"
  by (rule power_int_increasing) auto

lemma powi_less_iff [simp]: "(2 :: rat) powi a < 2 powi b \<longleftrightarrow> a < b"
  by (meson linorder_not_less one_less_numeral_iff power_int_strict_increasing powi_mono
      semiring_norm(76))

lemma floorlog_powi:
  assumes "0 < n"
  shows "(2 :: rat) powi (int (floorlog 2 (nat n)) - 1) \<le> of_int n"
    and "of_int n < (2 :: rat) powi int (floorlog 2 (nat n))"
proof -
  define a where "a = floorlog 2 (nat n)"
  have fa: "2 ^ (a - 1) \<le> nat n" "nat n < 2 ^ a"
    using floorlog_bounds [of "nat n" 2] assms by (simp_all add: a_def)
  then obtain b where b: "a = Suc b" using assms by (cases a) auto
  have "(2 :: int) ^ b \<le> n" "n < (2 :: int) ^ a"
    using fa b assms by (simp_all add: le_nat_iff nat_less_iff)
  then have "(2 :: rat) ^ b \<le> of_int n" "of_int n < (2 :: rat) ^ a"
    by (metis of_int_le_iff of_int_numeral of_int_power, metis of_int_less_iff of_int_numeral of_int_power)
  then show "(2 :: rat) powi (int (floorlog 2 (nat n)) - 1) \<le> of_int n"
    and "of_int n < (2 :: rat) powi int (floorlog 2 (nat n))"
    unfolding a_def [symmetric] by (simp_all add: b power_int_def nat_add_distrib)
qed

lemma ilog2_bounds:
  assumes "0 < q"
  shows "2 powi ilog2 q \<le> q \<and> q < 2 powi (ilog2 q + 1)"
proof -
  obtain n d where nd: "quotient_of q = (n, d)" by (cases "quotient_of q")
  have d: "0 < d" using quotient_of_denom_pos [OF nd] .
  have q: "q = of_int n / of_int d" using quotient_of_div [OF nd] .
  have n: "0 < n" using assms d by (auto simp: q zero_less_divide_iff)
  define a where "a = floorlog 2 (nat n)"
  define b where "b = floorlog 2 (nat d)"
  have n1: "(2 :: rat) powi (int a - 1) \<le> of_int n" "of_int n < (2 :: rat) powi int a"
    using floorlog_powi [OF n] by (simp_all add: a_def)
  have d1: "(2 :: rat) powi (int b - 1) \<le> of_int d" "of_int d < (2 :: rat) powi int b"
    using floorlog_powi [OF d] by (simp_all add: b_def)
  define k where "k = int a - int b"
  have dq: "of_int n = q * (of_int d :: rat)" using d by (simp add: q)
  have up: "q < 2 powi (k + 1)"
  proof -
    have "q * 2 powi (int b - 1) \<le> q * of_int d" using d1(1) assms by simp
    also have "\<dots> < 2 powi int a" using n1(2) dq by simp
    also have "\<dots> = 2 powi (k + 1) * 2 powi (int b - 1)" by (simp add: k_def flip: powi_add)
    finally show ?thesis by simp
  qed
  have low: "2 powi (k - 1) \<le> q"
  proof -
    have "2 powi (k - 1) * 2 powi int b = (2 :: rat) powi (int a - 1)"
      unfolding k_def powi_add [symmetric] by (rule arg_cong) simp
    also have "\<dots> \<le> q * of_int d" using n1(1) dq by simp
    also have "\<dots> \<le> q * 2 powi int b" using d1(2) assms by simp
    finally show ?thesis by simp
  qed
  have "ilog2 q = (if q < 2 powi k then k - 1 else k)"
    by (simp add: ilog2_def nd a_def b_def k_def)
  then show ?thesis using up low by auto
qed

lemma ilog2_unique: "0 < q \<Longrightarrow> 2 powi k \<le> q \<Longrightarrow> q < 2 powi (k + 1) \<Longrightarrow> ilog2 q = k"
  using ilog2_bounds [of q]
  by (smt (verit) powi_less_iff order_le_less_trans)

lemma ilog2_mono: "0 < x \<Longrightarrow> x \<le> y \<Longrightarrow> ilog2 x \<le> ilog2 y"
  using ilog2_bounds [of x] ilog2_bounds [of y]
  by (smt (verit) powi_less_iff order_le_less_trans order_less_le_trans)

lemma dbl_0 [simp]: "dbl 0 = 0"
  by (simp add: dbl_def)

lemma dbl_minus: "dbl (- x) = - dbl x"
  by (simp add: dbl_def Let_def sgn_minus)

lemma dbl_pos: "0 < x \<Longrightarrow> dbl x = of_int (round_even (x / 2 powi (ilog2 x - 52))) * 2 powi (ilog2 x - 52)"
  by (simp add: dbl_def Let_def)

text \<open>The scaled significand of a positive number lies in \<open>[2 ^ 52, 2 ^ 53)\<close>.\<close>

lemma scaled_bounds:
  assumes "0 < x"
  shows "2 ^ 52 \<le> x / 2 powi (ilog2 x - 52)" "x / 2 powi (ilog2 x - 52) < 2 ^ 53"
proof -
  note b = ilog2_bounds [OF assms]
  have "(2 :: rat) ^ 52 * 2 powi (ilog2 x - 52) = 2 powi ilog2 x"
    using powi_add [of 52 "ilog2 x - 52"] by simp
  with b show "2 ^ 52 \<le> x / 2 powi (ilog2 x - 52)"
    by (simp add: pos_le_divide_eq)
  have "(2 :: rat) ^ 53 * 2 powi (ilog2 x - 52) = 2 powi (ilog2 x + 1)"
    using powi_add [of 53 "ilog2 x - 52"] by (simp add: add.commute)
  with b show "x / 2 powi (ilog2 x - 52) < 2 ^ 53"
    by (simp add: pos_divide_less_eq)
qed

lemma dbl_range:
  assumes "0 < x"
  shows "2 powi ilog2 x \<le> dbl x" "dbl x \<le> 2 powi (ilog2 x + 1)"
proof -
  let ?e = "ilog2 x - 52"
  have "round_even (of_int (2 ^ 52)) \<le> round_even (x / 2 powi ?e)"
    using scaled_bounds(1) [OF assms] by (intro round_even_mono) simp
  then have r1: "2 ^ 52 \<le> round_even (x / 2 powi ?e)" by (simp only: round_even_of_int)
  have "round_even (x / 2 powi ?e) \<le> round_even (of_int (2 ^ 53))"
    using scaled_bounds(2) [OF assms] by (intro round_even_mono) simp
  then have r2: "round_even (x / 2 powi ?e) \<le> 2 ^ 53" by (simp only: round_even_of_int)
  have p1: "(2 :: rat) powi ilog2 x = of_int (2 ^ 52) * 2 powi ?e"
    using powi_add [of 52 ?e] by simp
  have p2: "(2 :: rat) powi (ilog2 x + 1) = of_int (2 ^ 53) * 2 powi ?e"
    using powi_add [of 53 ?e] by (simp add: add.commute)
  show "2 powi ilog2 x \<le> dbl x"
    unfolding dbl_pos [OF assms] p1 using r1 by (intro mult_right_mono) (simp_all only: of_int_le_iff powi_pos less_imp_le)
  show "dbl x \<le> 2 powi (ilog2 x + 1)"
    unfolding dbl_pos [OF assms] p2 using r2 by (intro mult_right_mono) (simp_all only: of_int_le_iff powi_pos less_imp_le)
qed

lemma dbl_pos_mono:
  assumes "0 < x" "x \<le> y"
  shows "dbl x \<le> dbl y"
proof -
  have y: "0 < y" using assms by simp
  show ?thesis
  proof (cases "ilog2 x = ilog2 y")
    case True
    have "x / 2 powi (ilog2 y - 52) \<le> y / 2 powi (ilog2 y - 52)"
      using assms(2) by (simp add: divide_right_mono less_imp_le)
    then have "round_even (x / 2 powi (ilog2 y - 52)) \<le> round_even (y / 2 powi (ilog2 y - 52))"
      by (rule round_even_mono)
    then show ?thesis
      unfolding dbl_pos [OF assms(1)] dbl_pos [OF y] True
      by (intro mult_right_mono) (simp_all add: less_imp_le)
  next
    case False
    with ilog2_mono [OF assms] have "ilog2 x + 1 \<le> ilog2 y" by simp
    then have "(2 :: rat) powi (ilog2 x + 1) \<le> 2 powi ilog2 y" by (rule powi_mono)
    then show ?thesis using dbl_range(2) [OF assms(1)] dbl_range(1) [OF y] by linarith
  qed
qed

lemma dbl_strict_pos: "0 < x \<Longrightarrow> 0 < dbl x"
  using powi_pos dbl_range(1) by (rule less_le_trans)

lemma dbl_nonneg: "0 \<le> x \<Longrightarrow> 0 \<le> dbl x"
  using dbl_strict_pos [of x] by (cases "x = 0") auto

lemma dbl_mono: "0 \<le> x \<Longrightarrow> x \<le> y \<Longrightarrow> dbl x \<le> dbl y"
  by (cases "x = 0") (auto intro: dbl_nonneg dbl_pos_mono)

text \<open>Integers up to \<open>2 ^ 53\<close> in magnitude are doubles.\<close>

lemma dbl_pos_int:
  assumes "0 < n" "n < 2 ^ 53"
  shows "dbl (of_int n) = of_int n"
proof -
  let ?x = "of_int n :: rat"
  have x: "0 < ?x" using assms by simp
  have "?x < of_int (2 ^ 53)" using assms(2) by (simp only: of_int_less_iff)
  then have lt: "?x < 2 powi 53" by (simp add: power_int_def)
  have "2 powi ilog2 ?x \<le> ?x" using ilog2_bounds [OF x] by simp
  then have "(2 :: rat) powi ilog2 ?x < 2 powi 53" using lt by (rule le_less_trans)
  then have "ilog2 ?x < 53" by (simp only: powi_less_iff)
  then have e: "ilog2 ?x - 52 \<le> 0" by simp
  define m where "m = n * 2 ^ nat (52 - ilog2 ?x)"
  have inv: "1 / (2 :: rat) powi (ilog2 ?x - 52) = 2 ^ nat (52 - ilog2 ?x)"
    using e by (simp add: power_int_def field_simps)
  have "?x / 2 powi (ilog2 ?x - 52) = ?x * (1 / 2 powi (ilog2 ?x - 52))" by simp
  also have "\<dots> = of_int m" by (simp add: inv m_def)
  finally have m: "?x / 2 powi (ilog2 ?x - 52) = of_int m" .
  have "dbl ?x = of_int m * 2 powi (ilog2 ?x - 52)"
    unfolding dbl_pos [OF x] m by simp
  also have "\<dots> = ?x" unfolding m [symmetric] by simp
  finally show ?thesis .
qed

lemma dbl_int: "\<bar>n\<bar> < 2 ^ 53 \<Longrightarrow> dbl (of_int n) = of_int n"
  using dbl_pos_int [of n] dbl_pos_int [of "- n"] dbl_minus [of "of_int n"]
  by (cases "n = 0"; cases "0 < n") auto

lemma dbl_1 [simp]: "dbl 1 = 1"
  using dbl_int [of 1] by simp

lemma dbl_100 [simp]: "dbl 100 = 100"
  using dbl_int [of 100] by simp

text \<open>Rounding stays below any double it starts below: the form the money lemmas use.\<close>

lemma dbl_le_int: "0 \<le> x \<Longrightarrow> x \<le> of_int n \<Longrightarrow> n < 2 ^ 53 \<Longrightarrow> dbl x \<le> of_int n"
proof -
  assume a: "0 \<le> x" "x \<le> of_int n" "n < 2 ^ 53"
  then have "0 \<le> n" by (metis of_int_0_le_iff order_trans)
  with a dbl_int [of n] dbl_mono [of x "of_int n"] show ?thesis by simp
qed

lemma dbl_le_1: "0 \<le> x \<Longrightarrow> x \<le> 1 \<Longrightarrow> dbl x \<le> 1"
  using dbl_le_int [of x 1] by simp

lemma dbl_numeral [simp]: "numeral n < (2 :: int) ^ 53 \<Longrightarrow> dbl (numeral n) = numeral n"
  using dbl_int [of "numeral n"] by simp

lemma dbl_scale: "dbl (x * 2 powi k) = dbl x * 2 powi k"
proof -
  have pos: "dbl (y * 2 powi k) = dbl y * 2 powi k" if y: "0 < y" for y
  proof -
    have yk: "0 < y * 2 powi k" using y powi_pos by (rule mult_pos_pos)
    have "ilog2 (y * 2 powi k) = ilog2 y + k"
    proof (rule ilog2_unique [OF yk])
      show "2 powi (ilog2 y + k) \<le> y * 2 powi k"
        using ilog2_bounds [OF y] by (simp add: powi_add powi_pos)
      have "y * 2 powi k < 2 powi (ilog2 y + 1) * 2 powi k"
        using ilog2_bounds [OF y] powi_pos by (intro mult_strict_right_mono) auto
      also have "\<dots> = 2 powi (ilog2 y + k + 1)"
        unfolding powi_add [symmetric] by (rule arg_cong) simp
      finally show "y * 2 powi k < 2 powi (ilog2 y + k + 1)" .
    qed
    moreover have "2 powi (ilog2 y + k - 52) = 2 powi (ilog2 y - 52) * (2 :: rat) powi k"
      unfolding powi_add [symmetric] by (rule arg_cong) simp
    ultimately show ?thesis
      unfolding dbl_pos [OF y] dbl_pos [OF yk] by simp
  qed
  consider "x = 0" | "0 < x" | "0 < - x" by linarith
  then show ?thesis using pos [of x] pos [of "- x"] dbl_minus [of x] dbl_minus [of "x * 2 powi k"]
    by cases auto
qed

lemma dbl_dyadic: "\<bar>m\<bar> < 2 ^ 53 \<Longrightarrow> dbl (of_int m * 2 powi k) = of_int m * 2 powi k"
  by (simp add: dbl_scale dbl_int)

lemma dbl_half [simp]: "dbl (1 / 2) = 1 / 2"
  using dbl_dyadic [of 1 "-1"] by simp

text \<open>The relative error of a rounding.\<close>

lemma dbl_upper:
  assumes "0 \<le> x"
  shows "dbl x \<le> x * (1 + 1 / 2 ^ 53)"
proof (cases "x = 0")
  case False
  then have x: "0 < x" using assms by simp
  let ?e = "(2 :: rat) powi (ilog2 x - 52)"
  have "of_int (round_even (x / ?e)) \<le> x / ?e + 1 / 2" using round_even_error [of "x / ?e"] by linarith
  then have "dbl x \<le> (x / ?e + 1 / 2) * ?e"
    unfolding dbl_pos [OF x] by (intro mult_right_mono) (simp_all add: less_imp_le)
  also have "\<dots> = x + ?e / 2" using powi_pos [of "ilog2 x - 52"] by (simp add: field_simps)
  also have "?e / 2 \<le> x / 2 ^ 53"
    using scaled_bounds(1) [OF x] powi_pos [of "ilog2 x - 52"] by (simp add: field_simps)
  finally show ?thesis by (simp add: field_simps)
qed simp

text \<open>
  Evaluation on a literal: with the binary exponent and the nearest significand given, the double is
  determined by three comparisons.
\<close>

lemma round_even_eqI: "\<bar>x - of_int m\<bar> < 1 / 2 \<Longrightarrow> round_even x = m"
proof -
  assume "\<bar>x - of_int m\<bar> < 1 / 2"
  then have "\<bar>of_int (round_even x) - of_int m\<bar> < (1 :: rat)"
    using round_even_error [of x] by linarith
  then have "\<bar>round_even x - m\<bar> < 1"
    by (metis of_int_1 of_int_abs of_int_diff of_int_less_iff)
  then show ?thesis by simp
qed

lemma dbl_eqI:
  assumes "0 < x" "2 powi e \<le> x" "x < 2 powi (e + 1)" "\<bar>x / 2 powi (e - 52) - of_int m\<bar> < 1 / 2"
  shows "dbl x = of_int m * 2 powi (e - 52)"
  using dbl_pos [OF assms(1)] ilog2_unique [OF assms(1-3)] round_even_eqI [OF assms(4)] by simp

section \<open>\<open>Number(text)\<close>\<close>

text \<open>
  The value of a numeric text: white space around it is ignored, the empty text is 0, a prefix \<open>0x\<close>, \<open>0o\<close>
  or \<open>0b\<close> selects the base, otherwise a decimal with optional sign, fraction and exponent. \<open>None\<close> stands
  for \<open>NaN\<close> and the infinities, which every use in the source treats alike.
\<close>

definition digit_of :: "char \<Rightarrow> nat option" where
  "digit_of c =
     (let n = cu c in
      if 48 \<le> n \<and> n \<le> 57 then Some (n - 48)
      else if 97 \<le> n \<and> n \<le> 122 then Some (n - 87)
      else if 65 \<le> n \<and> n \<le> 90 then Some (n - 55) else None)"

definition digit_in :: "nat \<Rightarrow> char \<Rightarrow> bool" where
  "digit_in b c = (case digit_of c of None \<Rightarrow> False | Some d \<Rightarrow> d < b)"

definition based_val :: "nat \<Rightarrow> string \<Rightarrow> nat" where
  "based_val b s = foldl (\<lambda>a c. b * a + or_else (digit_of c) 0) 0 s"

definition based_number :: "nat \<Rightarrow> string \<Rightarrow> rat option" where
  "based_number b s =
     (if s \<noteq> [] \<and> list_all (digit_in b) s then Some (dbl (of_nat (based_val b s))) else None)"

definition exponent_of :: "string \<Rightarrow> int option" where
  "exponent_of s =
     (if s = [] then Some 0
      else if hd s = CHR ''e'' \<or> hd s = CHR ''E'' then
        (let neg = starts_with (tl s) ''-'';
             ds = (if neg \<or> starts_with (tl s) ''+'' then drop 2 s else tl s)
         in if ds \<noteq> [] \<and> list_all is_digit ds
            then Some (if neg then - int (digits_val ds) else int (digits_val ds)) else None)
      else None)"

definition decimal_number :: "string \<Rightarrow> rat option" where
  "decimal_number s =
     (let neg = starts_with s ''-'';
          u = (if neg \<or> starts_with s ''+'' then drop 1 s else s);
          ip = takeWhile is_digit u;
          r = dropWhile is_digit u;
          fp = (if starts_with r ''.'' then takeWhile is_digit (tl r) else []);
          r' = (if starts_with r ''.'' then dropWhile is_digit (tl r) else r)
      in if ip = [] \<and> fp = [] then None
         else case exponent_of r' of None \<Rightarrow> None
           | Some e \<Rightarrow>
               let v = dbl (of_nat (digits_val (ip @ fp)) * 10 powi (e - int (length fp)))
               in Some (if neg then - v else v))"

definition js_number :: "string \<Rightarrow> rat option" where
  "js_number text =
     (let s = js_trim text in
      if s = [] then Some 0
      else if starts_with s ''0x'' \<or> starts_with s ''0X'' then based_number 16 (drop 2 s)
      else if starts_with s ''0o'' \<or> starts_with s ''0O'' then based_number 8 (drop 2 s)
      else if starts_with s ''0b'' \<or> starts_with s ''0B'' then based_number 2 (drop 2 s)
      else decimal_number s)"

text \<open>The decimal text of a natural number denotes it.\<close>

lemma takeWhile_all_set: "\<forall>x \<in> set xs. P x \<Longrightarrow> dropWhile P xs = []"
  by (induction xs) auto

lemma js_trim_digits: "\<forall>c \<in> set s. is_digit c \<Longrightarrow> js_trim s = s"
proof -
  assume d: "\<forall>c \<in> set s. is_digit c"
  have "dropWhile is_js_space t = t" if "set t \<subseteq> set s" for t
    using that d digit_not_space by (cases t) auto
  from this [of s] this [of "rev s"] show ?thesis by (simp add: js_trim_def)
qed

lemma js_number_show_nat [simp]:
  assumes "n < 2 ^ 53"
  shows "js_number (show_nat n) = Some (of_nat n)"
proof -
  let ?s = "show_nat n"
  have d: "\<forall>c \<in> set ?s. is_digit c" by (rule show_nat_digits)
  have no: "\<not> starts_with ?s [CHR ''0'', x]" if "\<not> is_digit x" for x
  proof
    assume "starts_with ?s [CHR ''0'', x]"
    then have "x \<in> set ?s" unfolding starts_with_iff by auto
    then show False using d that by blast
  qed
  have letters: "\<not> is_digit CHR ''x''" "\<not> is_digit CHR ''X''" "\<not> is_digit CHR ''o''" "\<not> is_digit CHR ''O''"
    "\<not> is_digit CHR ''b''" "\<not> is_digit CHR ''B''" "\<not> is_digit CHR ''-''" "\<not> is_digit CHR ''+''" "\<not> is_digit CHR ''.''"
    by (simp_all add: is_digit_def cu_def)
  have sign: "\<not> starts_with ?s [x]" if "\<not> is_digit x" for x
    using d that unfolding starts_with_iff by auto
  have "dbl (of_nat n) = of_nat n" using dbl_int [of "int n"] assms by simp
  then have "decimal_number ?s = Some (of_nat n)"
    using sign letters
    by (simp add: decimal_number_def Let_def exponent_of_def starts_with_def [of "[]"]
        takeWhile_all [OF d] takeWhile_all_set [OF d])
  then show ?thesis
    using no letters js_trim_digits [OF d] by (simp add: js_number_def Let_def)
qed

end
