(* ===== verification/Routing.thy ===== *)
theory Routing
  imports Js_Number
begin

text \<open>
  The routing chain of a link (\<open>packages/domain/src/routing.ts\<close> over the types of
  \<open>packages/contract/src/link.ts\<close>): which destination a visitor is sent to, and which chains the
  API accepts.

  Objects of a JavaScript array are told apart by identity, so an arm of a split is named by its
  position: \<open>pick_weighted\<close> returns the index of the chosen rule. Weights are doubles
  (\<open>Js_Number.dbl\<close>), the FNV-1a hash is 32-bit (\<open>32 word\<close>). The sentences \<open>validateRoutingChain\<close>
  builds are the constructors of \<open>chain_problem\<close>, each carrying the numbers its sentence prints.
\<close>

section \<open>The types of a rule\<close>

datatype device_type = Ios | Android | Desktop | Mobile

datatype redirect_type = R301 | R302 | R307

record rule_when =
  w_country :: "string option"
  w_device :: "device_type option"
  w_language :: "string option"

record routing_rule =
  rule_id :: string
  rule_when :: rule_when
  rule_then :: string
  rule_weight :: "rat option"

record visitor_context =
  ctx_country :: "string option"
  ctx_device :: "device_type option"
  ctx_language :: "string option"
  ctx_visitor_hash :: string

record routing_decision =
  decision_destination :: string
  matched_rule_id :: "string option"
  decision_variant :: "string option"

section \<open>Matching a rule\<close>

definition is_catch_all :: "routing_rule \<Rightarrow> bool" where
  "is_catch_all r =
     (\<not> truthy (w_country (rule_when r)) \<and> w_device (rule_when r) = None
      \<and> \<not> truthy (w_language (rule_when r)))"

definition rule_matches :: "routing_rule \<Rightarrow> visitor_context \<Rightarrow> bool" where
  "rule_matches r ctx =
     (let w = rule_when r in
      if truthy (w_country w)
         \<and> js_upper (or_else (w_country w) []) \<noteq> js_upper (or_else (ctx_country ctx) [])
      then False
      else if truthy (w_language w)
         \<and> js_lower (or_else (w_language w) []) \<noteq> js_lower (or_else (ctx_language ctx) [])
      then False
      else case w_device w of
        None \<Rightarrow> True
      | Some d \<Rightarrow>
          (case ctx_device ctx of
            None \<Rightarrow> False
          | Some cd \<Rightarrow>
              if d = Mobile then cd = Mobile \<or> cd = Ios \<or> cd = Android
              else d = cd))"

text \<open>\<open>r.weight ?? 0\<close>.\<close>

definition weight_of :: "routing_rule \<Rightarrow> rat" where
  "weight_of r = or_else (rule_weight r) 0"

definition is_weighted_catch_all :: "routing_rule \<Rightarrow> bool" where
  "is_weighted_catch_all r =
     (is_catch_all r \<and> (case rule_weight r of None \<Rightarrow> False | Some w \<Rightarrow> 0 < w))"

section \<open>The weighted split\<close>

type_synonym u32 = "32 word"

fun fnv_step :: "u32 \<Rightarrow> string \<Rightarrow> u32" where
  "fnv_step h [] = h"
| "fnv_step h (c # cs) = fnv_step (xor h (of_nat (cu c)) * 0x01000193) cs"

definition bucket_of :: "string \<Rightarrow> nat \<Rightarrow> nat" where
  "bucket_of seed buckets = unat (fnv_step 0x811c9dc5 seed) mod buckets"

definition weight_total :: "routing_rule list \<Rightarrow> rat" where
  "weight_total rs = foldl (\<lambda>s r. dbl (s + weight_of r)) 0 rs"

text \<open>
  The loop of \<open>pickWeighted\<close>: \<open>i\<close> is the position reached, \<open>cumulative\<close> the running sum; the last
  position is the answer when no slice contains the point.
\<close>

definition slice :: "rat \<Rightarrow> routing_rule \<Rightarrow> rat" where
  "slice tot r = dbl (dbl (weight_of r / tot) * 10000)"

fun pick_loop :: "routing_rule list \<Rightarrow> rat \<Rightarrow> nat \<Rightarrow> rat \<Rightarrow> nat \<Rightarrow> nat" where
  "pick_loop [] tot point cumulative i = i - 1"
| "pick_loop (r # rs) tot point cumulative i =
     (let c = dbl (cumulative + slice tot r) in
      if of_nat point < c then i else pick_loop rs tot point c (Suc i))"

definition pick_weighted :: "routing_rule list \<Rightarrow> string \<Rightarrow> nat" where
  "pick_weighted rs seed =
     (let tot = weight_total rs in
      if tot \<le> 0 then 0
      else pick_loop rs tot (bucket_of seed 10000) 0 0)"

section \<open>Evaluating a chain\<close>

definition evaluate_routing :: "routing_rule list \<Rightarrow> string \<Rightarrow> visitor_context \<Rightarrow> routing_decision" where
  "evaluate_routing rules fallback ctx =
     (let weighted_group = filter is_weighted_catch_all rules in
      case find (\<lambda>r. \<not> is_weighted_catch_all r \<and> rule_matches r ctx) rules of
        Some r \<Rightarrow> \<lparr> decision_destination = rule_then r, matched_rule_id = Some (rule_id r),
                    decision_variant = None \<rparr>
      | None \<Rightarrow>
          if 0 < length weighted_group then
            let k = pick_weighted weighted_group (ctx_visitor_hash ctx);
                picked = weighted_group ! k
            in \<lparr> decision_destination = rule_then picked, matched_rule_id = Some (rule_id picked),
                 decision_variant = Some (show_nat (k + 1) @ ''/'' @ show_nat (length weighted_group)) \<rparr>
          else \<lparr> decision_destination = fallback, matched_rule_id = None, decision_variant = None \<rparr>)"

section \<open>Validating a chain\<close>

datatype chain_problem =
    SplitNeedsTwo
  | SplitTotal rat
  | Stranded nat
  | DuplicateConditions

type_synonym rule_key = "string option \<times> device_type option \<times> string option"

text \<open>
  The key is the JSON text of a triple, which determines the triple, so two keys are equal exactly
  when their triples are.
\<close>

definition condition_key :: "routing_rule \<Rightarrow> rule_key" where
  "condition_key r =
     (map_option js_upper (w_country (rule_when r)), w_device (rule_when r),
      map_option js_lower (w_language (rule_when r)))"

fun duplicate_problems :: "rule_key set \<Rightarrow> routing_rule list \<Rightarrow> chain_problem list" where
  "duplicate_problems seen [] = []"
| "duplicate_problems seen (r # rs) =
     (if is_catch_all r then duplicate_problems seen rs
      else (if condition_key r \<in> seen then [DuplicateConditions] else [])
           @ duplicate_problems (insert (condition_key r) seen) rs)"

text \<open>\<open>!r.weight\<close>: absent or zero.\<close>

definition unweighted :: "routing_rule \<Rightarrow> bool" where
  "unweighted r = (rule_weight r = None \<or> rule_weight r = Some 0)"

definition split_problems :: "routing_rule list \<Rightarrow> chain_problem list" where
  "split_problems rules =
     (let weighted = filter (\<lambda>r. case rule_weight r of None \<Rightarrow> False | Some w \<Rightarrow> 0 < w)
                       (filter is_catch_all rules);
          tot = weight_total weighted
      in (if length weighted = 1 then [SplitNeedsTwo] else [])
         @ (if 1 < length weighted \<and> dbl (1 / 100) < \<bar>dbl (tot - 100)\<bar> then [SplitTotal tot] else []))"

definition stranded_problems :: "routing_rule list \<Rightarrow> chain_problem list" where
  "stranded_problems rules =
     (case find_index (\<lambda>r. is_catch_all r \<and> unweighted r) rules of
        None \<Rightarrow> []
      | Some i \<Rightarrow> if i < length rules - 1 then [Stranded (length rules - i - 1)] else [])"

definition validate_routing_chain :: "routing_rule list \<Rightarrow> chain_problem list" where
  "validate_routing_chain rules =
     split_problems rules @ stranded_problems rules @ duplicate_problems {} rules"

section \<open>Lemmas\<close>

lemma weighted_no_condition: "is_weighted_catch_all r \<Longrightarrow> rule_matches r ctx"
  by (auto simp: is_weighted_catch_all_def is_catch_all_def rule_matches_def Let_def)

lemma catch_all_matches: "is_catch_all r \<Longrightarrow> rule_matches r ctx"
  by (auto simp: is_catch_all_def rule_matches_def Let_def)

text \<open>The loop answers a position of the list it walks.\<close>

lemma pick_loop_range:
  "rs \<noteq> [] \<Longrightarrow> i \<le> pick_loop rs tot point c i \<and> pick_loop rs tot point c i < i + length rs"
proof (induction rs arbitrary: c i)
  case Nil
  then show ?case by simp
next
  case (Cons r rs)
  show ?case
  proof (cases "rs = []")
    case True
    then show ?thesis by (simp add: Let_def)
  next
    case False
    then show ?thesis using Cons.IH [where c = "dbl (c + slice tot r)" and i = "Suc i"] by (auto simp: Let_def)
  qed
qed

lemma pick_weighted_less: "rs \<noteq> [] \<Longrightarrow> pick_weighted rs seed < length rs"
  using pick_loop_range [where rs = rs and tot = "weight_total rs" and point = "bucket_of seed 10000" and c = 0 and i = 0]
  by (simp add: pick_weighted_def Let_def)

text \<open>The cumulative boundaries the loop passes, one per arm.\<close>

fun boundaries :: "rat \<Rightarrow> rat \<Rightarrow> routing_rule list \<Rightarrow> rat list" where
  "boundaries tot c [] = []"
| "boundaries tot c (r # rs) =
     (let c' = dbl (c + slice tot r) in c' # boundaries tot c' rs)"

lemma length_boundaries [simp]: "length (boundaries tot c rs) = length rs"
  by (induction rs arbitrary: c) (auto simp: Let_def)

lemma pick_loop_find:
  "rs \<noteq> [] \<Longrightarrow> pick_loop rs tot point c i =
     (case find_index (\<lambda>b. of_nat point < b) (boundaries tot c rs) of
        None \<Rightarrow> i + length rs - 1 | Some k \<Rightarrow> i + k)"
proof (induction rs arbitrary: c i)
  case Nil
  then show ?case by simp
next
  case (Cons r rs)
  show ?case
  proof (cases "rs = []")
    case True
    then show ?thesis by (simp add: Let_def)
  next
    case False
    with Cons.IH [where c = "dbl (c + slice tot r)" and i = "Suc i"] show ?thesis
      by (auto simp: Let_def split: option.splits)
  qed
qed

lemma foldl_pos:
  "\<forall>r \<in> set rs. 0 \<le> weight_of r \<Longrightarrow> 0 < s \<Longrightarrow> 0 < foldl (\<lambda>s r. dbl (s + weight_of r)) s rs"
  by (induction rs arbitrary: s) (simp_all add: dbl_strict_pos add_pos_nonneg)

lemma weighted_weight_pos: "is_weighted_catch_all r \<Longrightarrow> 0 < weight_of r"
  by (auto simp: is_weighted_catch_all_def weight_of_def split: option.splits)

text \<open>The guard \<open>total <= 0\<close> of \<open>pickWeighted\<close> never fires on the arms the caller passes.\<close>

lemma weight_total_pos:
  assumes "rs \<noteq> []" "\<And>r. r \<in> set rs \<Longrightarrow> is_weighted_catch_all r"
  shows "0 < weight_total rs"
proof -
  obtain r rs' where rs: "rs = r # rs'" using assms(1) by (cases rs) auto
  have "0 < dbl (weight_of r)" using assms(2) rs by (auto intro: dbl_strict_pos weighted_weight_pos)
  then show ?thesis
    using assms(2) rs
    by (auto simp: weight_total_def intro!: foldl_pos less_imp_le [OF weighted_weight_pos])
qed

lemma duplicate_problems_distinct:
  "duplicate_problems seen rs = [] \<longleftrightarrow>
     distinct (map condition_key (filter (\<lambda>r. \<not> is_catch_all r) rs))
     \<and> seen \<inter> condition_key ` {r \<in> set rs. \<not> is_catch_all r} = {}"
proof (induction seen rs rule: duplicate_problems.induct)
  case (1 seen)
  show ?case by simp
next
  case (2 seen r rs)
  have "{r' \<in> set (r # rs). \<not> is_catch_all r'} =
      (if is_catch_all r then {} else {r}) \<union> {r' \<in> set rs. \<not> is_catch_all r'}" by auto
  then show ?case using "2.IH" by (cases "is_catch_all r") auto
qed

lemma validate_Nil_iff:
  "validate_routing_chain rules = [] \<longleftrightarrow>
     split_problems rules = [] \<and> stranded_problems rules = [] \<and> duplicate_problems {} rules = []"
  by (auto simp: validate_routing_chain_def)

lemma filter_weighted_catch_all:
  "filter (\<lambda>r. case rule_weight r of None \<Rightarrow> False | Some w \<Rightarrow> 0 < w) (filter is_catch_all rules)
   = filter is_weighted_catch_all rules"
  by (auto simp: is_weighted_catch_all_def intro: filter_cong)

lemma split_problems_eq:
  "split_problems rules =
     (let weighted = filter is_weighted_catch_all rules; tot = weight_total weighted
      in (if length weighted = 1 then [SplitNeedsTwo] else [])
         @ (if 1 < length weighted \<and> dbl (1 / 100) < \<bar>dbl (tot - 100)\<bar> then [SplitTotal tot] else []))"
  by (simp only: split_problems_def filter_weighted_catch_all)

text \<open>An accepted chain has at most one unweighted catch-all, and it is the last rule.\<close>

lemma stranded_Nil:
  assumes "stranded_problems rules = []" "i < length rules"
    and "is_catch_all (rules ! i)" "unweighted (rules ! i)"
  shows "i = length rules - 1"
proof (cases "find_index (\<lambda>r. is_catch_all r \<and> unweighted r) rules")
  case None
  with assms show ?thesis by (auto simp: find_index_None)
next
  case (Some k)
  with find_index_Some [OF Some] assms have "k \<le> i" by (meson not_le_imp_less)
  with Some assms show ?thesis by (auto simp: stranded_problems_def split: if_splits)
qed

section \<open>Properties\<close>

text \<open>
  First match wins: the decision is the one of the first rule, in the author's order, that is
  not an arm of the weighted split and whose conditions all hold; only when there is none does the
  split decide, and only when there is no split does the link's own destination.
\<close>

theorem evaluate_routing_first_match:
  assumes "i < length rules" "\<not> is_weighted_catch_all (rules ! i)" "rule_matches (rules ! i) ctx"
    and first: "\<And>j. j < i \<Longrightarrow> is_weighted_catch_all (rules ! j) \<or> \<not> rule_matches (rules ! j) ctx"
  shows "evaluate_routing rules fallback ctx =
    \<lparr> decision_destination = rule_then (rules ! i), matched_rule_id = Some (rule_id (rules ! i)),
      decision_variant = None \<rparr>"
proof -
  have "find (\<lambda>r. \<not> is_weighted_catch_all r \<and> rule_matches r ctx) rules = Some (rules ! i)"
    using assms by (auto simp: find_Some_iff)
  then show ?thesis by (simp add: evaluate_routing_def Let_def)
qed

text \<open>A chain used by the witnesses: a split with a conditional rule between its two arms.\<close>

definition example_chain :: "routing_rule list" where
  "example_chain =
     [\<lparr> rule_id = ''a'', rule_when = \<lparr> w_country = None, w_device = None, w_language = None \<rparr>,
        rule_then = ''https://a.example'', rule_weight = Some 50 \<rparr>,
      \<lparr> rule_id = ''b'', rule_when = \<lparr> w_country = Some ''in'', w_device = None, w_language = None \<rparr>,
        rule_then = ''https://in.example'', rule_weight = None \<rparr>,
      \<lparr> rule_id = ''c'', rule_when = \<lparr> w_country = None, w_device = None, w_language = None \<rparr>,
        rule_then = ''https://c.example'', rule_weight = Some 50 \<rparr>]"

definition example_visitor :: "visitor_context" where
  "example_visitor = \<lparr> ctx_country = Some ''IN'', ctx_device = Some Ios, ctx_language = None,
     ctx_visitor_hash = ''deadbeef'' \<rparr>"

lemma example_chain_facts:
  "length example_chain = 3"
  "is_weighted_catch_all (example_chain ! 0)"
  "\<not> is_weighted_catch_all (example_chain ! 1)"
  "is_weighted_catch_all (example_chain ! 2)"
  "rule_matches (example_chain ! 1) example_visitor"
  by code_simp+

theorem evaluate_routing_first_match_witness:
  "decision_destination (evaluate_routing example_chain ''https://f.example'' example_visitor)
   = ''https://in.example''"
proof -
  have "\<And>j. j < 1 \<Longrightarrow> is_weighted_catch_all (example_chain ! j)
      \<or> \<not> rule_matches (example_chain ! j) example_visitor"
    using example_chain_facts by auto
  then show ?thesis
    using evaluate_routing_first_match [of 1 example_chain example_visitor "''https://f.example''"]
      example_chain_facts
    by (simp add: example_chain_def)
qed

text \<open>
  The split is sticky and never invents a destination: when no conditional rule applies, the
  arm is the first whose cumulative boundary lies above the visitor's bucket (the last arm when
  none does), whatever the visitor's country, device and language, and the variant names it.
\<close>

theorem evaluate_routing_split:
  fixes rules ctx
  defines "arms \<equiv> filter is_weighted_catch_all rules"
  defines "cuts \<equiv> boundaries (weight_total arms) 0 arms"
  defines "k \<equiv> or_else (find_index (\<lambda>b. of_nat (bucket_of (ctx_visitor_hash ctx) 10000) < b) cuts)
                      (length arms - 1)"
  assumes none: "\<forall>r \<in> set rules. is_weighted_catch_all r \<or> \<not> rule_matches r ctx"
    and split: "arms \<noteq> []"
  shows "k < length arms
    \<and> evaluate_routing rules fallback ctx =
      \<lparr> decision_destination = rule_then (arms ! k), matched_rule_id = Some (rule_id (arms ! k)),
        decision_variant = Some (show_nat (k + 1) @ ''/'' @ show_nat (length arms)) \<rparr>"
proof -
  have "find (\<lambda>r. \<not> is_weighted_catch_all r \<and> rule_matches r ctx) rules = None"
    using none by (auto simp: find_None_iff)
  moreover have "0 < weight_total arms"
    by (rule weight_total_pos [OF split]) (auto simp: arms_def)
  then have "pick_weighted arms (ctx_visitor_hash ctx) = k"
    using split pick_loop_find [OF split]
    by (simp add: pick_weighted_def Let_def k_def cuts_def or_else_def split: option.splits)
  ultimately show ?thesis
    using pick_weighted_less [OF split, of "ctx_visitor_hash ctx"] split
    by (simp add: evaluate_routing_def arms_def [symmetric] Let_def)
qed

definition other_visitor :: "visitor_context" where
  "other_visitor = \<lparr> ctx_country = Some ''US'', ctx_device = None, ctx_language = None,
     ctx_visitor_hash = ''deadbeef'' \<rparr>"

theorem evaluate_routing_split_witness:
  "decision_variant (evaluate_routing example_chain ''https://f.example'' other_visitor) = Some ''1/2''"
proof -
  have none: "\<forall>r \<in> set example_chain. is_weighted_catch_all r \<or> \<not> rule_matches r other_visitor"
    by code_simp
  have arms: "filter is_weighted_catch_all example_chain \<noteq> []" by code_simp
  have two: "filter is_weighted_catch_all example_chain = [example_chain ! 0, example_chain ! 2]"
    by code_simp
  have bs: "boundaries (weight_total [example_chain ! 0, example_chain ! 2]) 0
      [example_chain ! 0, example_chain ! 2] = [5000, 10000]"
    by (simp add: weight_total_def example_chain_def slice_def weight_of_def Let_def)
  have bucket: "bucket_of (ctx_visitor_hash other_visitor) 10000 = 501"
    by (simp add: bucket_of_def cu_def other_visitor_def)
  have "show_nat (Suc 0) = ''1''" "show_nat (Suc (Suc 0)) = ''2''" by code_simp+
  then show ?thesis
    using evaluate_routing_split [OF none arms, of "''https://f.example''", unfolded two bs bucket]
    by simp
qed

lemma accepted_chain:
  assumes ok: "validate_routing_chain rules = []"
  shows "length (filter is_weighted_catch_all rules) \<noteq> 1"
    and "filter is_weighted_catch_all rules \<noteq> []
      \<longrightarrow> \<bar>dbl (weight_total (filter is_weighted_catch_all rules) - 100)\<bar> \<le> dbl (1 / 100)"
    and "\<forall>i < length rules. is_catch_all (rules ! i) \<and> \<not> is_weighted_catch_all (rules ! i)
      \<and> unweighted (rules ! i) \<longrightarrow> i = length rules - 1"
    and "distinct (map condition_key (filter (\<lambda>r. \<not> is_catch_all r) rules))"
proof -
  from ok have s: "split_problems rules = []" "stranded_problems rules = []"
    "duplicate_problems {} rules = []"
    by (simp_all add: validate_Nil_iff)
  from s(1) show one: "length (filter is_weighted_catch_all rules) \<noteq> 1"
    by (auto simp: split_problems_eq Let_def)
  show "filter is_weighted_catch_all rules \<noteq> []
      \<longrightarrow> \<bar>dbl (weight_total (filter is_weighted_catch_all rules) - 100)\<bar> \<le> dbl (1 / 100)"
  proof
    assume "filter is_weighted_catch_all rules \<noteq> []"
    with one have "1 < length (filter is_weighted_catch_all rules)"
      by (cases "filter is_weighted_catch_all rules") auto
    with s(1) show "\<bar>dbl (weight_total (filter is_weighted_catch_all rules) - 100)\<bar> \<le> dbl (1 / 100)"
      by (simp add: split_problems_eq Let_def split: if_splits)
  qed
  show "\<forall>i < length rules. is_catch_all (rules ! i) \<and> \<not> is_weighted_catch_all (rules ! i)
      \<and> unweighted (rules ! i) \<longrightarrow> i = length rules - 1"
    using stranded_Nil [OF s(2)] by blast
  show "distinct (map condition_key (filter (\<lambda>r. \<not> is_catch_all r) rules))"
    using s(3) by (simp add: duplicate_problems_distinct)
qed

text \<open>
  What an accepted chain guarantees (\<open>validateRoutingChain\<close> returned no problem): a split has
  no or at least two arms and, when it has some, its weights add up to 100 within the tolerance;
  an unweighted catch-all can only be the last rule; no two conditional rules state the same
  conditions.
\<close>

theorem validate_routing_chain_sound:
  assumes "validate_routing_chain rules = []"
  shows "length (filter is_weighted_catch_all rules) \<noteq> 1
    \<and> (filter is_weighted_catch_all rules \<noteq> []
         \<longrightarrow> \<bar>dbl (weight_total (filter is_weighted_catch_all rules) - 100)\<bar> \<le> dbl (1 / 100))
    \<and> (\<forall>i < length rules. is_catch_all (rules ! i) \<and> \<not> is_weighted_catch_all (rules ! i)
         \<and> unweighted (rules ! i) \<longrightarrow> i = length rules - 1)
    \<and> distinct (map condition_key (filter (\<lambda>r. \<not> is_catch_all r) rules))"
  using accepted_chain [OF assms] by blast

theorem validate_routing_chain_sound_witness:
  "length (filter is_weighted_catch_all example_chain) \<noteq> 1"
proof -
  have "validate_routing_chain example_chain = []" by code_simp
  then show ?thesis using validate_routing_chain_sound by blast
qed

end
