(* ===== verification/Destination.thy ===== *)
theory Destination
  imports Js_Date Routing
begin

text \<open>
  Turning a matched rule into the URL a visitor receives, and the gates a link passes before that
  (\<open>packages/domain/src/destination.ts\<close>, \<open>packages/domain/src/expiry.ts\<close>).

  The WHATWG \<open>URL\<close> and \<open>URLSearchParams\<close> parsers and the serialiser are the parameter \<open>url_api\<close> of
  \<open>build_destination\<close> (a parsed URL is a value \<open>'u\<close> and the list of its search parameters);
  \<open>searchParams.set\<close> on that list is modelled. Instants are milliseconds.
\<close>

section \<open>The destination URL\<close>

type_synonym params = "(string \<times> string) list"

record utm =
  utm_source :: "string option"
  utm_medium :: "string option"
  utm_campaign :: "string option"
  utm_content :: "string option"

record destination_options =
  opt_destination :: string
  incoming_query :: "string option"
  forward_query :: bool
  opt_utm :: "utm option"

text \<open>\<open>params.set(key, value)\<close>: the first entry of the key takes the value, the others go.\<close>

fun set_param :: "string \<Rightarrow> string \<Rightarrow> params \<Rightarrow> params" where
  "set_param k v [] = [(k, v)]"
| "set_param k v ((k', v') # ps) =
     (if k' = k then (k, v) # filter (\<lambda>p. fst p \<noteq> k) ps else (k', v') # set_param k v ps)"

definition utm_pairs :: "utm \<Rightarrow> (string \<times> string option) list" where
  "utm_pairs u =
     [(''utm_source'', utm_source u), (''utm_medium'', utm_medium u),
      (''utm_campaign'', utm_campaign u), (''utm_content'', utm_content u)]"

text \<open>
  A parsed URL under edit: whether \<open>set\<close> was called, and the parameters. \<open>toString\<close> writes an
  untouched URL as it was parsed (\<open>href\<close>) and a touched one with the parameters serialised anew.
\<close>

type_synonym query_state = "bool \<times> params"

fun url_set :: "string \<Rightarrow> string \<Rightarrow> query_state \<Rightarrow> query_state" where
  "url_set k v (touched, ps) = (True, set_param k v ps)"

fun set_utm :: "(string \<times> string option) list \<Rightarrow> query_state \<Rightarrow> query_state" where
  "set_utm [] q = q"
| "set_utm ((k, v) # kvs) q =
     set_utm kvs (case v of Some w \<Rightarrow> if w \<noteq> [] then url_set k w q else q | None \<Rightarrow> q)"

fun set_incoming :: "params \<Rightarrow> query_state \<Rightarrow> query_state" where
  "set_incoming [] q = q"
| "set_incoming ((k, v) # kvs) q =
     set_incoming kvs (if k = ''k'' then q else url_set k v q)"

text \<open>What the host's URL library provides.\<close>

record 'u url_api =
  parse_url :: "string \<Rightarrow> ('u \<times> params) option"
  parse_query :: "string \<Rightarrow> params"
  url_href :: "'u \<Rightarrow> string"
  url_with_params :: "'u \<Rightarrow> params \<Rightarrow> string"

definition url_to_string :: "'u url_api \<Rightarrow> 'u \<Rightarrow> query_state \<Rightarrow> string" where
  "url_to_string api u q = (if fst q then url_with_params api u (snd q) else url_href api u)"

definition build_destination :: "'u url_api \<Rightarrow> destination_options \<Rightarrow> string" where
  "build_destination api opts =
     (case parse_url api (opt_destination opts) of
        None \<Rightarrow> opt_destination opts
      | Some (u, ps) \<Rightarrow>
          let q1 = (case opt_utm opts of None \<Rightarrow> (False, ps) | Some t \<Rightarrow> set_utm (utm_pairs t) (False, ps));
              q2 = (if forward_query opts \<and> truthy (incoming_query opts)
                    then set_incoming (parse_query api (the (incoming_query opts))) q1 else q1)
          in url_to_string api u q2)"

text \<open>What a reader of the final URL sees under a key: every value given for it.\<close>

definition values_of :: "string \<Rightarrow> params \<Rightarrow> string list" where
  "values_of k ps = map snd (filter (\<lambda>p. fst p = k) ps)"

text \<open>The value \<open>set\<close> leaves when a list of pairs is set one after the other: the last one.\<close>

definition last_value :: "string \<Rightarrow> params \<Rightarrow> string option" where
  "last_value k ps = (if values_of k ps = [] then None else Some (last (values_of k ps)))"

lemma values_of_simps [simp]:
  "values_of k [] = []"
  "values_of k ((k', v) # ps) = (if k' = k then v # values_of k ps else values_of k ps)"
  by (simp_all add: values_of_def)

lemma values_of_append [simp]: "values_of k (ps @ qs) = values_of k ps @ values_of k qs"
  by (simp add: values_of_def)

lemma values_of_filter_other [simp]:
  "values_of k (filter (\<lambda>p. fst p \<noteq> k') ps) = (if k = k' then [] else values_of k ps)"
  by (induction ps) auto

lemma values_of_set_param [simp]:
  "values_of k (set_param k' v ps) = (if k = k' then [v] else values_of k ps)"
  by (induction k' v ps rule: set_param.induct) auto

lemma url_set_eq: "url_set k v q = (True, set_param k v (snd q))"
  by (cases q) simp

lemma values_of_set_incoming:
  "values_of k (snd (set_incoming qs q)) =
     (if k = ''k'' then values_of k (snd q)
      else case last_value k qs of Some v \<Rightarrow> [v] | None \<Rightarrow> values_of k (snd q))"
  by (induction qs q rule: set_incoming.induct) (auto simp: last_value_def url_set_eq)

lemma values_of_set_utm:
  "distinct (map fst kvs) \<Longrightarrow>
   values_of k (snd (set_utm kvs q)) =
     (case map_of kvs k of
        Some (Some v) \<Rightarrow> if v \<noteq> [] then [v] else values_of k (snd q)
      | _ \<Rightarrow> values_of k (snd q))"
proof (induction kvs q rule: set_utm.induct)
  case (2 k' v kvs ps)
  show ?case
  proof (cases "k = k'")
    case True
    with "2.prems" have "map_of kvs k = None" by (auto simp: map_of_eq_None_iff)
    with True "2.IH" "2.prems" show ?thesis by (auto simp: url_set_eq split: option.splits)
  next
    case False
    with "2.IH" "2.prems" show ?thesis by (auto simp: url_set_eq split: option.splits)
  qed
qed auto

lemma touched_set_incoming:
  "fst (set_incoming qs q) = (fst q \<or> (\<exists>k v. (k, v) \<in> set qs \<and> k \<noteq> ''k''))"
  by (induction qs q rule: set_incoming.induct) (auto simp: url_set_eq)

lemma set_incoming_untouched:
  "\<forall>(k, v) \<in> set qs. k = ''k'' \<Longrightarrow> set_incoming qs q = q"
  by (induction qs q rule: set_incoming.induct) auto

definition stored_utm :: "utm option \<Rightarrow> string \<Rightarrow> string option" where
  "stored_utm t k =
     (case t of None \<Rightarrow> None
      | Some u \<Rightarrow> (case map_of (utm_pairs u) k of Some (Some v) \<Rightarrow> if v \<noteq> [] then Some v else None | _ \<Rightarrow> None))"

lemma distinct_utm_pairs: "distinct (map fst (utm_pairs u))"
  by (simp add: utm_pairs_def)

text \<open>
  The precedence of the query parameters of the URL a visitor is sent to: a parameter that
  arrived on the short link wins (its last value, except for the unlock token \<open>k\<close>, which never
  leaves), then the link's stored UTM value, then what the destination carried; every key the
  first two decide has exactly one value.
\<close>

theorem build_destination_precedence:
  assumes "parse_url api (opt_destination opts) = Some (u, ps)"
  shows "\<exists>q. build_destination api opts = url_to_string api u q
    \<and> (\<forall>k. values_of k (snd q) =
        (case (if forward_query opts \<and> truthy (incoming_query opts) \<and> k \<noteq> ''k''
               then last_value k (parse_query api (the (incoming_query opts))) else None) of
           Some v \<Rightarrow> [v]
         | None \<Rightarrow> (case stored_utm (opt_utm opts) k of Some v \<Rightarrow> [v] | None \<Rightarrow> values_of k ps)))"
proof -
  define q1 where "q1 = (case opt_utm opts of None \<Rightarrow> (False, ps) | Some t \<Rightarrow> set_utm (utm_pairs t) (False, ps))"
  define q2 where "q2 = (if forward_query opts \<and> truthy (incoming_query opts)
                     then set_incoming (parse_query api (the (incoming_query opts))) q1 else q1)"
  have v1: "values_of k (snd q1) = (case stored_utm (opt_utm opts) k of Some v \<Rightarrow> [v] | None \<Rightarrow> values_of k ps)" for k
    by (auto simp: q1_def stored_utm_def values_of_set_utm distinct_utm_pairs split: option.splits)
  have "build_destination api opts = url_to_string api u q2"
    by (simp add: build_destination_def assms q1_def q2_def Let_def)
  then show ?thesis
    by (intro exI [of _ q2]) (auto simp: q2_def v1 values_of_set_incoming split: option.splits)
qed

definition example_options :: destination_options where
  "example_options = \<lparr> opt_destination = ''https://a.test/'', incoming_query = Some ''x'',
     forward_query = True,
     opt_utm = Some \<lparr> utm_source = Some ''mail'', utm_medium = Some ''m'', utm_campaign = None, utm_content = None \<rparr> \<rparr>"

definition example_api :: "string url_api" where
  "example_api = \<lparr> parse_url = (\<lambda>s. Some (s, [(''utm_source'', ''old''), (''q'', ''1'')])),
     parse_query = (\<lambda>s. [(''k'', ''token''), (''utm_source'', ''click'')]),
     url_href = (\<lambda>u. u), url_with_params = (\<lambda>u ps. concat (u # map snd ps)) \<rparr>"

theorem build_destination_precedence_witness:
  "\<exists>q. build_destination example_api example_options = url_to_string example_api ''https://a.test/'' q
     \<and> values_of ''utm_source'' (snd q) = [''click''] \<and> values_of ''utm_medium'' (snd q) = [''m'']
     \<and> values_of ''k'' (snd q) = []"
proof -
  have "parse_url example_api (opt_destination example_options)
      = Some (''https://a.test/'', [(''utm_source'', ''old''), (''q'', ''1'')])"
    by (simp add: example_options_def example_api_def)
  from build_destination_precedence [OF this]
  obtain q where e: "build_destination example_api example_options = url_to_string example_api ''https://a.test/'' q"
    and v: "\<And>k. values_of k (snd q) =
        (case (if forward_query example_options \<and> truthy (incoming_query example_options) \<and> k \<noteq> ''k''
               then last_value k (parse_query example_api (the (incoming_query example_options))) else None) of
           Some v \<Rightarrow> [v]
         | None \<Rightarrow> (case stored_utm (opt_utm example_options) k of Some v \<Rightarrow> [v]
              | None \<Rightarrow> values_of k [(''utm_source'', ''old''), (''q'', ''1'')]))"
    by blast
  show ?thesis
    by (intro exI [of _ q] conjI, rule e)
      (simp_all add: v example_options_def example_api_def stored_utm_def utm_pairs_def last_value_def)
qed

section \<open>The gates of a link\<close>

datatype link_status = StArchived | StExpired | StScheduled | StExpiring | StActive

datatype lifecycle_gate_kind = LArchived | LExpired | LClickLimit | LScheduled

datatype effective_gate_kind = Disabled | NotActive | Flagged | Lifecycle lifecycle_gate_kind

text \<open>
  The fields of a link the gates read, under the names of the source; \<open>archivedAt\<close> is the
  column the dashboard reads, \<open>archived\<close> the flag the redirect resolves it to.
\<close>

record gate_link =
  g_disabled :: "bool option"
  g_disabled_at :: date_input
  g_owner_unverified :: "bool option"
  g_archived :: bool
  g_archived_at :: date_input
  g_safe_browsing :: "string option"
  g_expires_at :: date_input
  g_activates_at :: date_input
  g_click_limit :: "int option"
  g_clicks :: "int option"

fun date_truthy :: "date_input \<Rightarrow> bool" where
  "date_truthy NoDate = False"
| "date_truthy (DateValue t) = True"
| "date_truthy (DateText s) = (s \<noteq> [])"

definition limit_reached :: "gate_link \<Rightarrow> bool" where
  "limit_reached l =
     (case g_click_limit l of None \<Rightarrow> False | Some n \<Rightarrow> n \<le> or_else (g_clicks l) 0)"

definition past :: "int option \<Rightarrow> int \<Rightarrow> bool" where
  "past d now = (case d of None \<Rightarrow> False | Some t \<Rightarrow> t \<le> now)"

definition ahead :: "int option \<Rightarrow> int \<Rightarrow> bool" where
  "ahead d now = (case d of None \<Rightarrow> False | Some t \<Rightarrow> now < t)"

definition seven_days :: int where
  "seven_days = 7 * 24 * 60 * 60 * 1000"

definition derive_status :: "gate_link \<Rightarrow> int \<Rightarrow> link_status" where
  "derive_status l now =
     (if date_truthy (g_archived_at l) then StArchived
      else if limit_reached l then StExpired
      else let expires = as_date (g_expires_at l) in
        if past expires now then StExpired
        else if ahead (as_date (g_activates_at l)) now then StScheduled
        else case expires of
            Some e \<Rightarrow> if e - now \<le> seven_days then StExpiring else StActive
          | None \<Rightarrow> StActive)"

definition lifecycle_gate :: "gate_link \<Rightarrow> int \<Rightarrow> lifecycle_gate_kind option" where
  "lifecycle_gate l now =
     (if g_archived l then Some LArchived
      else if past (as_date (g_expires_at l)) now then Some LExpired
      else if limit_reached l then Some LClickLimit
      else if ahead (as_date (g_activates_at l)) now then Some LScheduled
      else None)"

definition effective_gate :: "gate_link \<Rightarrow> int \<Rightarrow> effective_gate_kind option" where
  "effective_gate l now =
     (if g_disabled l = Some True \<or> g_disabled_at l \<noteq> NoDate then Some Disabled
      else if g_owner_unverified l = Some True then Some NotActive
      else if g_archived l then Some (Lifecycle LArchived)
      else if g_safe_browsing l = Some ''flagged'' then Some Flagged
      else map_option Lifecycle (lifecycle_gate l now))"

text \<open>The state the API sends: a lifecycle gate, \<open>"active"\<close>, or nothing.\<close>

datatype lifecycle_state = Gated lifecycle_gate_kind | StateActive | NoState

definition effective_gate_from_state :: "bool \<Rightarrow> lifecycle_state \<Rightarrow> bool \<Rightarrow> effective_gate_kind option" where
  "effective_gate_from_state flagged lifecycle disabled =
     (if disabled then Some Disabled
      else if lifecycle = Gated LArchived then Some (Lifecycle LArchived)
      else if flagged then Some Flagged
      else case lifecycle of Gated g \<Rightarrow> Some (Lifecycle g) | _ \<Rightarrow> None)"

definition validate_schedule :: "date_input \<Rightarrow> date_input \<Rightarrow> string list" where
  "validate_schedule activates_at expires_at =
     (case (as_date activates_at, as_date expires_at) of
        (Some a, Some e) \<Rightarrow>
          if e \<le> a then [''A link cannot be scheduled to start after it expires.''] else []
      | _ \<Rightarrow> [])"

definition cache_headers_for :: "redirect_type \<Rightarrow> (string \<times> string) list" where
  "cache_headers_for rt =
     (if rt = R301 then [(''Cache-Control'', ''public, max-age=300'')]
      else [(''Cache-Control'', ''no-store, no-cache, must-revalidate''), (''Pragma'', ''no-cache'')])"

fun redirect_status :: "redirect_type \<Rightarrow> int" where
  "redirect_status R301 = 301"
| "redirect_status R302 = 302"
| "redirect_status R307 = 307"

section \<open>A new expiry (\<open>expiry.ts\<close>)\<close>

definition expiry_in_past_message :: string where
  "expiry_in_past_message =
     ''That expiry date has already passed, so the link would stop working straight away. Choose a later date, or remove the expiry.''"

definition expiry_skew_tolerance_ms :: int where
  "expiry_skew_tolerance_ms = 60000"

definition validate_expiry :: "date_input \<Rightarrow> int \<Rightarrow> date_input \<Rightarrow> int option \<Rightarrow> string list" where
  "validate_expiry expires_at now previous tolerance_ms =
     (case as_date expires_at of
        None \<Rightarrow> []
      | Some e \<Rightarrow>
          if as_date previous = Some e then []
          else if e \<le> now - max 0 (or_else tolerance_ms 0) then [expiry_in_past_message] else [])"

lemmas gate_defs = derive_status_def lifecycle_gate_def effective_gate_def limit_reached_def past_def ahead_def

text \<open>
  The preview's order of gates is the redirect's: folding the lifecycle state and the Safe
  Browsing flag the API sends gives the gate the redirect itself applies, for every link whose
  owner is verified.
\<close>

theorem effective_gate_from_state_agrees:
  assumes "g_owner_unverified l \<noteq> Some True"
  shows "effective_gate_from_state (g_safe_browsing l = Some ''flagged'')
           (case lifecycle_gate l now of Some g \<Rightarrow> Gated g | None \<Rightarrow> StateActive)
           (g_disabled l = Some True \<or> g_disabled_at l \<noteq> NoDate)
         = effective_gate l now"
  using assms by (auto simp: effective_gate_from_state_def effective_gate_def lifecycle_gate_def)

definition example_link :: gate_link where
  "example_link = \<lparr> g_disabled = Some False, g_disabled_at = NoDate, g_owner_unverified = Some False,
     g_archived = False, g_archived_at = NoDate, g_safe_browsing = Some ''flagged'',
     g_expires_at = DateText ''2026-03-01'', g_activates_at = NoDate, g_click_limit = Some 5,
     g_clicks = Some 2 \<rparr>"

theorem effective_gate_from_state_agrees_witness:
  "effective_gate_from_state True (Gated LExpired) False = effective_gate example_link 1800000000000
   \<and> effective_gate example_link 1800000000000 = Some Flagged"
proof -
  have "lifecycle_gate example_link 1800000000000 = Some LExpired" by code_simp
  moreover have "effective_gate example_link 1800000000000 = Some Flagged" by code_simp
  ultimately show ?thesis
    using effective_gate_from_state_agrees [of example_link 1800000000000]
    by (simp add: example_link_def)
qed

text \<open>
  What the dashboard shows against what a visitor gets: the derived status is live (active or
  expiring) exactly when no lifecycle gate stops the visitor, archived and scheduled mean the
  same gate, and expired covers a passed expiry and a reached click limit.
\<close>

theorem derive_status_gate:
  assumes "g_archived l = date_truthy (g_archived_at l)"
  shows "(derive_status l now \<in> {StActive, StExpiring} \<longleftrightarrow> lifecycle_gate l now = None)
    \<and> (derive_status l now = StArchived \<longleftrightarrow> lifecycle_gate l now = Some LArchived)
    \<and> (derive_status l now = StScheduled \<longleftrightarrow> lifecycle_gate l now = Some LScheduled)
    \<and> (derive_status l now = StExpired \<longleftrightarrow> lifecycle_gate l now \<in> {Some LExpired, Some LClickLimit})"
  using assms by (auto simp: derive_status_def lifecycle_gate_def Let_def split: option.splits)

theorem derive_status_gate_witness:
  "derive_status example_link 1800000000000 = StExpired
   \<and> lifecycle_gate example_link 1800000000000 \<in> {Some LExpired, Some LClickLimit}"
proof -
  have "derive_status example_link 1800000000000 = StExpired" by code_simp
  then show ?thesis
    using derive_status_gate [of example_link 1800000000000] by (simp add: example_link_def)
qed

text \<open>
  The window rule is exact: a schedule is refused exactly when the link could never work,
  whatever the time, and an accepted one leaves an instant at which a visitor is let through
  (for a link that is neither archived nor out of clicks).
\<close>

theorem validate_schedule_exact:
  assumes "\<not> g_archived l" "\<not> limit_reached l"
  shows "(validate_schedule (g_activates_at l) (g_expires_at l) = [])
         = (\<exists>now. lifecycle_gate l now = None)"
proof (cases "as_date (g_activates_at l)")
  case None
  show ?thesis
  proof (cases "as_date (g_expires_at l)")
    case (Some e)
    with None assms have "lifecycle_gate l (e - 1) = None"
      by (simp add: lifecycle_gate_def past_def ahead_def)
    with None show ?thesis by (auto simp: validate_schedule_def)
  qed (use None assms in \<open>auto simp: validate_schedule_def lifecycle_gate_def past_def ahead_def\<close>)
next
  case (Some a)
  show ?thesis
  proof (cases "as_date (g_expires_at l)")
    case None
    with Some assms have "lifecycle_gate l a = None"
      by (simp add: lifecycle_gate_def past_def ahead_def)
    with None Some show ?thesis by (auto simp: validate_schedule_def)
  next
    case e: (Some e)
    show ?thesis
    proof (cases "a < e")
      case True
      with Some e assms have "lifecycle_gate l a = None"
        by (simp add: lifecycle_gate_def past_def ahead_def)
      with True Some e show ?thesis by (auto simp: validate_schedule_def)
    next
      case False
      with Some e assms show ?thesis
        by (auto simp: validate_schedule_def lifecycle_gate_def past_def ahead_def)
    qed
  qed
qed

theorem validate_schedule_exact_witness:
  "(validate_schedule NoDate (DateText ''2026-03-01'') = [])
   = (\<exists>now. lifecycle_gate example_link now = None)"
proof -
  have "\<not> limit_reached example_link" by code_simp
  then show ?thesis
    using validate_schedule_exact [of example_link] by (simp add: example_link_def)
qed

text \<open>The phases of a link's life, in order.\<close>

fun phase :: "lifecycle_gate_kind option \<Rightarrow> nat" where
  "phase (Some LScheduled) = 0"
| "phase None = 1"
| "phase (Some LClickLimit) = 2"
| "phase (Some LExpired) = 3"
| "phase (Some LArchived) = 4"

text \<open>
  A link only moves forward, scheduled, then live, then out of clicks, then expired: at a
  later instant, with no fewer clicks counted and nothing edited, the gate is never an earlier one.
\<close>

theorem lifecycle_gate_forward:
  assumes "now \<le> later" "or_else (g_clicks l) 0 \<le> n"
  shows "phase (lifecycle_gate l now) \<le> phase (lifecycle_gate (l\<lparr>g_clicks := Some n\<rparr>) later)"
  using assms by (auto simp: lifecycle_gate_def past_def ahead_def limit_reached_def split: option.splits)

theorem lifecycle_gate_forward_witness:
  "phase (lifecycle_gate example_link 0)
   \<le> phase (lifecycle_gate (example_link\<lparr>g_clicks := Some 5\<rparr>) 1800000000000)"
  by (rule lifecycle_gate_forward) (simp_all add: example_link_def)

text \<open>
  A new expiry is refused exactly when the link would be born expired: with no earlier expiry
  and no tolerance, \<open>validate_expiry\<close> reports a problem exactly when the lifecycle gate of the
  link it would create is the expired one; and the expiry a row already has is never refused.
\<close>

theorem validate_expiry_born_expired:
  assumes "\<not> g_archived l"
  shows "(validate_expiry (g_expires_at l) now NoDate None \<noteq> [] \<longleftrightarrow> lifecycle_gate l now = Some LExpired)
    \<and> validate_expiry (g_expires_at l) now (g_expires_at l) tol = []"
  using assms
  by (auto simp: validate_expiry_def lifecycle_gate_def past_def split: option.splits)

theorem validate_expiry_born_expired_witness:
  "validate_expiry (DateText ''2026-03-01'') 1800000000000 NoDate None \<noteq> []
   \<and> validate_expiry (DateText ''2026-03-01'') 1800000000000 (DateText ''2026-03-01'') None = []"
proof -
  have "lifecycle_gate example_link 1800000000000 = Some LExpired" by code_simp
  then show ?thesis
    using validate_expiry_born_expired [of example_link 1800000000000] by (simp add: example_link_def)
qed

text \<open>The sign of the tolerance does not matter below zero, and a positive one only accepts more.\<close>

lemma validate_expiry_tolerance_mono:
  "validate_expiry e now p None = [] \<Longrightarrow> validate_expiry e now p tol = []"
  by (auto simp: validate_expiry_def split: option.splits if_splits)

end
