(* ===== verification/Hll.thy ===== *)
theory Hll
  imports Js_Number
begin

text \<open>
  The HyperLogLog sketch of unique visitors (\<open>packages/domain/src/hll.ts\<close>): a \<open>Uint8Array\<close> is a
  list of \<open>8 word\<close>, the hashed value a \<open>32 word\<close>; every thrown error is a constructor of
  \<open>hll_error\<close>. \<open>Math.log\<close> is a parameter of \<open>estimate\<close>.

  The locale \<open>merge_laws\<close> is what the rollup relies on (\<open>merge\<close> as a join), proved once for any
  merge and interpreted on \<open>merge_sketch\<close>.
\<close>

section \<open>Joins\<close>

locale merge_laws =
  fixes mrg :: "'a \<Rightarrow> 'a \<Rightarrow> 'a" and ok :: "'a \<Rightarrow> bool"
  assumes closed: "ok a \<Longrightarrow> ok b \<Longrightarrow> ok (mrg a b)"
    and assoc: "ok a \<Longrightarrow> ok b \<Longrightarrow> ok c \<Longrightarrow> mrg (mrg a b) c = mrg a (mrg b c)"
    and comm: "ok a \<Longrightarrow> ok b \<Longrightarrow> mrg a b = mrg b a"
    and idem: "ok a \<Longrightarrow> mrg a a = a"
begin

lemma fold_ok: "ok e \<Longrightarrow> \<forall>x \<in> set xs. ok x \<Longrightarrow> ok (fold mrg xs e)"
  by (induction xs arbitrary: e) (auto intro: closed)

lemma fold_upper:
  "ok e \<Longrightarrow> \<forall>x \<in> set xs. ok x \<Longrightarrow> x \<in> insert e (set xs) \<Longrightarrow> mrg x (fold mrg xs e) = fold mrg xs e"
proof (induction xs arbitrary: e x)
  case Nil
  then show ?case by (simp add: idem)
next
  case (Cons y ys)
  let ?r = "fold mrg ys (mrg y e)"
  have ok: "ok (mrg y e)" "ok ?r" using Cons.prems by (auto intro: closed fold_ok)
  have le: "mrg z ?r = ?r" if "z \<in> insert (mrg y e) (set ys)" for z
    using Cons.IH [OF ok(1) _ that] Cons.prems by simp
  have split: "mrg z ?r = ?r" if "ok z" "mrg z (mrg y e) = mrg y e" for z
    by (metis le insertI1 assoc ok that)
  have "mrg y (mrg y e) = mrg y e" "mrg e (mrg y e) = mrg y e"
    using Cons.prems by (metis assoc idem list.set_intros(1), metis assoc comm idem list.set_intros(1) closed)
  then show ?case using Cons.prems split le by auto
qed

lemma fold_least:
  "ok e \<Longrightarrow> \<forall>x \<in> set xs. ok x \<Longrightarrow> ok u \<Longrightarrow> \<forall>x \<in> insert e (set xs). mrg x u = u
    \<Longrightarrow> mrg (fold mrg xs e) u = u"
  by (induction xs arbitrary: e) (auto simp: closed assoc)

text \<open>Order and repetition do not matter.\<close>

lemma fold_set_eq:
  assumes "ok e" "\<forall>x \<in> set xs. ok x" "set xs = set ys"
  shows "fold mrg xs e = fold mrg ys e"
proof -
  have ys: "\<forall>x \<in> set ys. ok x" using assms by simp
  have a: "ok (fold mrg xs e)" "ok (fold mrg ys e)" using assms ys fold_ok by auto
  have "mrg (fold mrg xs e) (fold mrg ys e) = fold mrg ys e"
    using fold_least [OF assms(1,2) a(2)] fold_upper [OF assms(1) ys] assms(3) by simp
  moreover have "mrg (fold mrg ys e) (fold mrg xs e) = fold mrg xs e"
    using fold_least [OF assms(1) ys a(1)] fold_upper [OF assms(1,2)] assms(3) by simp
  ultimately show ?thesis using comm [OF a] by simp
qed

end

section \<open>The sketch\<close>

type_synonym sketch = "8 word list"

datatype hll_error =
    BadHash string
  | BadSketch nat
  | BadMerge nat nat
  | BadSerialize nat
  | BadDeserialize nat

definition hll_precision :: nat where
  "hll_precision = 14"

definition hll_register_count :: nat where
  "hll_register_count = push_bit hll_precision 1"

definition hll_byte_size :: nat where
  "hll_byte_size = hll_register_count"

definition create_sketch :: sketch where
  "create_sketch = replicate hll_register_count 0"

definition is_hex :: "char \<Rightarrow> bool" where
  "is_hex c = (is_digit c \<or> 97 \<le> cu c \<and> cu c \<le> 102 \<or> 65 \<le> cu c \<and> cu c \<le> 70)"

definition hex_digit_val :: "char \<Rightarrow> nat" where
  "hex_digit_val c =
     (if is_digit c then cu c - 48 else if 97 \<le> cu c then cu c - 87 else cu c - 55)"

definition hex_val :: "string \<Rightarrow> nat" where
  "hex_val s = foldl (\<lambda>a c. 16 * a + hex_digit_val c) 0 s"

text \<open>The loop over the four words of the hash.\<close>

fun fold_words :: "string \<Rightarrow> nat \<Rightarrow> nat \<Rightarrow> 32 word \<Rightarrow> 32 word" where
  "fold_words s w 0 x = x"
| "fold_words s w (Suc k) x =
     fold_words s (Suc w) k (xor x (of_nat (hex_val (take 8 (drop (w * 8) s)))))"

definition hash_hex_to_32bit :: "string \<Rightarrow> hll_error + 32 word" where
  "hash_hex_to_32bit s =
     (if length s \<noteq> 32 \<or> \<not> list_all is_hex s then Inl (BadHash s) else Inr (fold_words s 0 4 0))"

definition clz32 :: "32 word \<Rightarrow> nat" where
  "clz32 x = length (takeWhile (\<lambda>i. \<not> bit x (31 - i)) [0..<32])"

definition register_index :: "32 word \<Rightarrow> nat" where
  "register_index x = unat (drop_bit (32 - hll_precision) x)"

definition register_rank :: "32 word \<Rightarrow> nat" where
  "register_rank x =
     (let tail = push_bit hll_precision x in
      if tail = 0 then (32 - hll_precision) + 1 else clz32 tail + 1)"

definition add_value :: "sketch \<Rightarrow> 32 word \<Rightarrow> sketch" where
  "add_value sk x =
     (let i = register_index x; rank = register_rank x in
      if unat (sk ! i) < rank then sk[i := of_nat rank] else sk)"

definition add_hashed :: "sketch \<Rightarrow> string \<Rightarrow> hll_error + sketch" where
  "add_hashed sk hash_hex =
     (if length sk \<noteq> hll_byte_size then Inl (BadSketch (length sk))
      else case hash_hex_to_32bit hash_hex of Inl e \<Rightarrow> Inl e | Inr x \<Rightarrow> Inr (add_value sk x))"

fun merge_loop :: "sketch \<Rightarrow> sketch \<Rightarrow> sketch" where
  "merge_loop (a # as) (b # bs) = (if b < a then a else b) # merge_loop as bs"
| "merge_loop _ _ = []"

definition merge_sketch :: "sketch \<Rightarrow> sketch \<Rightarrow> hll_error + sketch" where
  "merge_sketch a b =
     (if length a \<noteq> hll_byte_size \<or> length b \<noteq> hll_byte_size then Inl (BadMerge (length a) (length b))
      else Inr (merge_loop a b))"

definition serialize :: "sketch \<Rightarrow> hll_error + 8 word list" where
  "serialize sk = (if length sk \<noteq> hll_byte_size then Inl (BadSerialize (length sk)) else Inr sk)"

definition deserialize :: "8 word list \<Rightarrow> hll_error + sketch" where
  "deserialize bytes =
     (if length bytes \<noteq> hll_byte_size then Inl (BadDeserialize (length bytes)) else Inr bytes)"

section \<open>The estimate\<close>

definition alpha_m :: rat where
  "alpha_m = dbl (dbl (7213 / 10000) / dbl (1 + dbl (dbl (1079 / 1000) / of_nat hll_register_count)))"

fun rank_sum :: "sketch \<Rightarrow> rat \<Rightarrow> nat \<Rightarrow> rat \<times> nat" where
  "rank_sum [] s zeros = (s, zeros)"
| "rank_sum (r # rs) s zeros =
     rank_sum rs (dbl (s + 1 / 2 ^ unat r)) (if r = 0 then Suc zeros else zeros)"

definition estimate :: "(rat \<Rightarrow> rat) \<Rightarrow> sketch \<Rightarrow> hll_error + int" where
  "estimate log_fn sk =
     (if length sk \<noteq> hll_byte_size then Inl (BadSketch (length sk))
      else
        let m = of_nat hll_register_count :: rat;
            (s, zeros) = rank_sum sk 0 0;
            e = dbl (dbl (dbl (alpha_m * m) * m) / s);
            in_small_range = (e \<le> dbl (dbl (5 / 2) * m) \<and> 0 < zeros);
            in_large_range = (dbl (2 ^ 32 / 30) < e);
            e' = (if in_small_range then dbl (m * log_fn (dbl (m / of_nat zeros)))
                  else if in_large_range then dbl (- (2 ^ 32) * log_fn (dbl (1 - dbl (e / 2 ^ 32))))
                  else e)
        in Inr (max 0 (js_round e')))"

section \<open>One register at a time\<close>

lemma hll_sizes [simp]: "hll_precision = 14" "hll_register_count = 16384" "hll_byte_size = 16384"
  by (simp_all add: hll_precision_def hll_register_count_def hll_byte_size_def)

lemma length_create_sketch [simp]: "length create_sketch = 16384"
  by (simp add: create_sketch_def)

lemma register_index_less: "register_index x < 16384"
proof -
  have "unat (drop_bit 18 x) = drop_bit 18 (unat x)" by (rule unat_drop_bit_eq)
  also have "\<dots> = unat x div 2 ^ 18" by (rule drop_bit_eq_div)
  finally have "unat (drop_bit 18 x) = unat x div 2 ^ 18" .
  moreover have "unat x < 2 ^ 32" using unsigned_less [of x] by simp
  ultimately show ?thesis by (simp add: register_index_def)
qed

text \<open>The tail has 18 bits, so a rank is at most 19: it always fits the register's byte.\<close>

lemma clz32_tail:
  fixes x :: "32 word"
  assumes "push_bit 14 x \<noteq> 0"
  shows "clz32 (push_bit 14 x) \<le> 17"
proof (rule ccontr)
  let ?P = "\<lambda>i. \<not> bit (push_bit 14 x) (31 - i)"
  assume "\<not> clz32 (push_bit 14 x) \<le> 17"
  then have len: "18 \<le> length (takeWhile ?P [0..<32])" by (simp add: clz32_def)
  have "?P i" if "i < 18" for i
  proof -
    have i: "i < length (takeWhile ?P [0..<32])" using that len by simp
    then have "takeWhile ?P [0..<32] ! i = [0..<32] ! i" by (rule takeWhile_nth)
    moreover have "takeWhile ?P [0..<32] ! i \<in> set (takeWhile ?P [0..<32])" using i by (rule nth_mem)
    ultimately show ?thesis using that by (auto dest: set_takeWhileD)
  qed
  then have hi: "\<not> bit (push_bit 14 x) n" if "14 \<le> n" "n < 32" for n
  proof -
    assume P: "\<And>i. i < 18 \<Longrightarrow> ?P i"
    have "31 - n < 18" "31 - (31 - n) = n" using that by auto
    then show ?thesis using P [of "31 - n"] by simp
  qed
  have "push_bit 14 x = 0"
  proof (rule bit_word_eqI)
    fix n assume "n < LENGTH(32)"
    then show "bit (push_bit 14 x) n \<longleftrightarrow> bit (0 :: 32 word) n"
      using hi [of n] by (cases "14 \<le> n") (auto simp: bit_push_bit_iff)
  qed
  then show False using assms by simp
qed

lemma register_rank_bounds: "1 \<le> register_rank x" "register_rank x \<le> 19"
  using clz32_tail [of x] by (auto simp: register_rank_def Let_def)

lemma unat_rank [simp]: "unat (of_nat (register_rank x) :: 8 word) = register_rank x"
  using register_rank_bounds [of x] by (simp add: unat_of_nat)

lemma add_value_max:
  "add_value sk x = sk[register_index x := max (sk ! register_index x) (of_nat (register_rank x))]"
proof (cases "unat (sk ! register_index x) < register_rank x")
  case True
  then show ?thesis by (simp add: add_value_def Let_def max_def word_le_nat_alt)
next
  case False
  then have "max (sk ! register_index x) (of_nat (register_rank x)) = sk ! register_index x"
    by (simp add: max_absorb1 word_le_nat_alt)
  then show ?thesis using False by (simp add: add_value_def Let_def)
qed

lemma length_add_value [simp]: "length (add_value sk x) = length sk"
  by (simp add: add_value_max)

lemma nth_add_value:
  "j < length sk \<Longrightarrow>
   add_value sk x ! j = (if j = register_index x then max (sk ! j) (of_nat (register_rank x)) else sk ! j)"
  by (simp add: add_value_max)

lemma add_value_idem: "add_value (add_value sk x) x = add_value sk x"
  by (rule nth_equalityI) (simp_all add: nth_add_value)

lemma add_value_commute: "add_value (add_value sk x) y = add_value (add_value sk y) x"
  by (rule nth_equalityI) (auto simp: nth_add_value ac_simps)

lemma length_merge_loop [simp]: "length (merge_loop a b) = min (length a) (length b)"
  by (induction a b rule: merge_loop.induct) auto

lemma nth_merge_loop: "j < length a \<Longrightarrow> j < length b \<Longrightarrow> merge_loop a b ! j = max (a ! j) (b ! j)"
proof (induction a b arbitrary: j rule: merge_loop.induct)
  case (1 a as b bs)
  then show ?case by (cases j) (auto simp: max_def)
qed auto

lemma merge_loop_add_value:
  "length a = length b \<Longrightarrow> merge_loop (add_value a x) b = add_value (merge_loop a b) x"
  by (rule nth_equalityI) (auto simp: nth_add_value nth_merge_loop ac_simps)

interpretation hll: merge_laws merge_loop "\<lambda>s. length s = hll_byte_size"
  by unfold_locales (auto intro!: nth_equalityI simp: nth_merge_loop ac_simps)

section \<open>Sketches of visitors\<close>

fun add_all :: "sketch \<Rightarrow> string list \<Rightarrow> hll_error + sketch" where
  "add_all sk [] = Inr sk"
| "add_all sk (h # hs) = (case add_hashed sk h of Inl e \<Rightarrow> Inl e | Inr sk' \<Rightarrow> add_all sk' hs)"

definition hash_value :: "string \<Rightarrow> 32 word" where
  "hash_value s = fold_words s 0 4 0"

definition good_hash :: "string \<Rightarrow> bool" where
  "good_hash s = (length s = 32 \<and> list_all is_hex s)"

lemma hash_good: "good_hash s \<Longrightarrow> hash_hex_to_32bit s = Inr (hash_value s)"
  by (simp add: good_hash_def hash_hex_to_32bit_def hash_value_def)

lemma add_hashed_good:
  "good_hash s \<Longrightarrow> length sk = 16384 \<Longrightarrow> add_hashed sk s = Inr (add_value sk (hash_value s))"
  by (simp add: add_hashed_def hash_good)

lemma length_fold_add [simp]: "length (fold (\<lambda>h sk. add_value sk (hash_value h)) hs sk) = length sk"
  by (induction hs arbitrary: sk) auto

lemma add_all_good:
  "\<forall>h \<in> set hs. good_hash h \<Longrightarrow> length sk = 16384
    \<Longrightarrow> add_all sk hs = Inr (fold (\<lambda>h sk. add_value sk (hash_value h)) hs sk)"
  by (induction hs arbitrary: sk) (auto simp: add_hashed_good)

lemma fold_add_commute:
  "fold (\<lambda>h sk. add_value sk (hash_value h)) hs (add_value sk x)
   = add_value (fold (\<lambda>h sk. add_value sk (hash_value h)) hs sk) x"
proof (induction hs arbitrary: sk)
  case (Cons h hs)
  show ?case
    by (simp add: add_value_commute [of sk x] Cons.IH del: fold_append)
qed simp

lemma merge_fold_add:
  "length a = length b \<Longrightarrow>
   merge_loop (fold (\<lambda>h sk. add_value sk (hash_value h)) hs a) b
   = fold (\<lambda>h sk. add_value sk (hash_value h)) hs (merge_loop a b)"
  by (induction hs arbitrary: a) (auto simp: merge_loop_add_value)

lemma merge_empty: "length b = 16384 \<Longrightarrow> merge_loop create_sketch b = b"
  by (rule nth_equalityI) (auto simp: nth_merge_loop create_sketch_def max_def)

text \<open>
  Merging is sketching the union: the merge of the sketches of two lists of visitors is the
  sketch of all of them.
\<close>

theorem merge_is_union:
  assumes "\<forall>h \<in> set xs \<union> set ys. good_hash h"
  shows "\<exists>a b c. add_all create_sketch xs = Inr a \<and> add_all create_sketch ys = Inr b
    \<and> add_all create_sketch (ys @ xs) = Inr c \<and> merge_sketch a b = Inr c"
proof -
  have xs: "\<forall>h \<in> set xs. good_hash h" and ys: "\<forall>h \<in> set ys. good_hash h"
    and all: "\<forall>h \<in> set (ys @ xs). good_hash h" using assms by auto
  show ?thesis
    by (simp add: add_all_good [OF xs] add_all_good [OF ys] add_all_good [OF all]
        merge_sketch_def merge_fold_add merge_empty)
qed

definition example_hash :: "char \<Rightarrow> string" where
  "example_hash c = replicate 32 c"

lemma good_example_hash: "is_hex c \<Longrightarrow> good_hash (example_hash c)"
  by (simp add: good_hash_def example_hash_def list_all_iff)

lemma is_hex_examples: "is_hex CHR ''a''" "is_hex CHR ''7''"
  by (simp_all add: is_hex_def is_digit_def cu_def)

theorem merge_is_union_witness:
  "\<exists>a b c. add_all create_sketch [example_hash CHR ''a''] = Inr a
    \<and> add_all create_sketch [example_hash CHR ''7''] = Inr b
    \<and> add_all create_sketch [example_hash CHR ''7'', example_hash CHR ''a''] = Inr c
    \<and> merge_sketch a b = Inr c"
  using merge_is_union [of "[example_hash CHR ''a'']" "[example_hash CHR ''7'']"]
  by (simp add: good_example_hash is_hex_examples)

lemma fold_add_absorb:
  "h \<in> set hs \<Longrightarrow>
   add_value (fold (\<lambda>h sk. add_value sk (hash_value h)) hs sk) (hash_value h)
   = fold (\<lambda>h sk. add_value sk (hash_value h)) hs sk"
proof (induction hs arbitrary: sk)
  case (Cons g gs)
  then show ?case
    by (auto simp: fold_add_commute [symmetric] add_value_idem)
qed simp

lemma fold_add_absorb_all:
  "set ys \<subseteq> set xs \<Longrightarrow>
   fold (\<lambda>h sk. add_value sk (hash_value h)) ys (fold (\<lambda>h sk. add_value sk (hash_value h)) xs sk)
   = fold (\<lambda>h sk. add_value sk (hash_value h)) xs sk"
  by (induction ys) (auto simp: fold_add_absorb)

lemma fold_add_swap:
  "fold (\<lambda>h sk. add_value sk (hash_value h)) ys (fold (\<lambda>h sk. add_value sk (hash_value h)) xs sk)
   = fold (\<lambda>h sk. add_value sk (hash_value h)) xs (fold (\<lambda>h sk. add_value sk (hash_value h)) ys sk)"
  by (induction ys arbitrary: sk) (auto simp: fold_add_commute)

lemma fold_add_set:
  "set xs = set ys \<Longrightarrow>
   fold (\<lambda>h sk. add_value sk (hash_value h)) xs sk = fold (\<lambda>h sk. add_value sk (hash_value h)) ys sk"
  by (metis fold_add_absorb_all fold_add_swap subset_refl)

text \<open>
  A sketch depends only on which visitors it has seen: two lists with the same set of hashes,
  in any order and with any repetition, build the same registers, hence the same estimate.
\<close>

theorem sketch_of_set:
  assumes "set xs = set ys" "\<forall>h \<in> set xs. good_hash h"
  shows "add_all create_sketch xs = add_all create_sketch ys \<and> \<not> isl (add_all create_sketch xs)"
  using assms fold_add_set [OF assms(1)] by (simp add: add_all_good)

theorem sketch_of_set_witness:
  "add_all create_sketch [example_hash CHR ''a'', example_hash CHR ''7'', example_hash CHR ''a'']
   = add_all create_sketch [example_hash CHR ''7'', example_hash CHR ''a'']"
proof -
  have "set [example_hash CHR ''a'', example_hash CHR ''7'', example_hash CHR ''a'']
      = set [example_hash CHR ''7'', example_hash CHR ''a'']" by auto
  from sketch_of_set [OF this] show ?thesis by (simp add: good_example_hash is_hex_examples)
qed

text \<open>
  Re-running a rollup cannot inflate a day: merging any sequence of day sketches gives the same
  registers whatever the order and however often each one is merged again, and a sketch survives
  storage unchanged.
\<close>

theorem merge_rerun_safe:
  assumes "\<forall>s \<in> insert e (set xs). length s = hll_byte_size" "set xs = set ys"
  shows "fold merge_loop xs e = fold merge_loop ys e
    \<and> (case serialize (fold merge_loop xs e) of Inl err \<Rightarrow> Inl err | Inr b \<Rightarrow> deserialize b)
      = Inr (fold merge_loop ys e)"
  using hll.fold_set_eq [of e xs ys] hll.fold_ok [of e xs] assms by (auto simp: serialize_def deserialize_def)

theorem merge_rerun_safe_witness:
  "fold merge_loop [create_sketch, replicate 16384 3, create_sketch] create_sketch
   = fold merge_loop [replicate 16384 3, create_sketch] create_sketch"
  using merge_rerun_safe [of create_sketch "[create_sketch, replicate 16384 3, create_sketch]"
      "[replicate 16384 3, create_sketch]"] by auto

text \<open>
  C37. A register is a byte that never wraps: whatever visitors are added, in any number, a sketch
  keeps its 16384 registers and every rank stays at most 19.
\<close>

theorem registers_bounded:
  assumes "add_all create_sketch hs = Inr sk"
  shows "length sk = hll_byte_size \<and> (\<forall>r \<in> set sk. unat r \<le> 19)"
proof -
  have "length s = 16384 \<and> (\<forall>r \<in> set s. unat r \<le> 19) \<Longrightarrow> add_all s hs = Inr sk
      \<Longrightarrow> length sk = 16384 \<and> (\<forall>r \<in> set sk. unat r \<le> 19)" for s
  proof (induction hs arbitrary: s)
    case (Cons h hs)
    from Cons.prems(2) obtain x where x: "hash_hex_to_32bit h = Inr x" "add_all (add_value s x) hs = Inr sk"
      using Cons.prems(1) by (auto simp: add_hashed_def split: sum.splits)
    have "\<forall>r \<in> set (add_value s x). unat r \<le> 19"
    proof
      fix r assume "r \<in> set (add_value s x)"
      then consider "r \<in> set s" | "r = of_nat (register_rank x)"
        unfolding add_value_def Let_def using set_update_subset_insert [of s]
        by (auto split: if_splits)
      then show "unat r \<le> 19"
        using Cons.prems(1) register_rank_bounds [of x] by cases auto
    qed
    then show ?case using Cons.IH [of "add_value s x"] Cons.prems(1) x by simp
  qed simp
  from this [of create_sketch] show ?thesis using assms by (simp add: create_sketch_def)
qed

theorem registers_bounded_witness:
  "\<exists>sk. add_all create_sketch [example_hash CHR ''a''] = Inr sk \<and> (\<forall>r \<in> set sk. unat r \<le> 19)"
proof -
  have "add_all create_sketch [example_hash CHR ''a'']
      = Inr (add_value create_sketch (hash_value (example_hash CHR ''a'')))"
    by (simp add: add_hashed_good good_example_hash is_hex_examples)
  from registers_bounded [OF this] show ?thesis
    using \<open>add_all create_sketch _ = _\<close> by blast
qed

section \<open>The empty sketch\<close>

lemma rank_sum_zeros:
  "n + k < 2 ^ 53 \<Longrightarrow> rank_sum (replicate k 0) (of_nat n) z = (of_nat (n + k), z + k)"
proof (induction k arbitrary: n z)
  case (Suc k)
  have "dbl (of_nat n + 1) = of_nat (Suc n)"
    using dbl_int [of "int (Suc n)"] Suc.prems by (simp add: add.commute)
  then show ?case using Suc.IH [of "Suc n" "Suc z"] Suc.prems by simp
qed simp

lemma alpha_m_bounds: "0 \<le> alpha_m" "alpha_m \<le> 1"
proof -
  let ?d = "dbl (1 + dbl (dbl (1079 / 1000) / 16384))"
  have "0 \<le> dbl (dbl (1079 / 1000) / 16384)" by (simp add: dbl_nonneg)
  then have d: "1 \<le> ?d" using dbl_mono [of 1 "1 + dbl (dbl (1079 / 1000) / 16384)"] by simp
  have n: "0 \<le> dbl (7213 / 10000 :: rat)" "dbl (7213 / 10000 :: rat) \<le> 1"
    by (simp_all add: dbl_nonneg dbl_le_1)
  have "0 \<le> dbl (7213 / 10000) / ?d" "dbl (7213 / 10000) / ?d \<le> 1"
    using n d by (simp_all add: divide_le_eq)
  then show "0 \<le> alpha_m" "alpha_m \<le> 1"
    by (simp_all add: alpha_m_def dbl_nonneg dbl_le_1)
qed

text \<open>An empty sketch counts nobody, through the linear-counting branch.\<close>

lemma estimate_empty:
  assumes "log_fn 1 = 0"
  shows "estimate log_fn create_sketch = Inr 0"
proof -
  have rs: "rank_sum create_sketch 0 0 = (16384, 16384)"
    using rank_sum_zeros [of 0 16384 0] by (simp add: create_sketch_def)
  have a: "0 \<le> dbl (alpha_m * 16384)" "dbl (alpha_m * 16384) \<le> 16384"
    using alpha_m_bounds dbl_le_int [of "alpha_m * 16384" 16384] by (simp_all add: dbl_nonneg)
  have "dbl (dbl (alpha_m * 16384) * 16384) \<le> 268435456"
    using a dbl_le_int [of "dbl (alpha_m * 16384) * 16384" 268435456] by simp
  moreover have "0 \<le> dbl (dbl (alpha_m * 16384) * 16384)" using a by (simp add: dbl_nonneg)
  ultimately have e: "dbl (dbl (dbl (alpha_m * 16384) * 16384) / 16384) \<le> 16384"
    using dbl_le_int [of "dbl (dbl (alpha_m * 16384) * 16384) / 16384" 16384] by simp
  have half: "dbl (5 / 2 :: rat) = 5 / 2"
    using dbl_dyadic [of 5 "-1"] by simp
  have "dbl (5 / 2 * 16384 :: rat) = 40960" using dbl_numeral by simp
  then have "dbl (dbl (dbl (alpha_m * 16384) * 16384) / 16384) \<le> dbl (dbl (5 / 2) * 16384)"
    using e by (simp only: half)
  then show ?thesis by (simp add: estimate_def rs assms)
qed

end
