(* ===== verification/Cache.thy ===== *)
theory Cache
  imports Hll
begin

text \<open>
  The cache port and its in-process adapter (\<open>packages/cache/src/cache-store.ts\<close>,
  \<open>packages/cache/src/memory-cache-store.ts\<close>). The \<open>Map\<close> is a map from keys to entries, every
  operation takes the clock reading it makes (milliseconds) and returns the map it leaves; a
  time to live is in seconds, as in the port.

  The locale \<open>cache_store\<close> is the port's contract, as far as its readers rely on it: what a later
  \<open>get\<close> returns after each operation. Its clients (the link cache, the daily salt) are proved
  inside it and reached through its interpretation on the adapter.
\<close>

section \<open>The port\<close>

locale cache_store =
  fixes get :: "int \<Rightarrow> 's \<Rightarrow> string \<Rightarrow> string option \<times> 's"
    and put :: "int \<Rightarrow> 's \<Rightarrow> string \<Rightarrow> string \<Rightarrow> int option \<Rightarrow> 's"
    and del :: "'s \<Rightarrow> string \<Rightarrow> 's"
  assumes get_put: "now \<le> later \<Longrightarrow>
      fst (get later (put now s k v ttl) k') =
        (if k' = k then (if (case ttl of None \<Rightarrow> True | Some n \<Rightarrow> later < now + n * 1000) then Some v else None)
         else fst (get later s k'))"
    and get_del: "fst (get later (del s k) k') = (if k' = k then None else fst (get later s k'))"
    and get_get: "now \<le> later \<Longrightarrow> fst (get later (snd (get now s k)) k') = fst (get later s k')"
begin

text \<open>A value that is still there was put by a write whose time to live has not run out.\<close>

lemma put_within:
  "now \<le> later \<Longrightarrow> fst (get later (put now s k v (Some n)) k) = Some w \<Longrightarrow> w = v \<and> later < now + n * 1000"
  by (auto simp: get_put split: if_splits)

text \<open>
  The freshness argument of every client: if whatever a read can return from \<open>now\<close> on satisfies \<open>W\<close>,
  it still does after a read, an eviction, and a write of a value that satisfies \<open>W\<close> while it lives.
\<close>

definition promises :: "int \<Rightarrow> 's \<Rightarrow> (string \<Rightarrow> string \<Rightarrow> int \<Rightarrow> bool) \<Rightarrow> bool" where
  "promises now s W = (\<forall>later k v. now \<le> later \<longrightarrow> fst (get later s k) = Some v \<longrightarrow> W k v later)"

lemma promises_later: "promises t s W \<Longrightarrow> t \<le> now \<Longrightarrow> promises now s W"
  unfolding promises_def by (meson order_trans)

lemma promises_get: "promises now s W \<Longrightarrow> promises now (snd (get now s k)) W"
  by (auto simp: promises_def get_get)

lemma promises_del: "promises now s W \<Longrightarrow> promises now (del s k) W"
  by (auto simp: promises_def get_del split: if_splits)

lemma promises_put:
  "promises now s W \<Longrightarrow> (\<And>later. now \<le> later \<Longrightarrow> later < now + n * 1000 \<Longrightarrow> W k v later)
    \<Longrightarrow> promises now (put now s k v (Some n)) W"
  by (auto simp: promises_def get_put split: if_splits)

lemma promisesD: "promises now s W \<Longrightarrow> fst (get now s k) = Some v \<Longrightarrow> W k v now"
  by (auto simp: promises_def)

lemma put_read_back:
  "0 < n \<Longrightarrow> fst (get now (put now s k v (Some n)) k) = Some v"
  by (simp add: get_put)

end

section \<open>The in-process adapter\<close>

datatype cache_value = Str string | Bytes "8 word list"

record entry =
  entry_value :: cache_value
  expires_at :: "int option"

type_synonym store = "string \<rightharpoonup> entry"

definition live :: "int \<Rightarrow> store \<Rightarrow> string \<Rightarrow> entry option \<times> store" where
  "live now s k =
     (case s k of None \<Rightarrow> (None, s)
      | Some e \<Rightarrow>
          (case expires_at e of
             Some x \<Rightarrow> if x \<le> now then (None, s(k := None)) else (Some e, s)
           | None \<Rightarrow> (Some e, s)))"

definition expiry_from :: "int \<Rightarrow> int option \<Rightarrow> int option" where
  "expiry_from now ttl = map_option (\<lambda>n. now + n * 1000) ttl"

definition cache_get :: "int \<Rightarrow> store \<Rightarrow> string \<Rightarrow> string option \<times> store" where
  "cache_get now s k =
     (case live now s k of
        (None, s') \<Rightarrow> (None, s')
      | (Some e, s') \<Rightarrow> (case entry_value e of Str v \<Rightarrow> (Some v, s') | Bytes b \<Rightarrow> (None, s')))"

definition cache_set :: "int \<Rightarrow> store \<Rightarrow> string \<Rightarrow> string \<Rightarrow> int option \<Rightarrow> store" where
  "cache_set now s k v ttl = s(k \<mapsto> \<lparr> entry_value = Str v, expires_at = expiry_from now ttl \<rparr>)"

definition cache_incr :: "int \<Rightarrow> store \<Rightarrow> string \<Rightarrow> int option \<Rightarrow> int \<times> store" where
  "cache_incr now s k ttl =
     (case live now s k of
        (None, s') \<Rightarrow> (1, s'(k \<mapsto> \<lparr> entry_value = Str ''1'', expires_at = expiry_from now ttl \<rparr>))
      | (Some e, s') \<Rightarrow>
          let current = (case entry_value e of Str v \<Rightarrow> js_parse_int v | Bytes b \<Rightarrow> Some 0);
              next = or_else current 0 + 1
          in (next, s'(k \<mapsto> e\<lparr>entry_value := Str (show_int next)\<rparr>)))"

definition cache_expire :: "int \<Rightarrow> store \<Rightarrow> string \<Rightarrow> int \<Rightarrow> store" where
  "cache_expire now s k ttl =
     (case live now s k of
        (None, s') \<Rightarrow> s'
      | (Some e, s') \<Rightarrow> s'(k \<mapsto> e\<lparr>expires_at := Some (now + ttl * 1000)\<rparr>))"

definition cache_del :: "store \<Rightarrow> string \<Rightarrow> store" where
  "cache_del s k = s(k := None)"

definition cache_pttl :: "int \<Rightarrow> store \<Rightarrow> string \<Rightarrow> int \<times> store" where
  "cache_pttl now s k =
     (case live now s k of
        (None, s') \<Rightarrow> (-2, s')
      | (Some e, s') \<Rightarrow> (case expires_at e of None \<Rightarrow> (-1, s') | Some x \<Rightarrow> (max 0 (x - now), s')))"

definition cache_merge_sketch ::
    "(rat \<Rightarrow> rat) \<Rightarrow> int \<Rightarrow> store \<Rightarrow> string \<Rightarrow> sketch \<Rightarrow> int option \<Rightarrow> (hll_error + int) \<times> store" where
  "cache_merge_sketch log_fn now s k sk ttl =
     (let (entry, s') = live now s k;
          current = (case entry of
              Some e \<Rightarrow> (case entry_value e of Bytes b \<Rightarrow> deserialize b | Str v \<Rightarrow> Inr create_sketch)
            | None \<Rightarrow> Inr create_sketch)
      in case current of Inl err \<Rightarrow> (Inl err, s')
         | Inr cur \<Rightarrow>
             (case merge_sketch cur sk of Inl err \<Rightarrow> (Inl err, s')
              | Inr merged \<Rightarrow>
                  (case serialize merged of Inl err \<Rightarrow> (Inl err, s')
                   | Inr bytes \<Rightarrow>
                       (estimate log_fn merged,
                        s'(k \<mapsto> (case entry of
                            None \<Rightarrow> \<lparr> entry_value = Bytes bytes, expires_at = expiry_from now ttl \<rparr>
                          | Some e \<Rightarrow> e\<lparr>entry_value := Bytes bytes\<rparr>))))))"

definition link_cache_key :: "string \<Rightarrow> string \<Rightarrow> string" where
  "link_cache_key host slug = ''link:'' @ js_trim (js_lower host) @ ''|'' @ js_lower slug"

section \<open>What a read sees\<close>

definition alive :: "int \<Rightarrow> store \<Rightarrow> string \<Rightarrow> entry option" where
  "alive now s k =
     (case s k of None \<Rightarrow> None
      | Some e \<Rightarrow> (case expires_at e of Some x \<Rightarrow> if x \<le> now then None else Some e | None \<Rightarrow> Some e))"

lemma fst_live: "fst (live now s k) = alive now s k"
  by (auto simp: live_def alive_def split: option.splits)

lemma alive_live: "now \<le> later \<Longrightarrow> alive later (snd (live now s k)) k' = alive later s k'"
  by (auto simp: live_def alive_def split: option.splits)

lemma alive_upd [simp]:
  "alive now (s(k \<mapsto> e)) k' =
     (if k' = k then (case expires_at e of Some x \<Rightarrow> if x \<le> now then None else Some e | None \<Rightarrow> Some e)
      else alive now s k')"
  by (simp add: alive_def)

lemma alive_del [simp]: "alive now (s(k := None)) k' = (if k' = k then None else alive now s k')"
  by (simp add: alive_def)

lemma live_eq: "live now s k = (alive now s k, snd (live now s k))"
  by (simp add: fst_live [symmetric])

lemma live_pair: "\<exists>s'. live now s k = (alive now s k, s')"
  by (metis fst_live prod.collapse)

lemma fst_cache_get:
  "fst (cache_get now s k) =
     (case alive now s k of None \<Rightarrow> None | Some e \<Rightarrow> (case entry_value e of Str v \<Rightarrow> Some v | Bytes b \<Rightarrow> None))"
  by (subst cache_get_def, subst live_eq) (auto split: option.splits cache_value.splits)

lemma snd_cache_get: "snd (cache_get now s k) = snd (live now s k)"
  by (subst cache_get_def, subst live_eq) (auto split: option.splits cache_value.splits)

interpretation memory_store: cache_store cache_get cache_set cache_del
proof
  fix now later :: int and s :: store and k k' v :: string and ttl :: "int option"
  assume "now \<le> later"
  then show "fst (cache_get later (cache_set now s k v ttl) k') =
        (if k' = k then (if (case ttl of None \<Rightarrow> True | Some n \<Rightarrow> later < now + n * 1000) then Some v else None)
         else fst (cache_get later s k'))"
    by (auto simp: fst_cache_get cache_set_def expiry_from_def split: option.splits)
  show "fst (cache_get later (snd (cache_get now s k)) k') = fst (cache_get later s k')"
    using \<open>now \<le> later\<close> by (simp add: fst_cache_get snd_cache_get alive_live)
next
  fix later :: int and s :: store and k k' :: string
  show "fst (cache_get later (cache_del s k) k') = (if k' = k then None else fst (cache_get later s k'))"
    by (simp add: fst_cache_get cache_del_def)
qed

section \<open>The fixed window\<close>

text \<open>A run of hits on one counter, each at its own instant.\<close>

fun hits :: "store \<Rightarrow> string \<Rightarrow> int \<Rightarrow> int list \<Rightarrow> int list \<times> store" where
  "hits s k ttl [] = ([], s)"
| "hits s k ttl (t # ts) =
     (let (n, s1) = cache_incr t s k (Some ttl); (ns, s2) = hits s1 k ttl ts in (n # ns, s2))"

lemma js_parse_int_show_int: "0 \<le> n \<Longrightarrow> js_parse_int (show_int n) = Some n"
  by (simp add: show_int_def)

lemma live_some: "alive t s k = Some e \<Longrightarrow> live t s k = (Some e, s)"
  by (auto simp: live_def alive_def split: option.splits if_splits)

lemma incr_alive:
  assumes "alive t s k = Some e" "entry_value e = Str (show_int n)" "0 \<le> n"
  shows "cache_incr t s k ttl = (n + 1, s(k \<mapsto> e\<lparr>entry_value := Str (show_int (n + 1))\<rparr>))"
  using assms by (simp add: cache_incr_def live_some js_parse_int_show_int Let_def)

lemma incr_absent:
  assumes "alive t s k = None"
  shows "\<exists>s'. cache_incr t s k ttl =
     (1, s'(k \<mapsto> \<lparr> entry_value = Str ''1'', expires_at = expiry_from t ttl \<rparr>))"
  using live_pair [of t s k] assms by (auto simp: cache_incr_def)

lemma hits_within:
  assumes "s k = Some \<lparr> entry_value = Str (show_int n), expires_at = Some x \<rparr>" "0 \<le> n"
    and "\<forall>t \<in> set ts. t < x"
  shows "fst (hits s k ttl ts) = map (\<lambda>i. n + 1 + int i) [0..<length ts]
    \<and> snd (hits s k ttl ts) k = Some \<lparr> entry_value = Str (show_int (n + int (length ts))), expires_at = Some x \<rparr>"
  using assms
proof (induction ts arbitrary: s n)
  case (Cons t ts)
  let ?e = "\<lparr> entry_value = Str (show_int n), expires_at = Some x \<rparr>"
  have al: "alive t s k = Some ?e" using Cons.prems by (simp add: alive_def)
  define s1 where "s1 = s(k \<mapsto> \<lparr> entry_value = Str (show_int (n + 1)), expires_at = Some x \<rparr>)"
  have step: "cache_incr t s k (Some ttl) = (n + 1, s1)"
    using incr_alive [OF al _ Cons.prems(2)] by (simp add: s1_def)
  have "fst (hits s1 k ttl ts) = map (\<lambda>i. n + 1 + 1 + int i) [0..<length ts]
    \<and> snd (hits s1 k ttl ts) k = Some \<lparr> entry_value = Str (show_int (n + 1 + int (length ts))), expires_at = Some x \<rparr>"
    using Cons.prems by (intro Cons.IH) (auto simp: s1_def)
  moreover have "map (\<lambda>i. n + 1 + int i) [0..<length (t # ts)]
      = (n + 1) # map (\<lambda>i. n + 1 + 1 + int i) [0..<length ts]"
    by (simp add: upt_conv_Cons map_Suc_upt [symmetric] comp_def del: upt_Suc map_Suc_upt)
  ultimately show ?case
    by (simp add: step case_prod_unfold add.assoc)
qed simp

text \<open>
  The rate-limit window: the first hit opens it, every hit before it closes returns the next
  count and leaves the closing time where it was, however many there are, and the first hit at or
  after that time counts from one again.
\<close>

theorem incr_fixed_window:
  assumes "alive t0 s k = None" "0 < ttl" "\<forall>t \<in> set ts. t < t0 + ttl * 1000" "t0 + ttl * 1000 \<le> later"
  shows "fst (hits s k ttl (t0 # ts)) = map (\<lambda>i. 1 + int i) [0..<Suc (length ts)]
    \<and> fst (cache_pttl now (snd (hits s k ttl (t0 # ts))) k) =
        (if now < t0 + ttl * 1000 then t0 + ttl * 1000 - now else -2)
    \<and> fst (cache_incr later (snd (hits s k ttl (t0 # ts))) k (Some ttl)) = 1"
proof -
  define x where "x = t0 + ttl * 1000"
  have one: "show_int 1 = ''1''" by code_simp
  obtain s' where s': "cache_incr t0 s k (Some ttl) =
      (1, s'(k \<mapsto> \<lparr> entry_value = Str ''1'', expires_at = expiry_from t0 (Some ttl) \<rparr>))"
    using incr_absent [OF assms(1)] by blast
  define s1 where "s1 = s'(k \<mapsto> \<lparr> entry_value = Str (show_int 1), expires_at = Some x \<rparr>)"
  have first: "cache_incr t0 s k (Some ttl) = (1, s1)"
    by (simp add: s' s1_def expiry_from_def x_def one)
  have w: "fst (hits s1 k ttl ts) = map (\<lambda>i. 1 + 1 + int i) [0..<length ts]
    \<and> snd (hits s1 k ttl ts) k = Some \<lparr> entry_value = Str (show_int (1 + int (length ts))), expires_at = Some x \<rparr>"
    using assms(3) by (intro hits_within) (simp_all add: s1_def x_def)
  define s2 where "s2 = snd (hits s1 k ttl ts)"
  have h: "hits s k ttl (t0 # ts) = (1 # fst (hits s1 k ttl ts), s2)"
    by (simp add: first case_prod_unfold s2_def Let_def)
  have al: "alive u s2 k = (if x \<le> u then None
      else Some \<lparr> entry_value = Str (show_int (1 + int (length ts))), expires_at = Some x \<rparr>)" for u
    using w by (simp add: alive_def s2_def)
  have "map (\<lambda>i. 1 + int i) [0..<Suc (length ts)] = 1 # map (\<lambda>i. 1 + 1 + int i) [0..<length ts]"
    by (simp add: upt_conv_Cons map_Suc_upt [symmetric] comp_def del: upt_Suc map_Suc_upt)
  moreover have "fst (cache_pttl now s2 k) = (if now < x then x - now else -2)"
    using live_pair [of now s2 k] by (auto simp: cache_pttl_def al)
  moreover have "fst (cache_incr later s2 k (Some ttl)) = 1"
    using incr_absent [of later s2 k "Some ttl"] assms(4) by (auto simp: al x_def)
  ultimately show ?thesis using w unfolding h x_def [symmetric] by (simp del: upt_Suc)
qed

theorem incr_fixed_window_witness:
  "fst (hits Map.empty ''rl'' 60 [1000, 2000, 60999]) = [1, 2, 3]
   \<and> fst (cache_incr 61000 (snd (hits Map.empty ''rl'' 60 [1000, 2000, 60999])) ''rl'' (Some 60)) = 1"
  using incr_fixed_window [of 1000 Map.empty "''rl''" 60 "[2000, 60999]" 61000]
  by (simp add: alive_def upt_rec)

text \<open>Sketch merging keeps the window of the first write as well.\<close>

lemma merge_sketch_keeps_expiry:
  assumes "alive now s k = Some e" "cache_merge_sketch log_fn now s k sk ttl = (Inr n, s')"
  shows "map_option expires_at (s' k) = Some (expires_at e)"
  using assms
  by (auto simp: cache_merge_sketch_def live_some Let_def split: sum.splits cache_value.splits)

text \<open>
  A retried merge of uniques is harmless: once a sketch was merged into a key that is still alive,
  merging the same sketch again leaves the stored bytes, their expiry and the estimate as they are.
\<close>

theorem merge_sketch_idempotent:
  assumes "length sk = hll_byte_size" "cache_merge_sketch log_fn now s k sk ttl = (Inr n, s')"
    "alive now s' k \<noteq> None"
  shows "cache_merge_sketch log_fn now s' k sk ttl' = (Inr n, s')"
proof -
  obtain s0 where L: "live now s k = (alive now s k, s0)" using live_pair by blast
  obtain cur merged where m: "merge_sketch cur sk = Inr merged" "length cur = 16384"
    and est: "estimate log_fn merged = Inr n"
    and up: "s' = s0(k \<mapsto> (case alive now s k of
                            None \<Rightarrow> \<lparr> entry_value = Bytes merged, expires_at = expiry_from now ttl \<rparr>
                          | Some e \<Rightarrow> e\<lparr>entry_value := Bytes merged\<rparr>))"
    using assms(2)
    by (auto simp: cache_merge_sketch_def L Let_def serialize_def deserialize_def
        split: sum.splits option.splits cache_value.splits if_splits)
  have merged: "merged = merge_loop cur sk" "length merged = 16384"
    using m assms(1) by (auto simp: merge_sketch_def split: if_splits)
  have again: "merge_sketch merged sk = Inr merged"
  proof -
    have "merge_loop (merge_loop cur sk) sk = merge_loop cur (merge_loop sk sk)"
      by (rule hll.assoc) (use m assms(1) in auto)
    also have "merge_loop sk sk = sk" by (rule hll.idem) (use assms(1) in simp)
    finally show ?thesis using merged assms(1) m by (simp add: merge_sketch_def)
  qed
  obtain e where e: "alive now s' k = Some e" "entry_value e = Bytes merged"
    using assms(3) by (cases "alive now s' k") (auto simp: up split: option.splits if_splits)
  have se: "s' k = Some e"
    using e(1) by (auto simp: alive_def split: option.splits if_splits)
  have li: "live now s' k = (Some e, s')" using e(1) by (rule live_some)
  have "s'(k \<mapsto> e\<lparr>entry_value := Bytes merged\<rparr>) = s'"
    using se e(2) by (cases e) auto
  then show ?thesis
    using e again est merged by (simp add: cache_merge_sketch_def li Let_def deserialize_def serialize_def)
qed

theorem merge_sketch_idempotent_witness:
  "\<exists>n s'. cache_merge_sketch (\<lambda>x. 0) 0 Map.empty ''uv'' create_sketch None = (Inr n, s')
    \<and> cache_merge_sketch (\<lambda>x. 0) 0 s' ''uv'' create_sketch None = (Inr n, s')"
proof -
  let ?r = "cache_merge_sketch (\<lambda>x. 0) 0 Map.empty ''uv'' create_sketch None"
  have m: "merge_sketch create_sketch create_sketch = Inr create_sketch"
    by (simp add: merge_sketch_def merge_empty)
  have r: "?r = (estimate (\<lambda>x. 0) create_sketch,
      [''uv'' \<mapsto> \<lparr> entry_value = Bytes create_sketch, expires_at = None \<rparr>])"
    by (simp add: cache_merge_sketch_def live_def m serialize_def expiry_from_def)
  have "estimate (\<lambda>x. 0) create_sketch = Inr 0" by (rule estimate_empty) simp
  with r have r: "?r = (Inr 0, [''uv'' \<mapsto> \<lparr> entry_value = Bytes create_sketch, expires_at = None \<rparr>])"
    by simp
  have "cache_merge_sketch (\<lambda>x. 0) 0 [''uv'' \<mapsto> \<lparr> entry_value = Bytes create_sketch, expires_at = None \<rparr>]
      ''uv'' create_sketch None = (Inr 0, [''uv'' \<mapsto> \<lparr> entry_value = Bytes create_sketch, expires_at = None \<rparr>])"
    by (rule merge_sketch_idempotent [OF _ r]) (simp_all add: alive_def)
  with r show ?thesis by blast
qed

end
