(* ===== verification/Link_Store.thy ===== *)
theory Link_Store
  imports Destination Cache
begin

text \<open>
  What the redirect knows of a link, and the three forms it is stored in: the JSON of the hot-link
  cache (\<open>apps/redirect/src/caching-resolver.ts\<close>), the DynamoDB item and the edge key-value entry
  (\<open>packages/database/src/link-projection.ts\<close>).

  A \<open>Date\<close> is its time value; the forms keep ISO text. The JSON text of a cached link and of an edge
  value are the parameters \<open>link_codec\<close> and \<open>url_api\<close> of the operations that need them.
\<close>

section \<open>The link\<close>

record resolved_link =
  lk_id :: string
  lk_workspace_id :: string
  lk_destination :: string
  lk_redirect_type :: redirect_type
  lk_rules :: "routing_rule list"
  lk_expires_at :: "int option"
  lk_expires_to :: "string option"
  lk_activates_at :: "int option"
  lk_scheduled_to :: "string option"
  lk_click_limit :: "int option"
  lk_clicks :: int
  lk_has_password :: bool
  lk_forward_query :: bool
  lk_deep_link :: bool
  lk_hide_referrer :: bool
  lk_public_preview :: bool
  lk_archived :: bool
  lk_disabled :: bool
  lk_owner_unverified :: bool
  lk_safe_browsing_status :: string
  lk_utm :: "utm option"

record resolved_domain =
  dm_id :: string
  dm_root_redirect :: "string option"
  dm_not_found_redirect :: "string option"

text \<open>A year of four digits, which is what the stored text form keeps.\<close>

definition storable :: "int option \<Rightarrow> bool" where
  "storable d = (case d of None \<Rightarrow> True | Some t \<Rightarrow> let y = fst (civil_of_days (t div day_ms)) in 0 \<le> y \<and> y \<le> 9999)"

definition storable_link :: "resolved_link \<Rightarrow> bool" where
  "storable_link l = (storable (lk_expires_at l) \<and> storable (lk_activates_at l))"

definition iso_or_null :: "int option \<Rightarrow> string option" where
  "iso_or_null d = map_option to_iso d"

text \<open>\<open>new Date(text)\<close> where the text is not null; an invalid date reads as no date everywhere after.\<close>

definition revive :: "string option \<Rightarrow> int option" where
  "revive s = Option.bind s parse_iso"

lemma revive_iso [simp]: "storable d \<Longrightarrow> revive (iso_or_null d) = d"
  by (cases d) (simp_all add: revive_def iso_or_null_def storable_def Let_def parse_to_iso)

section \<open>The DynamoDB item\<close>

record link_item =
  it_pk :: string
  it_sk :: string
  it_link_id :: string
  it_workspace_id :: string
  it_destination :: string
  it_redirect_type :: redirect_type
  it_rules :: "routing_rule list option"
  it_expires_at :: "string option"
  it_expires_to :: "string option"
  it_activates_at :: "string option"
  it_scheduled_to :: "string option"
  it_click_limit :: "int option"
  it_clicks :: int
  it_has_password :: bool
  it_forward_query :: bool
  it_deep_link :: bool
  it_hide_referrer :: bool
  it_public_preview :: bool
  it_archived :: bool
  it_disabled :: "bool option"
  it_owner_unverified :: "bool option"
  it_safe_browsing_status :: string
  it_utm :: "utm option"

definition normalise_host :: "string \<Rightarrow> string" where
  "normalise_host host = js_trim (js_lower host)"

definition domain_pk :: "string \<Rightarrow> string" where
  "domain_pk host = ''d#'' @ normalise_host host"

definition link_sk :: "string \<Rightarrow> string" where
  "link_sk slug = ''s#'' @ js_lower slug"

definition domain_meta_sk :: string where
  "domain_meta_sk = ''d#meta''"

definition link_key :: "string \<Rightarrow> string \<Rightarrow> string \<times> string" where
  "link_key host slug = (domain_pk host, link_sk slug)"

definition domain_meta_key :: "string \<Rightarrow> string \<times> string" where
  "domain_meta_key host = (domain_pk host, domain_meta_sk)"

definition to_link_item :: "resolved_link \<Rightarrow> string \<Rightarrow> string \<Rightarrow> link_item" where
  "to_link_item l host slug = \<lparr>
     it_pk = domain_pk host, it_sk = link_sk slug, it_link_id = lk_id l,
     it_workspace_id = lk_workspace_id l, it_destination = lk_destination l,
     it_redirect_type = lk_redirect_type l, it_rules = Some (lk_rules l),
     it_expires_at = iso_or_null (lk_expires_at l), it_expires_to = lk_expires_to l,
     it_activates_at = iso_or_null (lk_activates_at l), it_scheduled_to = lk_scheduled_to l,
     it_click_limit = lk_click_limit l, it_clicks = lk_clicks l, it_has_password = lk_has_password l,
     it_forward_query = lk_forward_query l, it_deep_link = lk_deep_link l,
     it_hide_referrer = lk_hide_referrer l, it_public_preview = lk_public_preview l,
     it_archived = lk_archived l, it_disabled = Some (lk_disabled l),
     it_owner_unverified = Some (lk_owner_unverified l),
     it_safe_browsing_status = lk_safe_browsing_status l, it_utm = lk_utm l \<rparr>"

definition from_link_item :: "link_item \<Rightarrow> resolved_link" where
  "from_link_item i = \<lparr>
     lk_id = it_link_id i, lk_workspace_id = it_workspace_id i, lk_destination = it_destination i,
     lk_redirect_type = it_redirect_type i, lk_rules = or_else (it_rules i) [],
     lk_expires_at = revive (it_expires_at i), lk_expires_to = it_expires_to i,
     lk_activates_at = revive (it_activates_at i), lk_scheduled_to = it_scheduled_to i,
     lk_click_limit = it_click_limit i, lk_clicks = it_clicks i, lk_has_password = it_has_password i,
     lk_forward_query = it_forward_query i, lk_deep_link = it_deep_link i,
     lk_hide_referrer = it_hide_referrer i, lk_public_preview = it_public_preview i,
     lk_archived = it_archived i, lk_disabled = or_else (it_disabled i) False,
     lk_owner_unverified = or_else (it_owner_unverified i) False,
     lk_safe_browsing_status = it_safe_browsing_status i, lk_utm = it_utm i \<rparr>"

text \<open>
  C32. The projection loses nothing: the link read back from the DynamoDB item is the link that was
  written, dates to the millisecond, for every link whose dates have a four-digit year.
\<close>

theorem link_item_roundtrip:
  assumes "storable_link l"
  shows "from_link_item (to_link_item l host slug) = l"
  using assms by (cases l) (simp add: from_link_item_def to_link_item_def storable_link_def)

definition plain_link :: resolved_link where
  "plain_link = \<lparr> lk_id = ''l1'', lk_workspace_id = ''w1'', lk_destination = ''https://a.test/'',
     lk_redirect_type = R302, lk_rules = [], lk_expires_at = None, lk_expires_to = None,
     lk_activates_at = None, lk_scheduled_to = None, lk_click_limit = None, lk_clicks = 0,
     lk_has_password = False, lk_forward_query = True, lk_deep_link = False, lk_hide_referrer = False,
     lk_public_preview = True, lk_archived = False, lk_disabled = False, lk_owner_unverified = False,
     lk_safe_browsing_status = ''clean'', lk_utm = None \<rparr>"

definition dated_link :: resolved_link where
  "dated_link = plain_link\<lparr>lk_expires_at := Some 1772323200000, lk_click_limit := Some 5\<rparr>"

lemma storable_plain_link: "storable_link plain_link"
  by (simp add: storable_link_def storable_def plain_link_def)

lemma storable_dated_link: "storable_link dated_link"
  by code_simp

theorem link_item_roundtrip_witness:
  "lk_expires_at (from_link_item (to_link_item dated_link ''Snap.To'' ''Foo'')) = Some 1772323200000"
  by (simp add: link_item_roundtrip [OF storable_dated_link]) (simp add: dated_link_def)

text \<open>The keys of the table: equal exactly when the normalised names are, and never a domain's own item.\<close>

lemma link_key_eq:
  "link_key h s = link_key h' s' \<longleftrightarrow> normalise_host h = normalise_host h' \<and> js_lower s = js_lower s'"
  by (simp add: link_key_def domain_pk_def link_sk_def)

lemma link_key_not_meta: "link_key h s \<noteq> domain_meta_key h'"
  by (simp add: link_key_def domain_meta_key_def link_sk_def domain_meta_sk_def)

section \<open>Domains\<close>

record domain_item =
  di_pk :: string
  di_sk :: string
  di_id :: string
  di_root_redirect :: "string option"
  di_not_found_redirect :: "string option"
  di_version :: "string option"
  di_deleted :: bool

definition to_domain_item :: "string \<Rightarrow> resolved_domain \<Rightarrow> string option \<Rightarrow> bool \<Rightarrow> domain_item" where
  "to_domain_item host d version deleted = \<lparr>
     di_pk = domain_pk host, di_sk = domain_meta_sk, di_id = dm_id d,
     di_root_redirect = dm_root_redirect d, di_not_found_redirect = dm_not_found_redirect d,
     di_version = version, di_deleted = deleted \<rparr>"

definition from_domain_item :: "domain_item \<Rightarrow> resolved_domain" where
  "from_domain_item i = \<lparr> dm_id = di_id i, dm_root_redirect = di_root_redirect i,
     dm_not_found_redirect = di_not_found_redirect i \<rparr>"

lemma domain_item_roundtrip: "from_domain_item (to_domain_item host d version deleted) = d"
  by (simp add: from_domain_item_def to_domain_item_def)

record domain_op_payload =
  op_domain_id :: string
  op_host :: string

text \<open>The outbox row of a domain-scoped operation: its \<open>linkId\<close> column holds the domain id.\<close>

definition domain_projection_op :: "string \<Rightarrow> string \<Rightarrow> string \<times> string \<times> domain_op_payload" where
  "domain_projection_op domain_id host =
     (domain_id, ''domain'', \<lparr> op_domain_id = domain_id, op_host = normalise_host host \<rparr>)"

section \<open>The edge\<close>

definition kvs_key :: "string \<Rightarrow> string \<Rightarrow> string" where
  "kvs_key host slug = normalise_host host @ ''/'' @ js_lower slug"

definition is_edge_eligible :: "resolved_link \<Rightarrow> bool" where
  "is_edge_eligible l =
     (\<not> lk_has_password l \<and> lk_rules l = [] \<and> lk_click_limit l = None \<and> lk_expires_at l = None
      \<and> lk_activates_at l = None \<and> \<not> lk_archived l \<and> \<not> lk_disabled l \<and> \<not> lk_owner_unverified l
      \<and> lk_safe_browsing_status l = ''clean'' \<and> lk_utm l = None \<and> \<not> lk_deep_link l
      \<and> \<not> lk_hide_referrer l \<and> lk_redirect_type l = R302)"

record decomposed =
  dc_href :: string
  dc_base :: string
  dc_params :: params
  dc_hash :: string

definition decompose_destination :: "'u url_api \<Rightarrow> string \<Rightarrow> decomposed option" where
  "decompose_destination api destination =
     (case parse_url api destination of None \<Rightarrow> None
      | Some (u, ps) \<Rightarrow>
          let href = url_href api u;
              before_hash = before_char (CHR ''#'') href;
              hash = from_char (CHR ''#'') href;
              base = before_char (CHR ''?'') before_hash
          in Some \<lparr> dc_href = href, dc_base = base, dc_params = ps, dc_hash = hash \<rparr>)"

record edge_value =
  ev_destination :: string
  ev_redirect_type :: redirect_type
  ev_forward_query :: bool
  ev_base :: "string option"
  ev_params :: params
  ev_hash :: string

text \<open>The object \<open>kvsValue\<close> serialises; the three decomposed fields are absent together.\<close>

definition kvs_value :: "'u url_api \<Rightarrow> resolved_link \<Rightarrow> edge_value" where
  "kvs_value api l =
     (let parts = decompose_destination api (lk_destination l);
          dest = (case parts of Some p \<Rightarrow> dc_href p | None \<Rightarrow> lk_destination l)
      in case (lk_forward_query l, parts) of
           (True, Some p) \<Rightarrow> \<lparr> ev_destination = dest, ev_redirect_type = lk_redirect_type l,
              ev_forward_query = True, ev_base = Some (dc_base p), ev_params = dc_params p, ev_hash = dc_hash p \<rparr>
         | (f, _) \<Rightarrow> \<lparr> ev_destination = dest, ev_redirect_type = lk_redirect_type l,
              ev_forward_query = f, ev_base = None, ev_params = [], ev_hash = [] \<rparr>)"

text \<open>The pieces put back together are the URL, and the base never holds a delimiter.\<close>

lemma decompose_pieces:
  assumes "decompose_destination api d = Some p"
  shows "\<exists>q. dc_href p = dc_base p @ q @ dc_hash p \<and> (q = [] \<or> hd q = CHR ''?'')"
    and "CHR ''?'' \<notin> set (dc_base p)" and "CHR ''#'' \<notin> set (dc_base p)"
proof -
  obtain u ps where u: "parse_url api d = Some (u, ps)"
    using assms by (auto simp: decompose_destination_def split: option.splits)
  define h where "h = url_href api u"
  have p: "dc_href p = h" "dc_base p = before_char (CHR ''?'') (before_char (CHR ''#'') h)"
    "dc_hash p = from_char (CHR ''#'') h"
    using assms by (auto simp: decompose_destination_def u h_def Let_def)
  let ?q = "from_char (CHR ''?'') (before_char (CHR ''#'') h)"
  have "h = dc_base p @ ?q @ dc_hash p"
    unfolding p(2,3) by (metis append.assoc before_from_char)
  moreover have "?q = [] \<or> hd ?q = CHR ''?''"
    unfolding from_char_def using hd_dropWhile [of "\<lambda>c. c \<noteq> CHR ''?''"] by auto
  ultimately show "\<exists>q. dc_href p = dc_base p @ q @ dc_hash p \<and> (q = [] \<or> hd q = CHR ''?'')"
    using p(1) by metis
  show "CHR ''?'' \<notin> set (dc_base p)" "CHR ''#'' \<notin> set (dc_base p)"
    unfolding p(2) before_char_def by (auto dest: set_takeWhileD)
qed

section \<open>The hot-link cache\<close>

record cached_link =
  cl_link :: resolved_link
  cl_expires_at :: "string option"
  cl_activates_at :: "string option"

text \<open>
  \<open>JSON.stringify(link)\<close> turns the two dates into text and copies the rest; the model keeps the rest
  as the link with its dates blanked. The JSON text itself is the codec's.
\<close>

definition cached_form :: "resolved_link \<Rightarrow> cached_link" where
  "cached_form l = \<lparr> cl_link = l\<lparr>lk_expires_at := None, lk_activates_at := None\<rparr>,
     cl_expires_at = iso_or_null (lk_expires_at l), cl_activates_at = iso_or_null (lk_activates_at l) \<rparr>"

definition revive_link :: "cached_link \<Rightarrow> resolved_link" where
  "revive_link c = (cl_link c)\<lparr>lk_expires_at := revive (cl_expires_at c),
     lk_activates_at := revive (cl_activates_at c)\<rparr>"

record link_codec =
  stringify :: "cached_link \<Rightarrow> string"
  parse_json :: "string \<Rightarrow> cached_link"

lemma revive_cached_form: "storable_link l \<Longrightarrow> revive_link (cached_form l) = l"
  by (cases l) (simp add: revive_link_def cached_form_def storable_link_def)

type_synonym link_resolver = "int \<Rightarrow> string \<Rightarrow> string \<Rightarrow> resolved_link option"

definition caching_resolve ::
    "link_codec \<Rightarrow> link_resolver \<Rightarrow> int \<Rightarrow> int \<Rightarrow> store \<Rightarrow> string \<Rightarrow> string \<Rightarrow> resolved_link option \<times> store" where
  "caching_resolve codec inner ttl_seconds now s host slug =
     (let key = link_cache_key host slug in
      case cache_get now s key of
        (Some text, s') \<Rightarrow> (Some (revive_link (parse_json codec text)), s')
      | (None, s') \<Rightarrow>
          (case inner now host slug of
             None \<Rightarrow> (None, s')
           | Some l \<Rightarrow> (Some l, cache_set now s' key (stringify codec (cached_form l)) (Some ttl_seconds))))"

text \<open>The payload of a \<open>link_cache_bust\<close> notification, \<open>None\<close> when it does not parse.\<close>

definition cache_bust :: "(string option \<times> string option) option \<Rightarrow> store \<Rightarrow> store" where
  "cache_bust payload s =
     (case payload of
        Some (Some host, Some slug) \<Rightarrow>
          if host = [] \<or> slug = [] then s else cache_del s (link_cache_key host slug)
      | _ \<Rightarrow> s)"

text \<open>The redirect's use of its cache: resolves and evictions, in the order of the clock.\<close>

datatype cache_event = Resolve int string string | Bust "(string option \<times> string option) option"

inductive cache_reach :: "link_codec \<Rightarrow> link_resolver \<Rightarrow> int \<Rightarrow> int \<Rightarrow> store \<Rightarrow> bool"
  for codec inner ttl where
  start: "cache_reach codec inner ttl now Map.empty"
| resolve: "cache_reach codec inner ttl t s \<Longrightarrow> t \<le> now
    \<Longrightarrow> snd (caching_resolve codec inner ttl now s host slug) = s'
    \<Longrightarrow> cache_reach codec inner ttl now s'"
| bust: "cache_reach codec inner ttl t s \<Longrightarrow> t \<le> now \<Longrightarrow> cache_bust payload s = s'
    \<Longrightarrow> cache_reach codec inner ttl now s'"

inductive_cases cache_reachE: "cache_reach codec inner ttl now s"

text \<open>A host and slug name at most one cache key that a stored link can have.\<close>

definition barless :: "string \<Rightarrow> bool" where
  "barless s = (CHR ''|'' \<notin> set s)"

lemma cu_bar: "cu CHR ''|'' = 124"
  by (simp add: cu_def)

lemma js_lower_char_bar: "js_lower_char c = CHR ''|'' \<longleftrightarrow> c = CHR ''|''"
proof
  assume "js_lower_char c = CHR ''|''"
  then have "cu (js_lower_char c) = 124" by (simp add: cu_bar)
  then have "cu c = 124" using cu_less [of c] by (auto simp: js_lower_char_def Let_def split: if_splits)
  then show "c = CHR ''|''" by (metis char_of_cu cu_bar)
next
  assume "c = CHR ''|''"
  then show "js_lower_char c = CHR ''|''" by (simp add: js_lower_char_def Let_def cu_bar)
qed

lemma js_lower_bar: "CHR ''|'' \<in> set (js_lower s) \<longleftrightarrow> CHR ''|'' \<in> set s"
  by (induction s) (auto simp: js_lower_def js_lower_char_bar eq_commute [of "CHR ''|''"])

lemma set_js_trim: "c \<in> set (js_trim s) \<Longrightarrow> c \<in> set s"
  by (metis js_trim_def set_dropWhileD set_rev)

lemma link_cache_key_eq:
  assumes "barless h" "barless s" "link_cache_key h' s' = link_cache_key h s"
  shows "normalise_host h' = normalise_host h \<and> js_lower s' = js_lower s"
proof -
  have n: "CHR ''|'' \<notin> set (js_trim (js_lower h))" "CHR ''|'' \<notin> set (js_lower s)"
    using assms(1,2) set_js_trim [of "CHR ''|''" "js_lower h"] by (auto simp: barless_def js_lower_bar)
  have e: "js_trim (js_lower h') @ CHR ''|'' # js_lower s' = js_trim (js_lower h) @ CHR ''|'' # js_lower s"
    using assms(3) by (simp add: link_cache_key_def)
  have cnt: "count_list (js_trim (js_lower h') @ CHR ''|'' # js_lower s') (CHR ''|'') = 1"
    unfolding e using n by (simp add: count_notin)
  then have "CHR ''|'' \<notin> set (js_trim (js_lower h'))" "CHR ''|'' \<notin> set (js_lower s')"
    by (auto simp: count_list_0_iff [symmetric])
  with n e show ?thesis
    unfolding normalise_host_def
    by (metis (no_types, lifting) takeWhile_sep dropWhile_sep list.inject)
qed

text \<open>What the cache promises: an entry is a link the store held within the time to live.\<close>

definition fresh_entry :: "link_codec \<Rightarrow> link_resolver \<Rightarrow> int \<Rightarrow> string \<Rightarrow> string \<Rightarrow> int \<Rightarrow> bool" where
  "fresh_entry codec inner ttl k v later =
     (\<exists>t0 h sl l. k = link_cache_key h sl \<and> inner t0 h sl = Some l
        \<and> v = stringify codec (cached_form l) \<and> t0 \<le> later \<and> later < t0 + ttl * 1000)"

lemma caching_resolve_promises:
  assumes "memory_store.promises now s (fresh_entry codec inner ttl)"
  shows "memory_store.promises now (snd (caching_resolve codec inner ttl now s host slug)) (fresh_entry codec inner ttl)"
proof -
  obtain r s' where g: "cache_get now s (link_cache_key host slug) = (r, s')" by (cases "cache_get now s (link_cache_key host slug)")
  have s': "memory_store.promises now s' (fresh_entry codec inner ttl)"
    using memory_store.promises_get [OF assms, of "link_cache_key host slug"] by (simp add: g)
  show ?thesis
  proof (cases r)
    case None
    show ?thesis
    proof (cases "inner now host slug")
      case (Some l)
      have "memory_store.promises now
          (cache_set now s' (link_cache_key host slug) (stringify codec (cached_form l)) (Some ttl))
          (fresh_entry codec inner ttl)"
        using s' by (rule memory_store.promises_put) (use Some in \<open>auto simp: fresh_entry_def\<close>)
      then show ?thesis by (simp add: caching_resolve_def g None Some Let_def)
    qed (simp add: caching_resolve_def g None s' Let_def)
  qed (simp add: caching_resolve_def g s' Let_def)
qed

lemma cache_reach_promises:
  "cache_reach codec inner ttl now s \<Longrightarrow> memory_store.promises now s (fresh_entry codec inner ttl)"
proof (induction rule: cache_reach.induct)
  case (start now)
  show ?case by (simp add: memory_store.promises_def fst_cache_get alive_def)
next
  case (resolve t s now host slug s')
  then show ?case
    using caching_resolve_promises memory_store.promises_later by blast
next
  case (bust t s now payload s')
  then have p: "memory_store.promises now s (fresh_entry codec inner ttl)"
    using memory_store.promises_later by blast
  show ?case
    using bust.hyps(3) p memory_store.promises_del [OF p]
    by (auto simp: cache_bust_def split: option.splits prod.splits if_splits)
qed

text \<open>What the cached resolver relies on: the codec keeps what it writes, and the store answers by normalised name.\<close>

definition codec_keeps :: "link_codec \<Rightarrow> resolved_link \<Rightarrow> bool" where
  "codec_keeps codec l = (parse_json codec (stringify codec (cached_form l)) = cached_form l)"

definition names_links :: "link_codec \<Rightarrow> link_resolver \<Rightarrow> bool" where
  "names_links codec inner =
     ((\<forall>t h s l. inner t h s = Some l \<longrightarrow> barless h \<and> barless s \<and> storable_link l \<and> codec_keeps codec l)
      \<and> (\<forall>t h s h' s'. normalise_host h' = normalise_host h \<and> js_lower s' = js_lower s
           \<longrightarrow> inner t h' s' = inner t h s))"

lemma names_linksD:
  assumes "names_links codec inner" "inner t h s = Some l"
  shows "barless h" "barless s" "storable_link l" "codec_keeps codec l"
  using assms unfolding names_links_def by blast+

lemma fresh_entry_link:
  assumes "names_links codec inner" "fresh_entry codec inner ttl (link_cache_key host slug) v later"
  shows "\<exists>t0 l. inner t0 host slug = Some l \<and> revive_link (parse_json codec v) = l
    \<and> t0 \<le> later \<and> later < t0 + ttl * 1000"
proof -
  obtain t0 h sl l where e: "link_cache_key host slug = link_cache_key h sl" "inner t0 h sl = Some l"
    "v = stringify codec (cached_form l)" "t0 \<le> later" "later < t0 + ttl * 1000"
    using assms(2) by (auto simp: fresh_entry_def)
  note d = names_linksD [OF assms(1) e(2)]
  have "normalise_host host = normalise_host h \<and> js_lower slug = js_lower sl"
    using link_cache_key_eq [OF d(1,2) e(1)] .
  then have "inner t0 host slug = Some l" using assms(1) e(2) unfolding names_links_def by metis
  moreover have "revive_link (parse_json codec v) = l"
    using d(3,4) e(3) revive_cached_form by (simp add: codec_keeps_def)
  ultimately show ?thesis using e(4,5) by blast
qed

text \<open>
  C3. Bounded staleness: whatever the redirect's cached resolver answers, after any history of
  resolves and evictions, is what the store itself answered for that host and slug less than the
  time to live ago; and a miss is never remembered.
\<close>

theorem cached_resolve_bounded_staleness:
  assumes "names_links codec inner" "cache_reach codec inner ttl t s" "t \<le> now" "0 < ttl"
  shows "case fst (caching_resolve codec inner ttl now s host slug) of
      Some l \<Rightarrow> \<exists>t0. inner t0 host slug = Some l \<and> t0 \<le> now \<and> now < t0 + ttl * 1000
    | None \<Rightarrow> inner now host slug = None"
proof -
  have p: "memory_store.promises now s (fresh_entry codec inner ttl)"
    using cache_reach_promises [OF assms(2)] memory_store.promises_later assms(3) by blast
  obtain r s' where g: "cache_get now s (link_cache_key host slug) = (r, s')"
    by (cases "cache_get now s (link_cache_key host slug)")
  show ?thesis
  proof (cases r)
    case None
    then show ?thesis using assms(4) by (auto simp: caching_resolve_def g Let_def split: option.splits)
  next
    case (Some v)
    then have "fresh_entry codec inner ttl (link_cache_key host slug) v now"
      using memory_store.promisesD [OF p] g by simp
    from fresh_entry_link [OF assms(1) this] show ?thesis
      using Some by (auto simp: caching_resolve_def g Let_def)
  qed
qed

definition example_inner :: link_resolver where
  "example_inner t h s =
     (if normalise_host h = ''snap.to'' \<and> js_lower s = ''foo'' \<and> t < 5000 then Some plain_link else None)"

definition example_codec :: link_codec where
  "example_codec = \<lparr> stringify = (\<lambda>c. ''plain''), parse_json = (\<lambda>s. cached_form plain_link) \<rparr>"

lemma in_dropWhile: "c \<in> set s \<Longrightarrow> \<not> P c \<Longrightarrow> c \<in> set (dropWhile P s)"
  by (induction s) auto

lemma barless_normalised: "barless (normalise_host h) \<Longrightarrow> barless h"
proof -
  have "\<not> is_js_space CHR ''|''" by (simp add: is_js_space_def cu_bar)
  then have "CHR ''|'' \<in> set (js_lower h) \<Longrightarrow> CHR ''|'' \<in> set (js_trim (js_lower h))"
    by (simp add: js_trim_def in_dropWhile)
  then show "barless (normalise_host h) \<Longrightarrow> barless h"
    by (auto simp: barless_def normalise_host_def js_lower_bar)
qed

lemma barless_lowered: "barless (js_lower s) \<Longrightarrow> barless s"
  by (simp add: barless_def js_lower_bar)

lemma names_links_example: "names_links example_codec example_inner"
proof -
  have "barless ''snap.to''" "barless ''foo''" by (simp_all add: barless_def)
  then have "normalise_host h = ''snap.to'' \<Longrightarrow> barless h" "js_lower s = ''foo'' \<Longrightarrow> barless s" for h s
    using barless_normalised [of h] barless_lowered [of s] by auto
  moreover note storable_plain_link
  moreover have "codec_keeps example_codec plain_link" by (simp add: codec_keeps_def example_codec_def)
  ultimately show ?thesis
    by (auto simp: names_links_def example_inner_def split: if_splits)
qed

definition example_store :: store where
  "example_store = snd (caching_resolve example_codec example_inner 10 4000 Map.empty ''SNAP.TO'' ''Foo'')"

lemma example_store_reach: "cache_reach example_codec example_inner 10 4000 example_store"
  by (rule cache_reach.resolve [OF cache_reach.start order_refl]) (simp add: example_store_def)

theorem cached_resolve_bounded_staleness_witness:
  "\<exists>t0. example_inner t0 ''snap.to'' ''foo'' = Some plain_link \<and> t0 \<le> 13000 \<and> 13000 < t0 + 10 * 1000"
proof -
  have n: "normalise_host ''SNAP.TO'' = ''snap.to''" "js_lower ''Foo'' = ''foo''"
    "normalise_host ''snap.to'' = ''snap.to''" "js_lower ''foo'' = ''foo''" by code_simp+
  then have k: "link_cache_key ''SNAP.TO'' ''Foo'' = link_cache_key ''snap.to'' ''foo''"
    by (simp add: link_cache_key_def normalise_host_def)
  define key where "key = link_cache_key ''snap.to'' ''foo''"
  have st: "example_store = [key \<mapsto> \<lparr> entry_value = Str ''plain'', expires_at = Some 14000 \<rparr>]"
    by (simp add: example_store_def caching_resolve_def cache_get_def live_def example_inner_def n k Let_def
        cache_set_def expiry_from_def key_def example_codec_def)
  have get: "cache_get 13000 example_store key = (Some ''plain'', example_store)"
    by (simp add: st cache_get_def live_def)
  have "revive_link (parse_json example_codec ''plain'') = plain_link"
    by (simp add: example_codec_def revive_cached_form storable_plain_link)
  then have hit: "fst (caching_resolve example_codec example_inner 10 13000 example_store ''snap.to'' ''foo'')
      = Some plain_link"
    by (simp add: caching_resolve_def key_def [symmetric] get Let_def)
  show ?thesis
    using cached_resolve_bounded_staleness [OF names_links_example example_store_reach,
        of 13000 "''snap.to''" "''foo''"] hit by simp
qed

text \<open>
  An eviction is immediate: right after the API's bust of a host and slug is applied, the next
  resolve of that link, however the request spells its host and slug, is the store's own answer.
\<close>

theorem cache_bust_immediate:
  assumes "host \<noteq> []" "slug \<noteq> []" "normalise_host host' = normalise_host host" "js_lower slug' = js_lower slug"
  shows "fst (caching_resolve codec inner ttl now (cache_bust (Some (Some host, Some slug)) s) host' slug')
    = inner now host' slug'"
proof -
  have k: "link_cache_key host' slug' = link_cache_key host slug"
    using assms(3,4) by (simp add: link_cache_key_def normalise_host_def)
  obtain r s' where g: "cache_get now (cache_del s (link_cache_key host slug)) (link_cache_key host slug) = (r, s')"
    by (cases "cache_get now (cache_del s (link_cache_key host slug)) (link_cache_key host slug)")
  have "r = None"
    using memory_store.get_del [of now s "link_cache_key host slug" "link_cache_key host slug"] by (simp add: g)
  then show ?thesis
    using assms(1,2) by (simp add: cache_bust_def caching_resolve_def k g Let_def split: option.splits)
qed

theorem cache_bust_immediate_witness:
  "fst (caching_resolve example_codec example_inner 10 6000
      (cache_bust (Some (Some ''snap.to'', Some ''foo'')) example_store) ''SNAP.TO'' ''Foo'') = None"
proof -
  have n: "normalise_host ''SNAP.TO'' = normalise_host ''snap.to''" "js_lower ''Foo'' = js_lower ''foo''"
    by code_simp+
  show ?thesis
    using cache_bust_immediate [OF _ _ n, where codec = example_codec and inner = example_inner and ttl = 10
        and now = 6000 and s = example_store] by (simp add: example_inner_def)
qed

end
