(* ===== verification/Visitor.thy ===== *)
theory Visitor
  imports Js_Date Routing
begin

text \<open>
  Who is clicking: the client address (\<open>packages/domain/src/client-ip.ts\<close>), the daily visitor hash and
  the user-agent and header classifiers (\<open>visitor.ts\<close>), the deep link a device gets
  (\<open>deep-link.ts\<close>), and the slugs a link may have (\<open>slug.ts\<close>).

  HMAC-SHA256, \<open>crypto.randomInt\<close> and the WHATWG URL parser are parameters. The regular expressions
  are alternations of literals, so they are read as \<open>includes\<close>; the \<open>i\<close> flag compares lower case.
\<close>

section \<open>The client address\<close>

text \<open>The header: absent, one string, or several.\<close>

datatype xff = NoXff | XffString string | XffArray "string list"

fun xff_joined :: "xff \<Rightarrow> string" where
  "xff_joined NoXff = []"
| "xff_joined (XffString s) = s"
| "xff_joined (XffArray ss) = join_with '','' ss"

definition xff_entries :: "string \<Rightarrow> string list" where
  "xff_entries s = filter (\<lambda>e. e \<noteq> []) (map js_trim (split_on (CHR '','') s))"

definition client_ip_from_xff :: "xff \<Rightarrow> string \<Rightarrow> int \<Rightarrow> string" where
  "client_ip_from_xff xff socket_ip trusted_hops =
     (if trusted_hops \<le> 0 then socket_ip
      else let entries = xff_entries (xff_joined xff) in
        if int (length entries) \<le> trusted_hops then socket_ip
        else let candidate = entries ! (length entries - 1 - nat trusted_hops) in
          if candidate = [] then socket_ip else candidate)"

lemma xff_entries_append: "xff_entries (a @ '','' @ b) = xff_entries a @ xff_entries b"
  by (simp add: xff_entries_def split_on_append)

text \<open>An entry a proxy appends: no comma, no surrounding white space, not empty.\<close>

definition plain_entry :: "string \<Rightarrow> bool" where
  "plain_entry e = (e \<noteq> [] \<and> CHR '','' \<notin> set e \<and> js_trim e = e)"

lemma xff_entries_plain: "plain_entry e \<Longrightarrow> xff_entries e = [e]"
  by (simp add: xff_entries_def plain_entry_def split_on_no_sep)

text \<open>The header as each proxy on the way extends it.\<close>

fun append_hops :: "string \<Rightarrow> string list \<Rightarrow> string" where
  "append_hops s [] = s"
| "append_hops s (e # es) = append_hops (s @ '','' @ e) es"

lemma xff_entries_hops: "\<forall>e \<in> set es. plain_entry e \<Longrightarrow> xff_entries (append_hops s es) = xff_entries s @ es"
proof (induction es arbitrary: s)
  case (Cons e es)
  then show ?case using xff_entries_append [of s e] by (simp add: xff_entries_plain)
qed simp



text \<open>A header sent several times reads as its lines joined.\<close>

lemma xff_entries_array: "xff_entries (xff_joined (XffArray ss)) = concat (map xff_entries ss)"
proof (induction ss rule: induct_list012)
  case (3 x y zs)
  have "xff_entries (x @ '','' @ join_with '','' (y # zs)) = xff_entries x @ xff_entries (join_with '','' (y # zs))"
    by (rule xff_entries_append)
  with "3.IH"(2) show ?case by simp
qed (auto simp: xff_entries_def)

section \<open>The visitor hash\<close>

text \<open>The three parts go to the digest with a NUL byte between them.\<close>

definition visitor_message :: "string \<Rightarrow> string \<Rightarrow> string \<Rightarrow> string" where
  "visitor_message ip user_agent link_id = ip @ [CHR 0x00] @ user_agent @ [CHR 0x00] @ link_id"

definition visitor_hash :: "(string \<Rightarrow> string \<Rightarrow> string) \<Rightarrow> string \<Rightarrow> string \<Rightarrow> string \<Rightarrow> string \<Rightarrow> string" where
  "visitor_hash hmac_hex daily_salt ip user_agent link_id =
     take 32 (hmac_hex daily_salt (visitor_message ip user_agent link_id))"

definition salt_date_key :: "int \<Rightarrow> string" where
  "salt_date_key now = take 10 (to_iso now)"

lemma append_sep_inject:
  assumes "d \<notin> set a" "d \<notin> set b" "a @ d # x = b @ d # y"
  shows "a = b \<and> x = y"
proof -
  have "takeWhile (\<lambda>c. c \<noteq> d) (a @ d # x) = a" "takeWhile (\<lambda>c. c \<noteq> d) (b @ d # y) = b"
    using assms(1,2) by simp_all
  then show ?thesis using assms(3) by (metis append_same_eq same_append_eq list.inject)
qed

text \<open>
  The digest is of the visitor and the link and nothing else can collide into it: addresses and
  link ids hold no NUL, the separator, so two clicks hash the same message exactly when the address, the user
  agent and the link are all the same, and links are never joined through a shared message.
\<close>

theorem visitor_message_inject:
  assumes "CHR 0x00 \<notin> set ip" "CHR 0x00 \<notin> set ip'" "CHR 0x00 \<notin> set l" "CHR 0x00 \<notin> set l'"
  shows "visitor_message ip ua l = visitor_message ip' ua' l' \<longleftrightarrow> ip = ip' \<and> ua = ua' \<and> l = l'"
proof
  assume "visitor_message ip ua l = visitor_message ip' ua' l'"
  then have "ip @ CHR 0x00 # (ua @ CHR 0x00 # l) = ip' @ CHR 0x00 # (ua' @ CHR 0x00 # l')"
    by (simp add: visitor_message_def)
  from append_sep_inject [OF assms(1,2) this]
  have ip: "ip = ip'" and rest: "ua @ CHR 0x00 # l = ua' @ CHR 0x00 # l'" by auto
  from rest have "rev l @ CHR 0x00 # rev ua = rev l' @ CHR 0x00 # rev ua'"
    by (metis rev.simps(2) rev_append append.assoc append_Cons append_Nil)
  from append_sep_inject [OF _ _ this] assms(3,4) ip
  show "ip = ip' \<and> ua = ua' \<and> l = l'" by auto
qed auto

theorem visitor_message_inject_witness:
  "visitor_message ''10.0.0.1'' ''Mozilla 5.0'' ''l1'' \<noteq> visitor_message ''10.0.0.1'' ''Mozilla 5.0'' ''l2''"
  using visitor_message_inject [of "''10.0.0.1''" "''10.0.0.1''" "''l1''" "''l2''" "''Mozilla 5.0''" "''Mozilla 5.0''"]
  by simp

section \<open>Classifying the user agent\<close>

definition includes_any :: "string \<Rightarrow> string list \<Rightarrow> bool" where
  "includes_any s ps = list_ex (str_includes s) ps"

definition includes_ci :: "string \<Rightarrow> string list \<Rightarrow> bool" where
  "includes_ci s ps = list_ex (\<lambda>p. str_includes (js_lower s) (js_lower p)) ps"

definition parse_device :: "string \<Rightarrow> device_type" where
  "parse_device user_agent =
     (let ua = js_lower user_agent in
      if includes_any ua [''iphone'', ''ipod''] then Ios
      else if includes_any ua [''ipad''] then Ios
      else if includes_any ua [''android''] then (if includes_any ua [''mobile''] then Android else Android)
      else if includes_any ua [''mobile'', ''windows phone'', ''blackberry'', ''opera mini''] then Mobile
      else Desktop)"

definition parse_browser :: "string \<Rightarrow> string" where
  "parse_browser ua =
     (if includes_ci ua [''Instagram''] then ''Instagram in-app''
      else if includes_ci ua [''FBAN'', ''FBAV''] then ''Facebook in-app''
      else if includes_ci ua [''Line/''] then ''LINE in-app''
      else if includes_ci ua [''EdgA/'', ''Edg/''] then ''Edge''
      else if includes_ci ua [''OPR/'', ''Opera''] then ''Opera''
      else if includes_ci ua [''SamsungBrowser''] then ''Samsung Internet''
      else if includes_ci ua [''Firefox/''] then ''Firefox''
      else if includes_ci ua [''Chrome/''] then ''Chrome''
      else if includes_ci ua [''Safari/''] then ''Safari''
      else ''Other'')"

definition parse_os :: "string \<Rightarrow> string" where
  "parse_os ua =
     (if includes_ci ua [''Windows NT''] then ''Windows''
      else if includes_ci ua [''iPhone'', ''iPad'', ''iPod''] then ''iOS''
      else if includes_ci ua [''Mac OS X''] then ''macOS''
      else if includes_ci ua [''Android''] then ''Android''
      else if includes_ci ua [''CrOS''] then ''ChromeOS''
      else if includes_ci ua [''Linux''] then ''Linux''
      else ''Other'')"

definition bot_pattern :: "string list" where
  "bot_pattern =
     [''bot'', ''crawler'', ''spider'', ''crawling'', ''slurp'', ''curl'', ''wget'', ''python-requests'', ''axios'',
      ''go-http'', ''java/'', ''okhttp'', ''headless'', ''phantomjs'', ''puppeteer'', ''playwright'', ''lighthouse'',
      ''pingdom'', ''uptimerobot'', ''semrush'', ''ahrefs'', ''facebookexternalhit'', ''whatsapp'', ''telegrambot'',
      ''twitterbot'', ''linkedinbot'', ''slackbot'', ''discordbot'', ''preview'']"

definition is_bot :: "string \<Rightarrow> bool" where
  "is_bot user_agent = (user_agent = [] \<or> includes_ci user_agent bot_pattern)"

definition parse_language :: "string option \<Rightarrow> string option" where
  "parse_language header =
     (case header of None \<Rightarrow> None
      | Some h \<Rightarrow>
          if h = [] then None
          else let first = js_trim (hd (split_on (CHR '','') h)) in
            if first = [] then None
            else let tag = js_lower (js_trim (hd (split_on (CHR '';'') first))) in
              if tag = [] then None
              else let primary = hd (split_on (CHR ''-'') tag) in
                if primary \<noteq> [] \<and> (length primary = 2 \<or> length primary = 3) \<and> list_all is_lower_alpha primary
                then Some primary else None)"

definition parse_referrer_host :: "(string \<Rightarrow> string option) \<Rightarrow> string option \<Rightarrow> string option" where
  "parse_referrer_host url_hostname referrer =
     (case referrer of None \<Rightarrow> None
      | Some r \<Rightarrow>
          if r = [] then None
          else case url_hostname r of None \<Rightarrow> None
            | Some hn \<Rightarrow>
                let host = js_lower hn in
                Some (if starts_with host ''www.'' then drop 4 host else host))"

lemma js_lower_fix: "list_all is_lower_alpha s \<Longrightarrow> js_lower s = s"
proof (induction s)
  case (Cons c s)
  then have "js_lower_char c = c" by (intro js_lower_char_id) (auto simp: is_lower_alpha_def is_upper_alpha_def)
  with Cons show ?case by (simp add: js_lower_def)
qed simp

text \<open>A parsed language is a fixed point of the comparison \<open>rule_matches\<close> makes.\<close>

lemma parse_language_shape:
  assumes "parse_language h = Some l"
  shows "2 \<le> length l \<and> length l \<le> 3 \<and> list_all is_lower_alpha l \<and> js_lower l = l"
  using assms js_lower_fix [of l]
  by (auto simp: parse_language_def Let_def split: option.splits if_splits)

section \<open>Deep links\<close>

text \<open>\<open>encodeURIComponent\<close> on Latin-1: the unreserved characters stay, the rest is UTF-8 in percent form.\<close>

definition uri_unreserved :: "char \<Rightarrow> bool" where
  "uri_unreserved c =
     (is_digit c \<or> is_lower_alpha c \<or> is_upper_alpha c \<or> c \<in> set ''-_.!~*()'' \<or> cu c = 39)"

definition hex_upper :: "nat \<Rightarrow> char" where
  "hex_upper n = char_of (if n < 10 then 48 + n else 55 + n)"

definition percent_byte :: "nat \<Rightarrow> string" where
  "percent_byte b = [CHR ''%'', hex_upper (b div 16), hex_upper (b mod 16)]"

definition encode_char :: "char \<Rightarrow> string" where
  "encode_char c =
     (if uri_unreserved c then [c]
      else if cu c < 128 then percent_byte (cu c)
      else percent_byte (192 + cu c div 64) @ percent_byte (128 + cu c mod 64))"

definition encode_uri_component :: "string \<Rightarrow> string" where
  "encode_uri_component s = concat (map encode_char s)"

definition android_packages :: "(string \<times> string) list" where
  "android_packages =
     [(''youtube.com'', ''com.google.android.youtube''),
      (''youtu.be'', ''com.google.android.youtube''),
      (''spotify.com'', ''com.spotify.music''),
      (''instagram.com'', ''com.instagram.android''),
      (''twitter.com'', ''com.twitter.android''),
      (''x.com'', ''com.twitter.android''),
      (''tiktok.com'', ''com.zhiliaoapp.musically''),
      (''whatsapp.com'', ''com.whatsapp''),
      (''wa.me'', ''com.whatsapp''),
      (''facebook.com'', ''com.facebook.katana''),
      (''fb.com'', ''com.facebook.katana''),
      (''soundcloud.com'', ''com.soundcloud.android''),
      (''etsy.com'', ''com.etsy.android''),
      (''amazon.com'', ''com.amazon.mShop.android.shopping''),
      (''amazon.in'', ''com.amazon.mShop.android.shopping''),
      (''amazon.co.uk'', ''com.amazon.mShop.android.shopping'')]"

definition package_for :: "string \<Rightarrow> string option" where
  "package_for hostname =
     (let lower = js_lower hostname;
          host = (if starts_with lower ''www.'' then drop 4 lower else lower)
      in map_option snd (find (\<lambda>(suffix, pkg). host = suffix \<or> ends_with host (''.'' @ suffix)) android_packages))"

record url_parts =
  url_protocol :: string
  url_hostname :: string
  url_host :: string
  url_pathname :: string
  url_search :: string

definition intent_prefix :: "url_parts \<Rightarrow> string \<Rightarrow> string" where
  "intent_prefix url pkg =
     ''intent://'' @ url_host url @ url_pathname url @ url_search url
     @ ''#Intent;scheme=https;package='' @ pkg @ '';S.browser_fallback_url=''"

definition intent_url :: "url_parts \<Rightarrow> string \<Rightarrow> string \<Rightarrow> string" where
  "intent_url url pkg destination =
     intent_prefix url pkg @ encode_uri_component destination @ '';end''"

definition build_deep_link ::
    "(string \<Rightarrow> url_parts option) \<Rightarrow> string \<Rightarrow> device_type option \<Rightarrow> bool \<Rightarrow> string" where
  "build_deep_link parse_url destination device enabled =
     (if \<not> enabled then destination
      else if device \<noteq> Some Android then destination
      else case parse_url destination of None \<Rightarrow> destination
        | Some url \<Rightarrow>
            if url_protocol url \<noteq> ''https:'' \<and> url_protocol url \<noteq> ''http:'' then destination
            else case package_for (url_hostname url) of None \<Rightarrow> destination
              | Some pkg \<Rightarrow> intent_url url pkg destination)"

text \<open>How Chrome reads the fallback back: the text of the extra up to the next \<open>;\<close>, percent-decoded.\<close>

definition hex_upper_val :: "char \<Rightarrow> nat" where
  "hex_upper_val c = (if is_digit c then cu c - 48 else cu c - 55)"

fun percent_bytes :: "string \<Rightarrow> nat list" where
  "percent_bytes [] = []"
| "percent_bytes (c # cs) =
     (if c = CHR ''%''
      then case cs of a # b # r \<Rightarrow> (16 * hex_upper_val a + hex_upper_val b) # percent_bytes r | _ \<Rightarrow> [cu c]
      else cu c # percent_bytes cs)"

fun utf8_latin1 :: "nat list \<Rightarrow> string" where
  "utf8_latin1 [] = []"
| "utf8_latin1 [b] = [char_of b]"
| "utf8_latin1 (b # b' # bs) =
     (if b < 128 then char_of b # utf8_latin1 (b' # bs)
      else char_of ((b - 192) * 64 + (b' - 128)) # utf8_latin1 bs)"

definition decode_uri_component :: "string \<Rightarrow> string" where
  "decode_uri_component s = utf8_latin1 (percent_bytes s)"

lemma hex_upper_val_hex_upper: "n < 16 \<Longrightarrow> hex_upper_val (hex_upper n) = n"
  by (auto simp: hex_upper_val_def hex_upper_def is_digit_def)

lemma percent_bytes_byte: "b < 256 \<Longrightarrow> percent_bytes (percent_byte b @ r) = b # percent_bytes r"
  by (simp add: percent_byte_def hex_upper_val_hex_upper)

lemma percent_bytes_char:
  "percent_bytes (encode_char c @ r) =
     (if cu c < 128 then cu c # percent_bytes r
      else (192 + cu c div 64) # (128 + cu c mod 64) # percent_bytes r)"
proof -
  have "c = CHR ''%'' \<Longrightarrow> \<not> uri_unreserved c"
    by (simp add: uri_unreserved_def is_digit_def is_lower_alpha_def is_upper_alpha_def cu_def)
  moreover have "uri_unreserved c \<Longrightarrow> cu c < 128"
    by (auto simp: uri_unreserved_def is_digit_def is_lower_alpha_def is_upper_alpha_def cu_def)
  ultimately show ?thesis
    using cu_less [of c] by (auto simp: encode_char_def percent_bytes_byte)
qed

lemma utf8_ascii: "b < 128 \<Longrightarrow> utf8_latin1 (b # bs) = char_of b # utf8_latin1 bs"
  by (cases bs) auto

lemma decode_encode: "decode_uri_component (encode_uri_component s) = s"
proof (induction s)
  case (Cons c s)
  have "64 * (cu c div 64) + cu c mod 64 = cu c" by simp
  then have "128 \<le> cu c \<Longrightarrow> char_of (cu c div 64 * 64 + cu c mod 64) = c" by (simp add: mult.commute)
  then show ?case using Cons
    by (simp add: decode_uri_component_def encode_uri_component_def percent_bytes_char utf8_ascii)
qed (simp add: decode_uri_component_def encode_uri_component_def)

lemma encode_no_semicolon: "CHR '';'' \<notin> set (encode_uri_component s)"
proof -
  have hex: "CHR '';'' \<noteq> hex_upper n" if "n < 16" for n
  proof
    assume "CHR '';'' = hex_upper n"
    then have "cu (hex_upper n) = 59" by (simp add: cu_def flip: \<open>CHR '';'' = hex_upper n\<close>)
    with that show False by (auto simp: hex_upper_def split: if_splits)
  qed
  have byte: "CHR '';'' \<notin> set (percent_byte b)" if "b < 256" for b
    using hex [of "b div 16"] hex [of "b mod 16"] that by (simp add: percent_byte_def div_less_iff_less_mult)
  have "CHR '';'' \<notin> set (encode_char c)" for c
  proof -
    have "\<not> uri_unreserved CHR '';''"
      by (simp add: uri_unreserved_def is_digit_def is_lower_alpha_def is_upper_alpha_def cu_def)
    moreover have "192 + cu c div 64 < 256" "128 + cu c mod 64 < 256"
      using cu_less [of c] pos_mod_bound [of 64 "int (cu c)"] mod_less_divisor [of 64 "cu c"]
      by (simp_all add: div_less_iff_less_mult del: mod_less_divisor)
    ultimately show ?thesis
      using byte [of "cu c"] byte [of "192 + cu c div 64"] byte [of "128 + cu c mod 64"]
      by (auto simp: encode_char_def)
  qed
  then show ?thesis by (auto simp: encode_uri_component_def)
qed

definition fallback_of :: "url_parts \<Rightarrow> string \<Rightarrow> string \<Rightarrow> string" where
  "fallback_of url pkg intent =
     (let extras = drop (length (intent_prefix url pkg)) intent
      in decode_uri_component (takeWhile (\<lambda>c. c \<noteq> CHR '';'') extras))"

text \<open>
  A deep link never strands a visitor: what comes back is the destination itself, or, only on
  Android with the feature on and for a web URL of a listed app's domain, an intent that names that
  app's package and whose browser fallback decodes to exactly the destination.
\<close>

theorem build_deep_link_never_strands:
  "build_deep_link parse_url destination device enabled = destination
   \<or> (enabled \<and> device = Some Android \<and>
      (\<exists>url pkg. parse_url destination = Some url \<and> url_protocol url \<in> {''https:'', ''http:''}
         \<and> package_for (url_hostname url) = Some pkg
         \<and> build_deep_link parse_url destination device enabled = intent_url url pkg destination
         \<and> fallback_of url pkg (intent_url url pkg destination) = destination))"
proof -
  have "takeWhile (\<lambda>c. c \<noteq> CHR '';'') (encode_uri_component destination @ CHR '';'' # r)
      = encode_uri_component destination" for r
    using encode_no_semicolon [of destination] by simp
  then have fb: "fallback_of url pkg (intent_url url pkg destination) = destination" for url pkg
    by (simp add: fallback_of_def intent_url_def decode_encode)
  show ?thesis
    by (auto simp: build_deep_link_def fb split: option.splits)
qed

section \<open>Slugs\<close>

definition alphabet :: string where
  "alphabet = ''23456789abcdefghjkmnpqrstuvwxyzABCDEFGHJKMNPQRSTUVWXYZ''"

text \<open>The draws of \<open>randomInt(ALPHABET.length)\<close>, one per character, are a parameter.\<close>

fun generate_slug :: "nat list \<Rightarrow> string" where
  "generate_slug [] = []"
| "generate_slug (i # is) = alphabet ! i # generate_slug is"

definition reserved_slugs :: "string list" where
  "reserved_slugs =
     [''api'', ''p'', ''preview'', ''_next'', ''static'', ''assets'', ''favicon.ico'', ''robots.txt'', ''sitemap.xml'',
      ''health'', ''healthz'', ''metrics'', ''status'',
      ''login'', ''register'', ''signup'', ''signin'', ''logout'', ''settings'', ''links'', ''analytics'',
      ''conversions'', ''domains'', ''team'', ''developers'', ''bio'', ''qr'', ''dashboard'', ''account'',
      ''admin'', ''root'', ''support'', ''help'', ''billing'', ''security'', ''abuse'', ''legal'', ''privacy'',
      ''terms'', ''www'', ''mail'', ''smtp'', ''ftp'', ''ns1'', ''ns2'']"

definition profane :: "string \<Rightarrow> bool" where
  "profane slug = list_ex (starts_with (js_lower slug))
     [''fuck'', ''shit'', ''cunt'', ''bitch'', ''nigg'', ''rape'', ''slut'', ''whore'']"

definition file_extensions :: "string list" where
  "file_extensions =
     [''htm'', ''html'', ''php'', ''asp'', ''aspx'', ''jsp'', ''json'', ''xml'', ''txt'', ''js'', ''css'', ''map'']"

definition slug_char :: "char \<Rightarrow> bool" where
  "slug_char c = (is_lower_alpha c \<or> is_upper_alpha c \<or> is_digit c \<or> c \<in> set ''._-'')"

datatype slug_problem =
  SlugEmpty | SlugTooLong | SlugCharacters | SlugDots | SlugReserved string | SlugProfane | SlugFileExtension

text \<open>\<open>None\<close> is \<open>{ ok: true }\<close>.\<close>

definition is_slug_available_shape :: "string \<Rightarrow> slug_problem option" where
  "is_slug_available_shape slug =
     (if length slug < 1 then Some SlugEmpty
      else if 64 < length slug then Some SlugTooLong
      else if \<not> list_all slug_char slug then Some SlugCharacters
      else if slug = ''.'' \<or> slug = ''..'' then Some SlugDots
      else if js_lower slug \<in> set reserved_slugs then Some (SlugReserved slug)
      else if profane slug then Some SlugProfane
      else if list_ex (\<lambda>x. ends_with (js_lower slug) (''.'' @ x)) file_extensions then Some SlugFileExtension
      else None)"

definition slug_retry_limit :: nat where
  "slug_retry_limit = 8"

lemma length_alphabet: "length alphabet = 54"
  by (simp add: alphabet_def)

lemma alphabet_chars: "list_all (\<lambda>c. slug_char c \<and> c \<noteq> CHR ''.'' \<and> js_lower_char c \<noteq> CHR ''.'') alphabet"
  by code_simp

lemma generate_slug_chars:
  "list_all (\<lambda>i. i < 54) draws \<Longrightarrow>
   list_all (\<lambda>c. slug_char c \<and> c \<noteq> CHR ''.'' \<and> js_lower_char c \<noteq> CHR ''.'') (generate_slug draws)"
proof (induction draws)
  case (Cons i draws)
  have "alphabet ! i \<in> set alphabet" using Cons.prems by (intro nth_mem) (simp add: length_alphabet)
  then show ?case using Cons alphabet_chars by (simp add: list_all_iff)
qed simp

lemma length_generate_slug [simp]: "length (generate_slug draws) = length draws"
  by (induction draws) auto

text \<open>
  A generated slug is accepted by the check every custom slug goes through, whatever the random
  draws, unless it happens to spell a reserved word or start with a profane one: its length, its
  characters, its dots and its ending are always right.
\<close>

theorem generated_slug_accepted:
  assumes "list_all (\<lambda>i. i < 54) draws" "1 \<le> length draws" "length draws \<le> 64"
  shows "is_slug_available_shape (generate_slug draws) =
    (if js_lower (generate_slug draws) \<in> set reserved_slugs then Some (SlugReserved (generate_slug draws))
     else if profane (generate_slug draws) then Some SlugProfane else None)"
proof -
  let ?s = "generate_slug draws"
  have c: "\<forall>c \<in> set ?s. slug_char c \<and> c \<noteq> CHR ''.'' \<and> js_lower_char c \<noteq> CHR ''.''"
    using generate_slug_chars [OF assms(1)] by (simp add: list_all_iff)
  have "set (js_lower ?s) = js_lower_char ` set ?s" by (simp add: js_lower_def)
  with c have "CHR ''.'' \<notin> set (js_lower ?s)" by (metis imageE)
  then have "\<not> ends_with (js_lower ?s) (''.'' @ x)" for x
    by (auto simp: ends_with_iff)
  then have e: "\<not> list_ex (\<lambda>x. ends_with (js_lower ?s) (''.'' @ x)) file_extensions"
    unfolding list_ex_iff by blast
  have dot: "CHR ''.'' \<notin> set ?s" using c by blast
  have "list_all slug_char ?s" using c unfolding list_all_iff by blast
  moreover have "?s \<noteq> ''.''" "?s \<noteq> ''..''" using dot by force+
  ultimately have s: "list_all slug_char ?s" "?s \<noteq> ''.''" "?s \<noteq> ''..''" .
  then show ?thesis
    unfolding is_slug_available_shape_def using assms(2,3) by (simp only: length_generate_slug s e) auto
qed

theorem generated_slug_accepted_witness:
  "is_slug_available_shape (generate_slug [0, 9, 30, 53, 8, 20, 33]) = None"
proof -
  have s: "generate_slug [0, 9, 30, 53, 8, 20, 33] = ''2bzZapC''"
    by (simp add: alphabet_def)
  have "\<not> js_lower ''2bzZapC'' \<in> set reserved_slugs" "\<not> profane ''2bzZapC''" by code_simp+
  then show ?thesis
    using generated_slug_accepted [of "[0, 9, 30, 53, 8, 20, 33]"] by (simp add: s del: generate_slug.simps)
qed

end
