(* ===== verification/Error_Page.thy ===== *)
theory Error_Page
  imports Js_Date Js_Number
begin

text \<open>
  The dead ends of the redirect (\<open>apps/redirect/src/error-page.ts\<close>): which status, headers and body a
  visitor gets, in plain text or HTML. The style sheet
  and its SHA-256 hash, and the ellipsis character (outside Latin-1) are parameters of the page.
\<close>

datatype error_kind = NotFound | ExpiredPage | ClickLimitPage | ScheduledPage | RootPage | DisabledPage | NotActivePage

record copy =
  copy_status :: int
  copy_text :: string
  copy_title :: string
  copy_body :: string

fun copy_of :: "error_kind \<Rightarrow> copy" where
  "copy_of NotFound = \<lparr> copy_status = 404, copy_text = ''No such link.'',
     copy_title = ''We couldn't find that link'',
     copy_body = ''This short link doesn't exist. Check it for typos, or ask whoever shared it for a fresh one.'' \<rparr>"
| "copy_of ExpiredPage = \<lparr> copy_status = 410, copy_text = ''This link has expired.'',
     copy_title = ''This link has expired'',
     copy_body = ''Its owner set it to stop working after a certain date. If you still need it, ask whoever shared it.'' \<rparr>"
| "copy_of ClickLimitPage = \<lparr> copy_status = 410, copy_text = ''This link has reached its click limit.'',
     copy_title = ''This link has reached its click limit'',
     copy_body = ''Its owner set it to work for a limited number of visits, and they've all been used.'' \<rparr>"
| "copy_of ScheduledPage = \<lparr> copy_status = 404, copy_text = ''This link is not live yet.'',
     copy_title = ''This link isn't live yet'',
     copy_body = ''Its owner scheduled it to start working later. Check back then.'' \<rparr>"
| "copy_of RootPage = \<lparr> copy_status = 404, copy_text = ''Nothing here.'',
     copy_title = ''Nothing here'',
     copy_body = ''This is a short-link domain. Add a link's code after the slash to follow it.'' \<rparr>"
| "copy_of DisabledPage = \<lparr> copy_status = 410, copy_text = ''This link has been disabled.'',
     copy_title = ''This link has been disabled'',
     copy_body = ''It was turned off by the SnapURL team, usually because it was reported for abuse or broke the acceptable-use policy.'' \<rparr>"
| "copy_of NotActivePage = \<lparr> copy_status = 404, copy_text = ''This link isn't active yet.'',
     copy_title = ''This link isn't active yet'',
     copy_body = ''The person who created it needs to verify their email address before it will start working. If it's yours, check your inbox for the verification link.'' \<rparr>"

section \<open>Escaping\<close>

abbreviation quote_char :: char where
  "quote_char \<equiv> CHR 0x27"

abbreviation dquote_char :: char where
  "dquote_char \<equiv> CHR 0x22"

text \<open>One \<open>replace(/c/g, by)\<close>.\<close>

definition replace_all :: "char \<Rightarrow> string \<Rightarrow> string \<Rightarrow> string" where
  "replace_all c by s = concat (map (\<lambda>d. if d = c then by else [d]) s)"

definition escape_html :: "string \<Rightarrow> string" where
  "escape_html val =
     replace_all quote_char ''&#39;''
       (replace_all dquote_char ''&quot;''
         (replace_all (CHR ''>'') ''&gt;''
           (replace_all (CHR ''<'') ''&lt;''
             (replace_all (CHR ''&'') ''&amp;'' val))))"

definition escape_char :: "char \<Rightarrow> string" where
  "escape_char c =
     (if c = CHR ''&'' then ''&amp;'' else if c = CHR ''<'' then ''&lt;'' else if c = CHR ''>'' then ''&gt;''
      else if c = dquote_char then ''&quot;'' else if c = quote_char then ''&#39;'' else [c])"

lemma replace_all_append [simp]: "replace_all c by (s @ t) = replace_all c by s @ replace_all c by t"
  by (simp add: replace_all_def)

lemma replace_all_Nil [simp]: "replace_all c by [] = []"
  by (simp add: replace_all_def)

lemma replace_all_Cons: "replace_all c by (d # s) = (if d = c then by else [d]) @ replace_all c by s"
  by (simp add: replace_all_def)

text \<open>The five passes do not touch each other's output: together they escape one character at a time.\<close>

lemma escape_html_chars: "escape_html s = concat (map escape_char s)"
proof (induction s)
  case (Cons c s)
  have "escape_html [c] = escape_char c"
    by (simp add: escape_html_def escape_char_def replace_all_Cons)
  moreover have "escape_html (c # s) = escape_html [c] @ escape_html s"
    using replace_all_append [of _ _ "[c]" s]
    by (simp add: escape_html_def replace_all_Cons)
  ultimately show ?case using Cons by simp
qed (simp add: escape_html_def)

text \<open>What a browser reads back: the character references replaced by their characters.\<close>

fun unescape :: "string \<Rightarrow> string" where
  "unescape [] = []"
| "unescape (c # s) =
     (if c \<noteq> CHR ''&'' then c # unescape s
      else if starts_with s ''amp;'' then CHR ''&'' # unescape (drop 4 s)
      else if starts_with s ''lt;'' then CHR ''<'' # unescape (drop 3 s)
      else if starts_with s ''gt;'' then CHR ''>'' # unescape (drop 3 s)
      else if starts_with s ''quot;'' then dquote_char # unescape (drop 5 s)
      else if starts_with s ''#39;'' then quote_char # unescape (drop 4 s)
      else c # unescape s)"

section \<open>Which variant\<close>

definition wants_html :: "string option \<Rightarrow> bool" where
  "wants_html accept =
     (case accept of None \<Rightarrow> False
      | Some raw \<Rightarrow>
          raw \<noteq> [] \<and>
          list_ex (\<lambda>range.
            let parts = map (\<lambda>part. js_lower (js_trim part)) (split_on (CHR '';'') range);
                ty = hd parts;
                weight = (case find (\<lambda>p. starts_with p ''q='') (tl parts) of
                            None \<Rightarrow> Some 1 | Some q \<Rightarrow> js_number (drop 2 q))
            in (ty = ''text/html'' \<or> ty = ''application/xhtml+xml'')
               \<and> (case weight of None \<Rightarrow> False | Some w \<Rightarrow> 0 < w))
            (split_on (CHR '','') raw))"

section \<open>The page\<close>

record page_params =
  pp_style :: string
  pp_style_hash :: string
  pp_ellipsis :: string

record error_context =
  ec_host :: string
  ec_slug :: "string option"
  ec_activates_at :: "int option"
  ec_web_origin :: string

record error_reply =
  er_status :: int
  er_headers :: "(string \<times> string) list"
  er_body :: string

definition max_shown :: nat where
  "max_shown = 200"

definition short_link_label :: "page_params \<Rightarrow> string \<Rightarrow> string option \<Rightarrow> string" where
  "short_link_label p host slug =
     (let label = (case slug of None \<Rightarrow> host | Some s \<Rightarrow> host @ ''/'' @ s)
      in if max_shown < length label then take max_shown label @ pp_ellipsis p else label)"

definition weekday_name :: "int \<Rightarrow> string" where
  "weekday_name n = [''Thu'', ''Fri'', ''Sat'', ''Sun'', ''Mon'', ''Tue'', ''Wed''] ! nat (n mod 7)"

definition month_name :: "int \<Rightarrow> string" where
  "month_name m =
     [''Jan'', ''Feb'', ''Mar'', ''Apr'', ''May'', ''Jun'', ''Jul'', ''Aug'', ''Sep'', ''Oct'', ''Nov'', ''Dec'']
       ! nat (m - 1)"

text \<open>\<open>toUTCString\<close>, for the years 0 to 9999.\<close>

definition to_utc_string :: "int \<Rightarrow> string" where
  "to_utc_string t =
     (let (y, m, d) = civil_of_days (t div day_ms); r = t mod day_ms
      in weekday_name (t div day_ms) @ '', '' @ two d @ '' '' @ month_name m @ '' '' @ four y @ '' ''
         @ two (r div 3600000) @ '':'' @ two (r div 60000 mod 60) @ '':'' @ two (r div 1000 mod 60) @ '' GMT'')"

definition dq :: "string \<Rightarrow> string" where
  "dq s = dquote_char # s @ [dquote_char]"

definition error_page_csp :: "page_params \<Rightarrow> string" where
  "error_page_csp p =
     (let q = (\<lambda>s. quote_char # s @ [quote_char]) in
      join_with ''; ''
        [''default-src '' @ q ''none'',
         ''style-src '' @ q (''sha256-'' @ pp_style_hash p),
         ''base-uri '' @ q ''none'', ''form-action '' @ q ''none'', ''frame-ancestors '' @ q ''none''])"

definition render_html :: "page_params \<Rightarrow> error_kind \<Rightarrow> error_context \<Rightarrow> string" where
  "render_html p kind ctx =
     (let c = copy_of kind;
          shown = (if ec_host ctx \<noteq> [] \<or> truthy (ec_slug ctx)
                   then short_link_label p (ec_host ctx) (ec_slug ctx) else []);
          dated = (case (kind, ec_activates_at ctx) of
              (ScheduledPage, Some t) \<Rightarrow>
                ''<p>It goes live on <time datetime='' @ dq (escape_html (to_iso t)) @ ''>''
                @ escape_html (to_utc_string t) @ ''</time>.</p>''
            | _ \<Rightarrow> [])
      in ''<!doctype html><html lang='' @ dq ''en'' @ ''><head><meta charset='' @ dq ''utf-8'' @ ''>''
         @ ''<meta name='' @ dq ''viewport'' @ '' content='' @ dq ''width=device-width,initial-scale=1'' @ ''>''
         @ ''<meta name='' @ dq ''robots'' @ '' content='' @ dq ''noindex'' @ ''>''
         @ ''<title>'' @ escape_html (copy_title c) @ [CHR '' '', char_of (183 :: nat)] @ '' SnapURL</title><style>''
         @ pp_style p @ ''</style></head>''
         @ ''<body><main><p class='' @ dq ''brand'' @ ''>Snap<span>URL</span></p>''
         @ ''<h1>'' @ escape_html (copy_title c) @ ''</h1><p>'' @ escape_html (copy_body c) @ ''</p>'' @ dated
         @ (if shown \<noteq> [] then ''<code>'' @ escape_html shown @ ''</code>'' else [])
         @ ''<a href='' @ dq (escape_html (ec_web_origin ctx)) @ ''>Go to SnapURL</a></main></body></html>'')"

definition error_response :: "page_params \<Rightarrow> error_kind \<Rightarrow> string option \<Rightarrow> error_context \<Rightarrow> error_reply" where
  "error_response p kind accept ctx =
     (let c = copy_of kind;
          common = [(''cache-control'', ''no-store''), (''vary'', ''Accept''), (''x-content-type-options'', ''nosniff'')]
      in if \<not> wants_html accept
         then \<lparr> er_status = copy_status c,
                er_headers = common @ [(''content-type'', ''text/plain; charset=utf-8'')],
                er_body = copy_text c \<rparr>
         else \<lparr> er_status = copy_status c,
                er_headers = common @ [(''content-type'', ''text/html; charset=utf-8''),
                  (''content-security-policy'', error_page_csp p), (''referrer-policy'', ''no-referrer'')],
                er_body = render_html p kind ctx \<rparr>)"

lemma unescape_escape_char: "unescape (escape_char c @ s) = c # unescape s"
  by (simp add: escape_char_def starts_with_def)

text \<open>
  Nothing a visitor types can leave its place in the page: the escaped text holds no angle
  bracket and no quote, so neither an element nor an attribute can be opened or closed by it, and
  a browser reads exactly the original text back.
\<close>

theorem escape_html_safe:
  "set (escape_html s) \<inter> {CHR ''<'', CHR ''>'', dquote_char, quote_char} = {} \<and> unescape (escape_html s) = s"
proof
  have "set (escape_char c) \<inter> {CHR ''<'', CHR ''>'', dquote_char, quote_char} = {}" for c
    by (auto simp: escape_char_def)
  then show "set (escape_html s) \<inter> {CHR ''<'', CHR ''>'', dquote_char, quote_char} = {}"
    by (auto simp: escape_html_chars)
  show "unescape (escape_html s) = s"
    unfolding escape_html_chars by (induction s) (simp_all add: unescape_escape_char)
qed

text \<open>
  A dead end is never cached and never a success: whatever the link, the headers and the client,
  the reply is a 404 or a 410 marked \<open>no-store\<close> and varying on \<open>Accept\<close>, and a client that does not
  ask for HTML gets the one plain sentence.
\<close>

theorem error_response_dead_end:
  "er_status (error_response p kind accept ctx) \<in> {404, 410}
   \<and> map_of (er_headers (error_response p kind accept ctx)) ''cache-control'' = Some ''no-store''
   \<and> map_of (er_headers (error_response p kind accept ctx)) ''vary'' = Some ''Accept''
   \<and> (accept \<in> {None, Some [], Some ''*/*''}
       \<longrightarrow> er_body (error_response p kind accept ctx) = copy_text (copy_of kind))"
proof -
  have "\<not> wants_html (Some ''*/*'')"
    by (simp add: wants_html_def js_lower_def js_trim_def js_lower_char_def is_js_space_def cu_def)
  then show ?thesis
    by (cases kind) (auto simp: error_response_def Let_def wants_html_def)
qed

theorem error_response_dead_end_witness:
  "er_body (error_response \<lparr> pp_style = [], pp_style_hash = [], pp_ellipsis = [] \<rparr>
      ExpiredPage None \<lparr> ec_host = ''a'', ec_slug = None, ec_activates_at = None, ec_web_origin = ''b'' \<rparr>)
   = ''This link has expired.''"
  using error_response_dead_end [of "\<lparr> pp_style = [], pp_style_hash = [], pp_ellipsis = [] \<rparr>"
      ExpiredPage None "\<lparr> ec_host = ''a'', ec_slug = None, ec_activates_at = None, ec_web_origin = ''b'' \<rparr>"]
  by simp

end
