(* ===== verification/Redirect.thy ===== *)
theory Redirect
  imports Link_Store Visitor Error_Page
begin

text \<open>
  The redirect service: the request handlers (\<open>apps/redirect/src/main.ts\<close>), the atomic click
  reservation (\<open>click-reservation.ts\<close>), and the click event they record
  (\<open>packages/database/src/click-events.ts\<close>).

  The world a request changes is its cache, the \<open>link_counters.reserved\<close> column and the clicks the sink
  accepted. The environment record holds the process configuration and the libraries and services
  the handler calls: the base resolver, the URL library, JWT verification, HMAC, the salt source
  (\<open>None\<close> when it throws) and whether the sink accepts an event.
\<close>

section \<open>Reserving a click\<close>

datatype reservation = Reserved | Refused | Unavailable

type_synonym counters = "string \<rightharpoonup> int"

text \<open>
  The one SQL statement: the \<open>SELECT ... WHERE limit >= 1\<close> yields no row below 1; a missing counter is
  seeded with 1; an existing one is raised while it is below the limit.
\<close>

definition postgres_reserve :: "counters \<Rightarrow> string \<Rightarrow> int \<Rightarrow> reservation \<times> counters" where
  "postgres_reserve m link_id limit =
     (if limit < 1 then (Refused, m)
      else case m link_id of
          None \<Rightarrow> (Reserved, m(link_id \<mapsto> 1))
        | Some r \<Rightarrow> if r < limit then (Reserved, m(link_id \<mapsto> r + 1)) else (Refused, m))"

definition noop_reserve :: "counters \<Rightarrow> string \<Rightarrow> int \<Rightarrow> reservation \<times> counters" where
  "noop_reserve m link_id limit = (Unavailable, m)"

section \<open>The click event\<close>

record click_event =
  ce_link_id :: string
  ce_workspace_id :: string
  ce_occurred_at :: int
  ce_visitor_hash :: string
  ce_country :: "string option"
  ce_city :: "string option"
  ce_device :: device_type
  ce_browser :: string
  ce_os :: string
  ce_referrer_host :: "string option"
  ce_is_qr :: bool
  ce_is_bot :: bool
  ce_blocked_reason :: "effective_gate_kind option"
  ce_matched_rule_id :: "string option"
  ce_variant :: "string option"

text \<open>
  The one INSERT, retried once: \<open>insert_once\<close> is the database's, returning the error it threw, if any,
  and the rows after it. The result is the error thrown, the rows, and the calls of \<open>onRetry\<close>.
\<close>

definition insert_click_events ::
    "('e \<Rightarrow> bool) \<Rightarrow> ('r \<Rightarrow> click_event list \<Rightarrow> 'e option \<times> 'r) \<Rightarrow> 'r \<Rightarrow> click_event list \<Rightarrow> 'e option \<times> 'r \<times> 'e list" where
  "insert_click_events is_transient insert_once rows events =
     (if events = [] then (None, rows, [])
      else case insert_once rows events of
          (None, rows') \<Rightarrow> (None, rows', [])
        | (Some err, rows') \<Rightarrow>
            if \<not> is_transient err then (Some err, rows', [])
            else (case insert_once rows' events of (r, rows'') \<Rightarrow> (r, rows'', [err])))"

section \<open>Requests and replies\<close>

record request =
  rq_slug :: string
  rq_url :: string
  rq_token :: "string option"
  rq_forwarded_host :: "string option"
  rq_host :: "string option"
  rq_user_agent :: "string option"
  rq_xff :: xff
  rq_socket_ip :: string
  rq_country :: "string option"
  rq_city :: "string option"
  rq_accept_language :: "string option"
  rq_accept :: "string option"
  rq_referer :: "string option"

datatype response =
    Redirect int string "(string \<times> string) list"
  | ErrorReply error_kind "int option" error_reply
  | Failure

record claims =
  claim_sub :: "string option"
  claim_purpose :: "string option"

record 'u redirect_env =
  en_web_origin :: string
  en_trusted_hops :: int
  en_link_cache_ttl :: int
  en_postgres :: bool
  en_codec :: link_codec
  en_resolve :: link_resolver
  en_resolve_domain :: "int \<Rightarrow> string \<Rightarrow> resolved_domain option"
  en_url :: "'u url_api"
  en_url_parts :: "string \<Rightarrow> url_parts option"
  en_url_hostname :: "string \<Rightarrow> string option"
  en_jwt_verify :: "string \<Rightarrow> claims option"
  en_hmac :: "string \<Rightarrow> string \<Rightarrow> string"
  en_salt :: "int \<Rightarrow> string option"
  en_sink_accepts :: "click_event \<Rightarrow> bool"
  en_page :: page_params

record world =
  w_cache :: store
  w_reserved :: counters
  w_clicks :: "click_event list"

text \<open>\<open>URLSearchParams.toString\<close> on Latin-1.\<close>

definition form_unreserved :: "char \<Rightarrow> bool" where
  "form_unreserved c = (is_digit c \<or> is_lower_alpha c \<or> is_upper_alpha c \<or> c \<in> set ''*-._'')"

definition form_encode_char :: "char \<Rightarrow> string" where
  "form_encode_char c =
     (if form_unreserved c then [c]
      else if c = CHR '' '' then ''+''
      else if cu c < 128 then percent_byte (cu c)
      else percent_byte (192 + cu c div 64) @ percent_byte (128 + cu c mod 64))"

definition form_encode :: "string \<Rightarrow> string" where
  "form_encode s = concat (map form_encode_char s)"

definition form_string :: "params \<Rightarrow> string" where
  "form_string ps = join_with ''&'' (map (\<lambda>(k, v). form_encode k @ ''='' @ form_encode v) ps)"

definition trust_page_url :: "'u redirect_env \<Rightarrow> string \<Rightarrow> string \<Rightarrow> params \<Rightarrow> string" where
  "trust_page_url env slug host ps =
     (let query = (if host \<noteq> [] then set_param ''host'' host ps else ps);
          qs = form_string query
      in en_web_origin env @ ''/p/'' @ encode_uri_component slug @ (if qs \<noteq> [] then ''?'' @ qs else []))"

text \<open>\<open>request.url.split("?")[1] ?? null\<close>.\<close>

definition incoming_query_of :: "string \<Rightarrow> string option" where
  "incoming_query_of url =
     (case split_on (CHR ''?'') url of _ # q # _ \<Rightarrow> Some q | _ \<Rightarrow> None)"

definition request_host :: "request \<Rightarrow> string" where
  "request_host rq = or_else (rq_forwarded_host rq) (or_else (rq_host rq) [])"

definition error_reply_of :: "'u redirect_env \<Rightarrow> request \<Rightarrow> error_kind \<Rightarrow> string option \<Rightarrow> int option \<Rightarrow> int option \<Rightarrow> response" where
  "error_reply_of env rq kind slug activates_at retry_after =
     ErrorReply kind retry_after
       (error_response (en_page env) kind (rq_accept rq)
         \<lparr> ec_host = request_host rq, ec_slug = slug, ec_activates_at = activates_at,
            ec_web_origin = en_web_origin env \<rparr>)"

definition is_valid_unlock_token :: "'u redirect_env \<Rightarrow> string \<Rightarrow> string \<Rightarrow> bool" where
  "is_valid_unlock_token env token link_id =
     (case en_jwt_verify env token of None \<Rightarrow> False
      | Some c \<Rightarrow> claim_purpose c = Some ''unlock'' \<and> claim_sub c = Some link_id)"

text \<open>An empty text is \<open>null\<close>.\<close>

definition or_null :: "string \<Rightarrow> string option" where
  "or_null s = (if s = [] then None else Some s)"

definition user_agent_of :: "request \<Rightarrow> string" where
  "user_agent_of rq = or_else (rq_user_agent rq) []"

definition client_ip_of :: "'u redirect_env \<Rightarrow> request \<Rightarrow> string" where
  "client_ip_of env rq = client_ip_from_xff (rq_xff rq) (rq_socket_ip rq) (en_trusted_hops env)"

definition hash_of :: "'u redirect_env \<Rightarrow> request \<Rightarrow> string \<Rightarrow> string \<Rightarrow> string" where
  "hash_of env rq salt link_id =
     visitor_hash (en_hmac env) salt (client_ip_of env rq) (user_agent_of rq) link_id"

section \<open>The gate\<close>

definition gate_link_of :: "resolved_link \<Rightarrow> gate_link" where
  "gate_link_of l = \<lparr>
     g_disabled = Some (lk_disabled l), g_disabled_at = NoDate,
     g_owner_unverified = Some (lk_owner_unverified l), g_archived = lk_archived l, g_archived_at = NoDate,
     g_safe_browsing = Some (lk_safe_browsing_status l),
     g_expires_at = (case lk_expires_at l of None \<Rightarrow> NoDate | Some t \<Rightarrow> DateValue (Some t)),
     g_activates_at = (case lk_activates_at l of None \<Rightarrow> NoDate | Some t \<Rightarrow> DateValue (Some t)),
     g_click_limit = lk_click_limit l, g_clicks = Some (lk_clicks l) \<rparr>"

definition gate_for :: "resolved_link \<Rightarrow> int \<Rightarrow> effective_gate_kind option" where
  "gate_for l now = effective_gate (gate_link_of l) now"

text \<open>The gate and the reservation of one request: the verdict and the counters it leaves.\<close>

definition gate_and_reserve ::
    "'u redirect_env \<Rightarrow> int \<Rightarrow> resolved_link \<Rightarrow> counters \<Rightarrow> effective_gate_kind option \<times> counters" where
  "gate_and_reserve env now l m =
     (let blocked = gate_for l now in
      case lk_click_limit l of
        None \<Rightarrow> (blocked, m)
      | Some limit \<Rightarrow>
          if blocked = None \<or> blocked = Some (Lifecycle LClickLimit) then
            (case (if en_postgres env then postgres_reserve m (lk_id l) limit else noop_reserve m (lk_id l) limit) of
               (Reserved, m') \<Rightarrow> (None, m')
             | (Refused, m') \<Rightarrow> (Some (Lifecycle LClickLimit), m')
             | (Unavailable, m') \<Rightarrow> (blocked, m'))
          else (blocked, m))"

section \<open>Recording\<close>

definition click_event_of ::
    "'u redirect_env \<Rightarrow> request \<Rightarrow> int \<Rightarrow> resolved_link \<Rightarrow> effective_gate_kind option
      \<Rightarrow> string option \<Rightarrow> string option \<Rightarrow> string \<Rightarrow> click_event" where
  "click_event_of env rq now l blocked rule variant hash =
     (let ua = user_agent_of rq in
      \<lparr> ce_link_id = lk_id l, ce_workspace_id = lk_workspace_id l, ce_occurred_at = now, ce_visitor_hash = hash,
        ce_country = or_null (take 2 (js_upper (or_else (rq_country rq) []))),
        ce_city = or_null (take 100 (or_else (rq_city rq) [])),
        ce_device = parse_device ua, ce_browser = parse_browser ua, ce_os = parse_os ua,
        ce_referrer_host = parse_referrer_host (en_url_hostname env) (rq_referer rq),
        ce_is_qr = (\<not> truthy (rq_referer rq) \<and> parse_device ua \<noteq> Desktop),
        ce_is_bot = is_bot ua, ce_blocked_reason = blocked, ce_matched_rule_id = rule, ce_variant = variant \<rparr>)"

text \<open>\<open>record\<close>: awaited, never fatal. A salt that cannot be read or a sink that fails loses the click.\<close>

definition record_click ::
    "'u redirect_env \<Rightarrow> request \<Rightarrow> int \<Rightarrow> resolved_link \<Rightarrow> effective_gate_kind option
      \<Rightarrow> string option \<Rightarrow> string option \<Rightarrow> string option \<Rightarrow> world \<Rightarrow> world" where
  "record_click env rq now l blocked rule variant precomputed w =
     (case en_salt env now of None \<Rightarrow> w
      | Some salt \<Rightarrow>
          let hash = or_else precomputed (hash_of env rq salt (lk_id l));
              ev = click_event_of env rq now l blocked rule variant hash
          in if en_sink_accepts env ev then w\<lparr>w_clicks := w_clicks w @ [ev]\<rparr> else w)"

section \<open>The handlers\<close>

definition blocked_response ::
    "'u redirect_env \<Rightarrow> request \<Rightarrow> resolved_link \<Rightarrow> effective_gate_kind \<Rightarrow> response" where
  "blocked_response env rq l blocked =
     (if blocked = Lifecycle LExpired \<and> truthy (lk_expires_to l) then Redirect 302 (the (lk_expires_to l)) []
      else if blocked = Lifecycle LScheduled \<and> truthy (lk_scheduled_to l)
      then Redirect 302 (the (lk_scheduled_to l)) []
      else if blocked = Flagged
      then Redirect 302 (trust_page_url env (rq_slug rq) (request_host rq) [(''warning'', ''unsafe'')]) []
      else if blocked = Disabled then error_reply_of env rq DisabledPage (Some (rq_slug rq)) None None
      else if blocked = NotActive then error_reply_of env rq NotActivePage (Some (rq_slug rq)) None None
      else if blocked = Lifecycle LScheduled
      then error_reply_of env rq ScheduledPage (Some (rq_slug rq)) (lk_activates_at l) (lk_activates_at l)
      else error_reply_of env rq
             (if blocked = Lifecycle LClickLimit then ClickLimitPage else ExpiredPage) (Some (rq_slug rq)) None None)"

definition visitor_context_of :: "request \<Rightarrow> string \<Rightarrow> visitor_context" where
  "visitor_context_of rq hash = \<lparr>
     ctx_country = or_null (js_upper (or_else (rq_country rq) [])),
     ctx_device = Some (parse_device (user_agent_of rq)),
     ctx_language = parse_language (rq_accept_language rq), ctx_visitor_hash = hash \<rparr>"

definition destination_of :: "'u redirect_env \<Rightarrow> request \<Rightarrow> resolved_link \<Rightarrow> routing_decision \<Rightarrow> string" where
  "destination_of env rq l decision =
     build_destination (en_url env)
       \<lparr> opt_destination = decision_destination decision, incoming_query = incoming_query_of (rq_url rq),
          forward_query = lk_forward_query l, opt_utm = lk_utm l \<rparr>"

definition open_response ::
    "'u redirect_env \<Rightarrow> request \<Rightarrow> int \<Rightarrow> resolved_link \<Rightarrow> world \<Rightarrow> response \<times> world" where
  "open_response env rq now l w =
     (if lk_has_password l
         \<and> \<not> (truthy (rq_token rq) \<and> is_valid_unlock_token env (or_else (rq_token rq) []) (lk_id l))
      then (Redirect 302 (trust_page_url env (rq_slug rq) (request_host rq) [(''unlock'', ''1'')]) [], w)
      else case en_salt env now of None \<Rightarrow> (Failure, w)
      | Some salt \<Rightarrow>
          let hash = hash_of env rq salt (lk_id l);
              decision = evaluate_routing (lk_rules l) (lk_destination l) (visitor_context_of rq hash);
              target = build_deep_link (en_url_parts env) (destination_of env rq l decision)
                         (Some (parse_device (user_agent_of rq))) (lk_deep_link l);
              w' = record_click env rq now l None (matched_rule_id decision) (decision_variant decision) (Some hash) w
          in (Redirect (redirect_status (lk_redirect_type l)) target
                (cache_headers_for (lk_redirect_type l)
                 @ (if lk_hide_referrer l then [(''Referrer-Policy'', ''no-referrer'')] else [])), w'))"

text \<open>
  What became of a request: the reply, and, when a link was resolved, that link and the verdict of its
  gate, which are the handler's own variables at that point.
\<close>

record outcome =
  out_response :: response
  out_link :: "resolved_link option"
  out_blocked :: "effective_gate_kind option"

definition serve_link ::
    "'u redirect_env \<Rightarrow> request \<Rightarrow> int \<Rightarrow> resolved_link \<Rightarrow> world \<Rightarrow> outcome \<times> world" where
  "serve_link env rq now l w =
     (let (blocked, m) = gate_and_reserve env now l (w_reserved w);
          w1 = w\<lparr>w_reserved := m\<rparr>
      in case blocked of
           Some b \<Rightarrow>
             (\<lparr> out_response = blocked_response env rq l b, out_link = Some l, out_blocked = blocked \<rparr>,
              record_click env rq now l blocked None None None w1)
         | None \<Rightarrow>
             (case open_response env rq now l w1 of
                (r, w2) \<Rightarrow> (\<lparr> out_response = r, out_link = Some l, out_blocked = None \<rparr>, w2)))"

definition handle_slug :: "'u redirect_env \<Rightarrow> request \<Rightarrow> int \<Rightarrow> world \<Rightarrow> outcome \<times> world" where
  "handle_slug env rq now w =
     (let host = request_host rq in
      if ends_with (rq_slug rq) ''+''
      then (\<lparr> out_response = Redirect 302 (trust_page_url env (butlast (rq_slug rq)) host []) [],
              out_link = None, out_blocked = None \<rparr>, w)
      else case caching_resolve (en_codec env) (en_resolve env) (en_link_cache_ttl env) now (w_cache w) host (rq_slug rq) of
          (None, c) \<Rightarrow>
            (\<lparr> out_response =
                 (case en_resolve_domain env now host of
                    Some d \<Rightarrow>
                      if truthy (dm_not_found_redirect d) then Redirect 302 (the (dm_not_found_redirect d)) []
                      else error_reply_of env rq NotFound (Some (rq_slug rq)) None None
                  | None \<Rightarrow> error_reply_of env rq NotFound (Some (rq_slug rq)) None None),
               out_link = None, out_blocked = None \<rparr>, w\<lparr>w_cache := c\<rparr>)
        | (Some l, c) \<Rightarrow> serve_link env rq now l (w\<lparr>w_cache := c\<rparr>))"

definition handle_root :: "'u redirect_env \<Rightarrow> request \<Rightarrow> int \<Rightarrow> response" where
  "handle_root env rq now =
     (case en_resolve_domain env now (request_host rq) of
        Some d \<Rightarrow>
          if truthy (dm_root_redirect d) then Redirect 302 (the (dm_root_redirect d)) []
          else error_reply_of env rq RootPage None None None
      | None \<Rightarrow> error_reply_of env rq RootPage None None None)"

text \<open>A run of requests, each at its own instant, in the order their gates take the counter's lock.\<close>

fun serve_all :: "'u redirect_env \<Rightarrow> (request \<times> int) list \<Rightarrow> world \<Rightarrow> outcome list \<times> world" where
  "serve_all env [] w = ([], w)"
| "serve_all env ((rq, now) # rest) w =
     (let (out, w1) = handle_slug env rq now w; (outs, w2) = serve_all env rest w1 in (out # outs, w2))"

end
