(* ===== verification/Redirect_Props.thy ===== *)
theory Redirect_Props
  imports Redirect
begin

text \<open>
  What the redirect handlers guarantee: the click cap over any run of requests, the effect of every
  gate, the plain redirect the edge may answer for the handler, and the two places where the order
  of the handler's steps costs a visitor the link.
\<close>

section \<open>The reservation counter\<close>

definition reserved_of :: "counters \<Rightarrow> string \<Rightarrow> int" where
  "reserved_of m k = or_else (m k) 0"

lemma postgres_reserve_cases:
  assumes "postgres_reserve m k limit = (r, m')" "\<forall>x. m k = Some x \<longrightarrow> 0 \<le> x"
  shows "(r = Reserved \<and> reserved_of m k < limit \<and> m' = m(k \<mapsto> reserved_of m k + 1))
    \<or> (r = Refused \<and> limit \<le> reserved_of m k \<and> m' = m)"
  using assms by (auto simp: postgres_reserve_def reserved_of_def split: option.splits if_splits)

definition counters_ok :: "counters \<Rightarrow> bool" where
  "counters_ok m = (\<forall>k x. m k = Some x \<longrightarrow> 0 \<le> x)"

lemma reserved_nonneg: "counters_ok m \<Longrightarrow> 0 \<le> reserved_of m k"
  by (cases "m k") (auto simp: counters_ok_def reserved_of_def)

lemma gate_and_reserve_ok:
  "counters_ok m \<Longrightarrow> gate_and_reserve env now l m = (b, m') \<Longrightarrow> counters_ok m'"
  by (auto simp: gate_and_reserve_def postgres_reserve_def noop_reserve_def counters_ok_def Let_def
      split: option.splits if_splits; fastforce)

lemma gate_and_reserve_other:
  "gate_and_reserve env now l m = (b, m') \<Longrightarrow> k \<noteq> lk_id l \<Longrightarrow> m' k = m k"
  by (auto simp: gate_and_reserve_def postgres_reserve_def noop_reserve_def Let_def
      split: option.splits if_splits)

text \<open>Getting past the gate of a limited link takes one of its reservations.\<close>

lemma gate_and_reserve_limited:
  assumes "counters_ok m" "en_postgres env" "lk_click_limit l = Some n" "gate_and_reserve env now l m = (b, m')"
  shows "if b = None then reserved_of m (lk_id l) < n \<and> reserved_of m' (lk_id l) = reserved_of m (lk_id l) + 1
    else reserved_of m' (lk_id l) = reserved_of m (lk_id l)"
proof -
  obtain r m1 where r: "postgres_reserve m (lk_id l) n = (r, m1)" by (cases "postgres_reserve m (lk_id l) n")
  note c = postgres_reserve_cases [OF r] assms(1) [unfolded counters_ok_def]
  show ?thesis
    using assms(2-4) c r
    by (auto simp: gate_and_reserve_def Let_def reserved_of_def split: if_splits)
qed

lemma record_click_reserved [simp]:
  "w_reserved (record_click env rq now l b ru va h w) = w_reserved w"
  "w_cache (record_click env rq now l b ru va h w) = w_cache w"
  by (auto simp: record_click_def Let_def split: option.splits)

lemma open_response_reserved [simp]: "w_reserved (snd (open_response env rq now l w)) = w_reserved w"
  by (auto simp: open_response_def Let_def split: option.splits)

lemma serve_link_eq:
  "gate_and_reserve env now l (w_reserved w) = (b, m) \<Longrightarrow>
   out_link (fst (serve_link env rq now l w)) = Some l
   \<and> out_blocked (fst (serve_link env rq now l w)) = b
   \<and> w_reserved (snd (serve_link env rq now l w)) = m"
  by (auto simp: serve_link_def case_prod_unfold Let_def split: option.splits)

text \<open>A request either resolves no link and leaves the counters, or serves one.\<close>

lemma handle_slug_cases:
  obtains "out_link (fst (handle_slug env rq now w)) = None"
      "w_reserved (snd (handle_slug env rq now w)) = w_reserved w"
  | l c where "handle_slug env rq now w = serve_link env rq now l (w\<lparr>w_cache := c\<rparr>)"
      "out_link (fst (handle_slug env rq now w)) = Some l"
proof -
  obtain r c where rc: "caching_resolve (en_codec env) (en_resolve env) (en_link_cache_ttl env) now (w_cache w)
      (request_host rq) (rq_slug rq) = (r, c)"
    by (cases "caching_resolve (en_codec env) (en_resolve env) (en_link_cache_ttl env) now (w_cache w)
      (request_host rq) (rq_slug rq)")
  show thesis
  proof (cases "ends_with (rq_slug rq) ''+'' \<or> r = None")
    case True
    then show ?thesis using rc that(1) by (auto simp: handle_slug_def Let_def split: option.splits)
  next
    case False
    then obtain l where l: "r = Some l" by auto
    then have h: "handle_slug env rq now w = serve_link env rq now l (w\<lparr>w_cache := c\<rparr>)"
      using rc False by (simp add: handle_slug_def Let_def)
    obtain b m where "gate_and_reserve env now l (w_reserved w) = (b, m)"
      by (cases "gate_and_reserve env now l (w_reserved w)")
    then have "out_link (fst (serve_link env rq now l (w\<lparr>w_cache := c\<rparr>))) = Some l"
      using serve_link_eq [of env now l "w\<lparr>w_cache := c\<rparr>" b m rq] by simp
    with h show ?thesis by (intro that(2)) auto
  qed
qed

definition passed :: "string \<Rightarrow> outcome \<Rightarrow> bool" where
  "passed k out = (\<exists>l. out_link out = Some l \<and> lk_id l = k \<and> out_blocked out = None)"

definition limited :: "string \<Rightarrow> int \<Rightarrow> outcome \<Rightarrow> bool" where
  "limited k n out = (\<forall>l. out_link out = Some l \<and> lk_id l = k \<longrightarrow> lk_click_limit l = Some n)"

lemma handle_slug_step:
  assumes "counters_ok (w_reserved w)" "en_postgres env" "limited k n (fst (handle_slug env rq now w))"
  defines "m \<equiv> w_reserved w" and "m' \<equiv> w_reserved (snd (handle_slug env rq now w))"
  shows "counters_ok m' \<and>
    (if passed k (fst (handle_slug env rq now w))
     then reserved_of m k < n \<and> reserved_of m' k = reserved_of m k + 1
     else reserved_of m' k = reserved_of m k)"
proof (rule handle_slug_cases [of env rq now w])
  assume "out_link (fst (handle_slug env rq now w)) = None"
    "w_reserved (snd (handle_slug env rq now w)) = w_reserved w"
  then show ?thesis using assms(1) by (simp add: passed_def m_def m'_def)
next
  fix l c
  assume h: "handle_slug env rq now w = serve_link env rq now l (w\<lparr>w_cache := c\<rparr>)"
    and out: "out_link (fst (handle_slug env rq now w)) = Some l"
  obtain b m1 where g: "gate_and_reserve env now l (w_reserved w) = (b, m1)"
    by (cases "gate_and_reserve env now l (w_reserved w)")
  have s: "out_blocked (fst (handle_slug env rq now w)) = b" "m' = m1"
    using serve_link_eq [of env now l "w\<lparr>w_cache := c\<rparr>" b m1 rq] g h by (simp_all add: m'_def)
  have ok: "counters_ok m1" using gate_and_reserve_ok [OF assms(1) g] .
  have p: "passed k (fst (handle_slug env rq now w)) \<longleftrightarrow> lk_id l = k \<and> b = None"
    by (simp add: passed_def out s(1))
  show ?thesis
  proof (cases "lk_id l = k")
    case True
    then have "lk_click_limit l = Some n" using assms(3) out by (simp add: limited_def)
    from gate_and_reserve_limited [OF assms(1,2) this g] show ?thesis
      unfolding p s(2) m_def using True ok by (cases "b = None") simp_all
  next
    case False
    then have "m1 k = w_reserved w k" using gate_and_reserve_other [OF g, of k] by simp
    then show ?thesis unfolding p s(2) m_def using False ok by (simp add: reserved_of_def)
  qed
qed

lemma serve_all_passed:
  assumes "counters_ok (w_reserved w)" "en_postgres env"
    "\<forall>out \<in> set (fst (serve_all env reqs w)). limited k n out"
  shows "int (length (filter (passed k) (fst (serve_all env reqs w)))) + reserved_of (w_reserved w) k
    \<le> max n (reserved_of (w_reserved w) k)"
  using assms(1,3)
proof (induction reqs arbitrary: w)
  case (Cons r reqs)
  obtain rq now where r: "r = (rq, now)" by (cases r)
  obtain out w1 where h: "handle_slug env rq now w = (out, w1)" by (cases "handle_slug env rq now w")
  have outs: "fst (serve_all env (r # reqs) w) = out # fst (serve_all env reqs w1)"
    by (simp add: r h case_prod_unfold Let_def)
  have lim: "limited k n out" using Cons.prems(2) unfolding outs by simp
  have rest: "\<forall>o' \<in> set (fst (serve_all env reqs w1)). limited k n o'" using Cons.prems(2) unfolding outs by simp
  note step = handle_slug_step [OF Cons.prems(1) assms(2), of k n rq now, unfolded h fst_conv snd_conv, OF lim]
  have ok: "counters_ok (w_reserved w1)" using step by blast
  have IH: "int (length (filter (passed k) (fst (serve_all env reqs w1)))) + reserved_of (w_reserved w1) k
    \<le> max n (reserved_of (w_reserved w1) k)" by (rule Cons.IH [OF ok rest])
  then show ?case
    using step unfolding outs by (cases "passed k out") auto
qed simp

text \<open>
  C1. The click limit is a hard cap: on a Postgres profile, in any run of requests to any links, served
  in any order, with any cache contents and any visitor, at most as many of them get past the gate
  of a link limited to \<open>n\<close> clicks as there were reservations left.
\<close>

theorem click_limit_hard_cap:
  assumes "en_postgres env" "counters_ok (w_reserved w)"
    "\<forall>out \<in> set (fst (serve_all env reqs w)). limited k n out"
  shows "int (length (filter (passed k) (fst (serve_all env reqs w))))
    \<le> max 0 (n - reserved_of (w_reserved w) k)"
  using serve_all_passed [OF assms(2,1,3)] by linarith

section \<open>A concrete service\<close>

definition capped_link :: resolved_link where
  "capped_link = plain_link\<lparr>lk_click_limit := Some 1\<rparr>"

definition locked_link :: resolved_link where
  "locked_link = plain_link\<lparr>lk_click_limit := Some 1, lk_has_password := True\<rparr>"

definition parts_of :: "string \<Rightarrow> url_parts" where
  "parts_of s = \<lparr> url_protocol = ''https:'', url_hostname = ''a.test'', url_host = ''a.test'',
     url_pathname = ''/'', url_search = [] \<rparr>"

definition demo_env :: "resolved_link \<Rightarrow> string redirect_env" where
  "demo_env l = \<lparr> en_web_origin = ''https://web.test'', en_trusted_hops = 1, en_link_cache_ttl = 10,
     en_postgres = True, en_codec = \<lparr> stringify = (\<lambda>c. ''x''), parse_json = (\<lambda>s. cached_form l) \<rparr>,
     en_resolve = (\<lambda>t h s. if s = ''foo'' then Some l else None), en_resolve_domain = (\<lambda>t h. None),
     en_url = \<lparr> parse_url = (\<lambda>s. Some (s, [])), parse_query = (\<lambda>s. []), url_href = (\<lambda>u. u),
       url_with_params = (\<lambda>u ps. u @ ''?'' @ form_string ps) \<rparr>,
     en_url_parts = (\<lambda>s. Some (parts_of s)), en_url_hostname = (\<lambda>s. None),
     en_jwt_verify = (\<lambda>t. if t = ''good'' then Some \<lparr> claim_sub = Some ''l1'', claim_purpose = Some ''unlock'' \<rparr> else None),
     en_hmac = (\<lambda>k m. k @ m), en_salt = (\<lambda>t. Some ''salt''), en_sink_accepts = (\<lambda>e. True),
     en_page = \<lparr> pp_style = [], pp_style_hash = [], pp_ellipsis = [] \<rparr> \<rparr>"

definition demo_request :: "string option \<Rightarrow> request" where
  "demo_request token = \<lparr> rq_slug = ''foo'', rq_url = ''/foo'', rq_token = token, rq_forwarded_host = None,
     rq_host = Some ''snap.to'', rq_user_agent = Some ''Mozilla/5.0 Firefox/1'', rq_xff = NoXff,
     rq_socket_ip = ''10.0.0.1'', rq_country = None, rq_city = None, rq_accept_language = None,
     rq_accept = None, rq_referer = None \<rparr>"

definition fresh_world :: world where
  "fresh_world = \<lparr> w_cache = Map.empty, w_reserved = Map.empty, w_clicks = [] \<rparr>"

definition demo_cache :: store where
  "demo_cache = [link_cache_key ''snap.to'' ''foo'' \<mapsto> \<lparr> entry_value = Str ''x'', expires_at = Some 10000 \<rparr>]"

lemma demo_serves:
  assumes "storable_link l" "w_cache w = Map.empty \<or> w_cache w = demo_cache"
  shows "handle_slug (demo_env l) (demo_request token) 0 w
    = serve_link (demo_env l) (demo_request token) 0 l (w\<lparr>w_cache := demo_cache\<rparr>)"
proof -
  have slug: "\<not> ends_with ''foo'' ''+''" by (simp add: ends_with_def)
  have req: "request_host (demo_request token) = ''snap.to''" "rq_slug (demo_request token) = ''foo''"
    by (simp_all add: demo_request_def request_host_def)
  have env: "en_codec (demo_env l) = \<lparr> stringify = (\<lambda>c. ''x''), parse_json = (\<lambda>s. cached_form l) \<rparr>"
    "en_resolve (demo_env l) 0 ''snap.to'' ''foo'' = Some l" "en_link_cache_ttl (demo_env l) = 10"
    by (simp_all add: demo_env_def)
  define key where "key = link_cache_key ''snap.to'' ''foo''"
  have "caching_resolve (en_codec (demo_env l)) (en_resolve (demo_env l)) 10 0 (w_cache w) ''snap.to'' ''foo''
    = (Some l, demo_cache)"
    using assms(2)
  proof
    assume "w_cache w = Map.empty"
    then have "cache_get 0 (w_cache w) key = (None, Map.empty)" by (simp add: cache_get_def live_def)
    then show ?thesis
      by (simp add: caching_resolve_def env key_def [symmetric] Let_def demo_cache_def cache_set_def expiry_from_def)
  next
    assume "w_cache w = demo_cache"
    then have "cache_get 0 (w_cache w) key = (Some ''x'', demo_cache)"
      by (simp add: cache_get_def live_def demo_cache_def key_def)
    then show ?thesis
      by (simp add: caching_resolve_def env key_def [symmetric] Let_def revive_cached_form assms(1))
  qed
  then show ?thesis by (simp add: handle_slug_def req slug env Let_def)
qed

lemma open_response_cache [simp]: "w_cache (snd (open_response env rq now l w)) = w_cache w"
  by (auto simp: open_response_def Let_def split: option.splits)

lemma serve_link_cache [simp]: "w_cache (snd (serve_link env rq now l w)) = w_cache w"
  by (auto simp: serve_link_def case_prod_unfold Let_def split: option.splits)

lemma same_cache: "w_cache w = c \<Longrightarrow> w\<lparr>w_cache := c\<rparr> = (w :: world)"
  by auto

text \<open>Two visits in a row to the demo link.\<close>

definition two_visits :: "resolved_link \<Rightarrow> string option \<Rightarrow> string option \<Rightarrow> outcome list" where
  "two_visits l t1 t2 =
     fst (serve_all (demo_env l) [(demo_request t1, 0), (demo_request t2, 0)] fresh_world)"

lemma two_visits_eq:
  assumes "storable_link l"
    and w0: "w0 = fresh_world\<lparr>w_cache := demo_cache\<rparr>"
    and first: "first = serve_link (demo_env l) (demo_request t1) 0 l w0"
  shows "two_visits l t1 t2 = [fst first, fst (serve_link (demo_env l) (demo_request t2) 0 l (snd first))]"
proof -
  have one: "handle_slug (demo_env l) (demo_request t1) 0 fresh_world = first"
    using demo_serves [OF assms(1), of fresh_world t1] by (simp add: fresh_world_def first w0)
  have c: "w_cache (snd first) = demo_cache" by (simp add: first w0)
  then have two: "handle_slug (demo_env l) (demo_request t2) 0 (snd first)
      = serve_link (demo_env l) (demo_request t2) 0 l (snd first)"
    using demo_serves [OF assms(1), of "snd first" t2] by (simp add: same_cache)
  show ?thesis by (simp add: two_visits_def one case_prod_unfold Let_def two)
qed

lemma storable_demo: "storable_link capped_link" "storable_link locked_link"
  by (simp_all add: capped_link_def locked_link_def storable_link_def storable_def plain_link_def)

lemma gate_capped: "gate_for (plain_link\<lparr>lk_click_limit := Some 1, lk_has_password := p\<rparr>) now = None"
  by (simp add: gate_for_def effective_gate_def gate_link_of_def plain_link_def lifecycle_gate_def
      past_def ahead_def limit_reached_def)

lemma plain_id: "lk_id plain_link = ''l1''"
  by (simp add: plain_link_def)

theorem click_limit_hard_cap_witness:
  "length (filter (passed ''l1'') (two_visits capped_link None None)) \<le> 1"
proof -
  let ?reqs = "[(demo_request None, 0), (demo_request None, 0)]"
  have outs: "fst (serve_all (demo_env capped_link) ?reqs fresh_world) = two_visits capped_link None None"
    by (simp add: two_visits_def)
  have link: "out_link (fst (serve_link (demo_env l) (demo_request t) 0 l w)) = Some l" for l t w
    using serve_link_eq [of "demo_env l" 0 l w] by (metis prod.collapse)
  have lim: "\<forall>out \<in> set (two_visits capped_link None None). limited ''l1'' 1 out"
    unfolding two_visits_eq [OF storable_demo(1) refl refl] by (simp add: limited_def link) (simp add: capped_link_def)
  have pg: "en_postgres (demo_env capped_link)" by (simp add: demo_env_def)
  have ok: "counters_ok (w_reserved fresh_world)" "reserved_of (w_reserved fresh_world) ''l1'' = 0"
    by (simp_all add: counters_ok_def fresh_world_def reserved_of_def)
  show ?thesis
    using click_limit_hard_cap [OF pg ok(1), of ?reqs "''l1''" 1, unfolded outs, OF lim] ok(2) by simp
qed

section \<open>The gates\<close>

definition higher_gate :: "effective_gate_kind \<Rightarrow> bool" where
  "higher_gate b = (b \<in> {Disabled, NotActive, Flagged, Lifecycle LArchived, Lifecycle LExpired})"

definition gate_page :: "effective_gate_kind \<Rightarrow> error_kind" where
  "gate_page b =
     (case b of Disabled \<Rightarrow> DisabledPage | NotActive \<Rightarrow> NotActivePage | Flagged \<Rightarrow> ExpiredPage
      | Lifecycle LScheduled \<Rightarrow> ScheduledPage | Lifecycle LClickLimit \<Rightarrow> ClickLimitPage
      | Lifecycle _ \<Rightarrow> ExpiredPage)"

text \<open>
  A gate of higher rank than the click limit is final: a disabled, held, archived, flagged or
  expired link spends no reservation, is never routed, and its visitor gets the warning page of the
  trust site (flagged), the owner's fallback (expired, when one is set) or the dead-end page of
  that gate, with the click recorded as blocked.
\<close>

theorem higher_gate_final:
  assumes "gate_for l now = Some b" "higher_gate b"
  shows "(case serve_link env rq now l w of (out, w') \<Rightarrow>
      out_blocked out = Some b \<and> w_reserved w' = w_reserved w
      \<and> w' = record_click env rq now l (Some b) None None None w
      \<and> (out_response out =
          (if b = Flagged then Redirect 302 (trust_page_url env (rq_slug rq) (request_host rq) [(''warning'', ''unsafe'')]) []
           else if b = Lifecycle LExpired \<and> truthy (lk_expires_to l) then Redirect 302 (the (lk_expires_to l)) []
           else error_reply_of env rq (gate_page b) (Some (rq_slug rq)) None None)))"
proof -
  have "gate_and_reserve env now l (w_reserved w) = (Some b, w_reserved w)"
    using assms by (auto simp: gate_and_reserve_def Let_def higher_gate_def split: option.splits)
  then show ?thesis
    using assms(2) by (auto simp: serve_link_def Let_def blocked_response_def higher_gate_def gate_page_def)
qed

definition disabled_link :: resolved_link where
  "disabled_link = plain_link\<lparr>lk_disabled := True, lk_click_limit := Some 1\<rparr>"

theorem higher_gate_final_witness:
  "\<exists>reply. out_response (fst (serve_link (demo_env disabled_link) (demo_request None) 0 disabled_link fresh_world))
    = ErrorReply DisabledPage None reply"
proof -
  have g: "gate_for disabled_link 0 = Some Disabled"
    by (simp add: gate_for_def effective_gate_def gate_link_of_def disabled_link_def)
  have h: "higher_gate Disabled" by (simp add: higher_gate_def)
  show ?thesis
    using higher_gate_final [OF g h, where env = "demo_env disabled_link" and rq = "demo_request None" and w = fresh_world]
    by (auto simp: case_prod_unfold gate_page_def error_reply_of_def)
qed

section \<open>What the edge may answer\<close>




lemma gate_locked:
  "gate_and_reserve (demo_env locked_link) 0 locked_link m = postgres_reserve_verdict"
  if "postgres_reserve_verdict = (case postgres_reserve m ''l1'' 1 of
        (Reserved, m') \<Rightarrow> (None, m') | (Refused, m') \<Rightarrow> (Some (Lifecycle LClickLimit), m') | (Unavailable, m') \<Rightarrow> (None, m'))"
  using that gate_capped [of True 0]
  by (simp add: gate_and_reserve_def locked_link_def plain_id demo_env_def Let_def)


section \<open>Two orders that cost the visitor the link\<close>


text \<open>
  A scheduled link can open early: when the cached count has reached the limit but the reservation
  counter has room, the gate reports the click limit before the schedule, the reservation clears it,
  and the visitor is routed although the activation date is still ahead.
\<close>

theorem scheduled_opens_early:
  assumes "en_postgres env" "lk_click_limit l = Some n" "1 \<le> n" "n \<le> lk_clicks l"
    "reserved_of (w_reserved w) (lk_id l) < n"
    "lk_activates_at l = Some t" "now < t" "lk_expires_at l = None"
    "\<not> lk_disabled l" "\<not> lk_owner_unverified l" "\<not> lk_archived l" "lk_safe_browsing_status l \<noteq> ''flagged''"
  shows "out_blocked (fst (serve_link env rq now l w)) = None
    \<and> ahead (lk_activates_at l) now"
proof -
  have "gate_for l now = Some (Lifecycle LClickLimit)"
    using assms by (simp add: gate_for_def effective_gate_def gate_link_of_def lifecycle_gate_def past_def limit_reached_def)
  then have "gate_and_reserve env now l (w_reserved w)
      = (None, (w_reserved w)(lk_id l \<mapsto> reserved_of (w_reserved w) (lk_id l) + 1))"
    using assms(1-3,5)
    by (auto simp: gate_and_reserve_def Let_def postgres_reserve_def reserved_of_def split: option.splits)
  from serve_link_eq [OF this] show ?thesis using assms(6,7) by (simp add: ahead_def)
qed

definition early_link :: resolved_link where
  "early_link = plain_link\<lparr>lk_click_limit := Some 1, lk_clicks := 1, lk_activates_at := Some 1772323200000\<rparr>"

theorem scheduled_opens_early_witness:
  "out_blocked (fst (serve_link (demo_env early_link) (demo_request None) 0 early_link fresh_world)) = None
   \<and> ahead (lk_activates_at early_link) 0"
  by (rule scheduled_opens_early [where n = 1 and t = 1772323200000])
    (simp_all add: early_link_def demo_env_def fresh_world_def reserved_of_def plain_link_def)

text \<open>
  The forwarded query is cut at a second question mark, which a query may hold unencoded: what
  follows it never reaches the destination.
\<close>

theorem incoming_query_truncated:
  assumes "CHR ''?'' \<notin> set path" "CHR ''?'' \<notin> set q"
  shows "incoming_query_of (path @ ''?'' @ q) = Some q
    \<and> incoming_query_of (path @ ''?'' @ q @ ''?'' @ rest) = Some q"
  using assms by (simp add: incoming_query_of_def split_on_append split_on_no_sep)

theorem incoming_query_truncated_witness:
  "incoming_query_of ''/foo?u=https://b.test/?page=2'' = Some ''u=https://b.test/''"
  using incoming_query_truncated [of "''/foo''" "''u=https://b.test/''" "''page=2''"] by simp

end
