(* ===== verification/Salt.thy ===== *)
theory Salt
  imports Visitor Cache
begin

text \<open>
  The daily salt of the visitor hash (\<open>apps/redirect/src/salt.ts\<close>): the in-process day cache, and the
  two ways an instance loads the day's salt from a store it shares with other instances. A load is
  read, write on a miss, read again, and the steps of several instances interleave; the two sources
  differ only in the write, which is modelled as the step relation's parameter.
\<close>

section \<open>One process\<close>

record day_cache =
  cached_day :: "string option"
  cached_salt :: "string option"

text \<open>\<open>today\<close> with no load in flight: the cached salt of the day, or what \<open>load\<close> returns.\<close>

definition salt_today :: "(string \<Rightarrow> string) \<Rightarrow> int \<Rightarrow> day_cache \<Rightarrow> string \<times> day_cache" where
  "salt_today load now c =
     (let day = salt_date_key now in
      if cached_day c = Some day \<and> truthy (cached_salt c) then (the (cached_salt c), c)
      else (load day, \<lparr> cached_day = Some day, cached_salt = Some (load day) \<rparr>))"

section \<open>Loading alone\<close>

definition salt_key :: "string \<Rightarrow> string" where
  "salt_key day = ''salt#'' @ day"

definition salt_ttl_seconds :: int where
  "salt_ttl_seconds = 2 * 24 * 60 * 60"

text \<open>\<open>CacheStoreSaltCache.load\<close> at one instant, with the salt \<open>generateDailySalt\<close> would draw.\<close>

definition cache_salt_load :: "string \<Rightarrow> int \<Rightarrow> store \<Rightarrow> string \<Rightarrow> string \<times> store" where
  "cache_salt_load generated now s day =
     (case cache_get now s (salt_key day) of
        (existing, s1) \<Rightarrow>
          if truthy existing then (the existing, s1)
          else (case cache_get now (cache_set now s1 (salt_key day) generated (Some salt_ttl_seconds)) (salt_key day) of
                  (shared, s3) \<Rightarrow> (or_else shared generated, s3)))"

text \<open>\<open>PostgresSaltCache.load\<close> against the \<open>daily_salts\<close> table.\<close>

definition postgres_salt_load :: "string \<Rightarrow> (string \<rightharpoonup> string) \<Rightarrow> string \<Rightarrow> string \<times> (string \<rightharpoonup> string)" where
  "postgres_salt_load generated tbl day =
     (case tbl day of Some salt \<Rightarrow> (salt, tbl)
      | None \<Rightarrow>
          let tbl' = (if tbl day = None then tbl(day \<mapsto> generated) else tbl)
          in (or_else (tbl' day) generated, tbl'))"

lemma cache_salt_load_shared:
  assumes "cache_salt_load g now s day = (salt, s')" "g \<noteq> []" "now \<le> later" "later < now + salt_ttl_seconds * 1000"
    "\<not> truthy (fst (cache_get now s (salt_key day)))"
  shows "salt = g \<and> fst (cache_salt_load g' later s' day) = g"
proof -
  obtain e s1 where e: "cache_get now s (salt_key day) = (e, s1)" by (cases "cache_get now s (salt_key day)")
  let ?s2 = "cache_set now s1 (salt_key day) g (Some salt_ttl_seconds)"
  obtain sh s3 where sh: "cache_get now ?s2 (salt_key day) = (sh, s3)" by (cases "cache_get now ?s2 (salt_key day)")
  have ttl: "0 < salt_ttl_seconds" by (simp add: salt_ttl_seconds_def)
  have "sh = Some g" using memory_store.put_read_back [OF ttl, of now s1 "salt_key day" g] by (simp add: sh)
  then have s: "salt = g" "s' = s3"
    using assms(1,5) e by (auto simp: cache_salt_load_def sh split: if_splits)
  have "fst (cache_get later s3 (salt_key day)) = fst (cache_get later ?s2 (salt_key day))"
    using memory_store.get_get [OF assms(3), of ?s2 "salt_key day" "salt_key day"] by (simp add: sh)
  also have "\<dots> = Some g" using assms(3,4) by (simp add: memory_store.get_put)
  finally have "fst (cache_get later s' (salt_key day)) = Some g" using s by simp
  then show ?thesis using s assms(2)
    by (cases "cache_get later s' (salt_key day)") (simp add: cache_salt_load_def)
qed

section \<open>Loading together\<close>

datatype load_phase = Start | Missed | Wrote | Done string

record salt_state =
  shared_salt :: "string option"
  phase_of :: "nat \<Rightarrow> load_phase"

text \<open>\<open>INSERT ... ON CONFLICT DO NOTHING\<close> keeps the first value, the cache's \<open>set\<close> the last.\<close>

datatype salt_write = KeepFirst | KeepLast

fun salt_written :: "salt_write \<Rightarrow> string option \<Rightarrow> string \<Rightarrow> string option" where
  "salt_written KeepFirst (Some s) g = Some s"
| "salt_written KeepFirst None g = Some g"
| "salt_written KeepLast s g = Some g"

inductive salt_step :: "salt_write \<Rightarrow> (nat \<Rightarrow> string) \<Rightarrow> salt_state \<Rightarrow> salt_state \<Rightarrow> bool"
  for wr g where
  read_hit: "phase_of st i = Start \<Longrightarrow> shared_salt st = Some s
    \<Longrightarrow> salt_step wr g st (st\<lparr>phase_of := (phase_of st)(i := Done s)\<rparr>)"
| read_miss: "phase_of st i = Start \<Longrightarrow> shared_salt st = None
    \<Longrightarrow> salt_step wr g st (st\<lparr>phase_of := (phase_of st)(i := Missed)\<rparr>)"
| put_salt: "phase_of st i = Missed
    \<Longrightarrow> salt_step wr g st (st\<lparr>shared_salt := salt_written wr (shared_salt st) (g i),
          phase_of := (phase_of st)(i := Wrote)\<rparr>)"
| reread: "phase_of st i = Wrote
    \<Longrightarrow> salt_step wr g st (st\<lparr>phase_of := (phase_of st)(i := Done (or_else (shared_salt st) (g i)))\<rparr>)"

inductive_cases salt_stepE: "salt_step wr g st st'"

inductive salt_reach :: "salt_write \<Rightarrow> (nat \<Rightarrow> string) \<Rightarrow> salt_state \<Rightarrow> bool" for wr g where
  init: "salt_reach wr g \<lparr> shared_salt = None, phase_of = (\<lambda>i. Start) \<rparr>"
| step: "salt_reach wr g st \<Longrightarrow> salt_step wr g st st' \<Longrightarrow> salt_reach wr g st'"

definition agreed :: "salt_state \<Rightarrow> bool" where
  "agreed st = (\<forall>i. (\<forall>s. phase_of st i = Done s \<longrightarrow> shared_salt st = Some s)
     \<and> (phase_of st i = Wrote \<longrightarrow> shared_salt st \<noteq> None))"

lemma agreed_step:
  assumes "agreed st" "salt_step KeepFirst g st st'"
  shows "agreed st'"
  using assms(2)
proof cases
  case (put_salt i)
  then show ?thesis using assms(1)
    by (cases "shared_salt st") (auto simp: agreed_def)
next
  case (reread i)
  then obtain s where "shared_salt st = Some s" using assms(1) by (auto simp: agreed_def)
  with reread assms(1) show ?thesis by (auto simp: agreed_def)
qed (use assms(1) in \<open>auto simp: agreed_def\<close>)

lemma agreed_reach: "salt_reach KeepFirst g st \<Longrightarrow> agreed st"
proof (induction rule: salt_reach.induct)
  case init
  then show ?case by (simp add: agreed_def)
next
  case (step st st')
  then show ?case using agreed_step by blast
qed

text \<open>
  With the \<open>daily_salts\<close> table every instance hashes with the same salt: however the loads of any
  number of instances interleave, two that have finished returned the same salt, the one in the
  table.
\<close>

theorem postgres_salt_agreement:
  assumes "salt_reach KeepFirst g st" "phase_of st i = Done s" "phase_of st j = Done t"
  shows "s = t \<and> shared_salt st = Some s"
proof -
  have "shared_salt st = Some s" "shared_salt st = Some t"
    using agreed_reach [OF assms(1)] assms(2,3) unfolding agreed_def by blast+
  then show ?thesis by simp
qed

text \<open>Two instances, each reading before the other has written.\<close>

definition both_missed :: "salt_state" where
  "both_missed = \<lparr> shared_salt = None, phase_of = (\<lambda>i. Start)(0 := Missed, 1 := Missed) \<rparr>"

lemma both_missed_reach: "salt_reach wr g both_missed"
proof -
  let ?a = "\<lparr> shared_salt = None, phase_of = (\<lambda>i. Start)(0 := Missed) \<rparr>"
  have "salt_reach wr g ?a"
    using salt_reach.step [OF salt_reach.init salt_step.read_miss [of "\<lparr> shared_salt = None, phase_of = (\<lambda>i. Start) \<rparr>" 0]]
    by simp
  from salt_reach.step [OF this salt_step.read_miss [of ?a 1]] show ?thesis
    by (simp add: both_missed_def)
qed

lemma write_reread:
  assumes "salt_reach wr g st" "phase_of st i = Missed"
  shows "salt_reach wr g (st\<lparr>shared_salt := salt_written wr (shared_salt st) (g i),
    phase_of := (phase_of st)(i := Done (or_else (salt_written wr (shared_salt st) (g i)) (g i)))\<rparr>)"
proof -
  let ?st = "st\<lparr>shared_salt := salt_written wr (shared_salt st) (g i), phase_of := (phase_of st)(i := Wrote)\<rparr>"
  have "salt_reach wr g ?st" using salt_reach.step [OF assms(1) salt_step.put_salt [OF assms(2)]] .
  from salt_reach.step [OF this salt_step.reread [of ?st i]] show ?thesis by simp
qed

theorem postgres_salt_agreement_witness:
  "\<exists>st. salt_reach KeepFirst (\<lambda>i. if i = 0 then ''a'' else ''b'') st
    \<and> phase_of st 0 = Done ''a'' \<and> phase_of st 1 = Done ''a'' \<and> shared_salt st = Some ''a''"
proof -
  let ?g = "\<lambda>i :: nat. if i = 0 then ''a'' else ''b''"
  have "salt_reach KeepFirst ?g \<lparr> shared_salt = Some ''a'', phase_of = (\<lambda>i. Start)(0 := Done ''a'', 1 := Missed) \<rparr>"
    using write_reread [OF both_missed_reach, of 0 KeepFirst ?g]
    by (simp add: both_missed_def fun_upd_twist)
  from write_reread [OF this, of 1]
  have r: "salt_reach KeepFirst ?g \<lparr> shared_salt = Some ''a'', phase_of = (\<lambda>i. Start)(0 := Done ''a'', 1 := Done ''a'') \<rparr>"
    by simp
  from postgres_salt_agreement [OF r, of 0 "''a''" 1 "''a''"] r show ?thesis
    by (intro exI [of _ "\<lparr> shared_salt = Some ''a'', phase_of = (\<lambda>i. Start)(0 := Done ''a'', 1 := Done ''a'') \<rparr>"]) simp
qed

text \<open>
  With the shared cache two instances can keep different salts for the day: when one has read its
  own write back before the other writes, both re-reads succeed and disagree.
\<close>

theorem cache_salt_disagreement:
  "\<exists>st. salt_reach KeepLast (\<lambda>i. if i = 0 then ''a'' else ''b'') st
    \<and> phase_of st 0 = Done ''a'' \<and> phase_of st 1 = Done ''b''"
proof -
  let ?g = "\<lambda>i :: nat. if i = 0 then ''a'' else ''b''"
  have "salt_reach KeepLast ?g \<lparr> shared_salt = Some ''a'', phase_of = (\<lambda>i. Start)(0 := Done ''a'', 1 := Missed) \<rparr>"
    using write_reread [OF both_missed_reach, of 0 KeepLast ?g]
    by (simp add: both_missed_def fun_upd_twist)
  from write_reread [OF this, of 1]
  have "salt_reach KeepLast ?g \<lparr> shared_salt = Some ''b'', phase_of = (\<lambda>i. Start)(0 := Done ''a'', 1 := Done ''b'') \<rparr>"
    by simp
  then show ?thesis
    by (intro exI [of _ "\<lparr> shared_salt = Some ''b'', phase_of = (\<lambda>i. Start)(0 := Done ''a'', 1 := Done ''b'') \<rparr>"]) simp
qed

end
