(* ===== verification/Billing_Math.thy ===== *)
theory Billing_Math
  imports Js_Number Js_Date
begin

text \<open>
  Money (\<open>packages/contract/src/proration.ts\<close>, \<open>packages/contract/src/coupon.ts\<close>): the proration of a
  plan change, the discount of a coupon and whether it may be redeemed. Amounts are integers of
  the currency's minor unit; every quotient and product of the source is a double (\<open>dbl\<close>).
  \<open>ProrationInput.parse\<close> and the schema of \<open>CreateCouponInput\<close> throw or report, so they are options
  and issue lists.
\<close>

section \<open>Rounding minor units\<close>

definition round_minor_half_up :: "rat \<Rightarrow> int" where
  "round_minor_half_up amount = (if amount < 0 then -1 else if amount = 0 then 0 else 1) * js_round \<bar>amount\<bar>"

lemma round_minor_nonneg: "0 \<le> x \<Longrightarrow> round_minor_half_up x = js_round x"
  by (auto simp: round_minor_half_up_def)

lemma round_minor_odd: "round_minor_half_up (- x) = - round_minor_half_up x"
  by (auto simp: round_minor_half_up_def)

lemma js_round_nonneg: "0 \<le> x \<Longrightarrow> 0 \<le> js_round x"
  using js_round_mono [of 0 x] by simp

lemma js_round_less_iff: "js_round x < k \<longleftrightarrow> x < of_int k - 1 / 2"
  unfolding js_round_def by linarith

section \<open>Proration\<close>

datatype currency = INR | USD

datatype direction_kind = Upgrade | Downgrade | Same

record proration_input =
  old_period_price_minor :: int
  new_period_price_minor :: int
  period_start_ms :: int
  period_end_ms :: int
  change_at_ms :: int
  pro_currency :: currency

record proration_result =
  amount_minor :: int
  result_fraction :: rat
  old_plan_credit_minor :: int
  new_plan_charge_minor :: int
  direction :: direction_kind
  result_currency :: currency

text \<open>\<open>z.number().int()\<close> accepts the safe integers.\<close>

definition safe_int :: "int \<Rightarrow> bool" where
  "safe_int n = (- (2 ^ 53) < n \<and> n < 2 ^ 53)"

definition proration_input_ok :: "proration_input \<Rightarrow> bool" where
  "proration_input_ok i =
     (safe_int (old_period_price_minor i) \<and> 0 \<le> old_period_price_minor i
      \<and> safe_int (new_period_price_minor i) \<and> 0 \<le> new_period_price_minor i
      \<and> safe_int (period_start_ms i) \<and> safe_int (period_end_ms i) \<and> safe_int (change_at_ms i))"

definition period_length_ms :: "proration_input \<Rightarrow> rat" where
  "period_length_ms i =
     (let len = dbl (of_int (period_end_ms i - period_start_ms i)) in if 0 < len then len else 1)"

definition unused_fraction :: "proration_input \<Rightarrow> rat" where
  "unused_fraction i =
     (let len = period_length_ms i;
          clamped = min (max (change_at_ms i) (period_start_ms i)) (period_end_ms i);
          remaining = dbl (of_int (period_end_ms i - clamped))
      in if remaining \<le> 0 then 0
         else if len \<le> remaining then 1
         else dbl (remaining / len))"

definition proration_direction :: "int \<Rightarrow> int \<Rightarrow> direction_kind" where
  "proration_direction old new = (if old < new then Upgrade else if new < old then Downgrade else Same)"

definition prorate :: "proration_input \<Rightarrow> proration_result option" where
  "prorate i =
     (if \<not> proration_input_ok i then None
      else
        let fraction = unused_fraction i;
            credit = round_minor_half_up (dbl (fraction * of_int (old_period_price_minor i)));
            charge = round_minor_half_up (dbl (fraction * of_int (new_period_price_minor i)))
        in Some \<lparr> amount_minor = charge - credit, result_fraction = fraction,
                  old_plan_credit_minor = credit, new_plan_charge_minor = charge,
                  direction = proration_direction (old_period_price_minor i) (new_period_price_minor i),
                  result_currency = pro_currency i \<rparr>)"

lemma unused_fraction_range: "0 \<le> unused_fraction i \<and> unused_fraction i \<le> 1"
proof -
  have len: "0 < period_length_ms i" by (auto simp: period_length_ms_def Let_def)
  show ?thesis
    using len by (auto simp: unused_fraction_def Let_def dbl_nonneg intro!: dbl_le_1)
qed

text \<open>One rounded line of the invoice.\<close>

definition prorated :: "rat \<Rightarrow> int \<Rightarrow> int" where
  "prorated fraction price = round_minor_half_up (dbl (fraction * of_int price))"

lemma prorated_bounds:
  assumes "0 \<le> f" "f \<le> 1" "0 \<le> price" "price < 2 ^ 53"
  shows "0 \<le> prorated f price" "prorated f price \<le> price"
proof -
  have "f * of_int price \<le> of_int price"
    using assms mult_right_mono [of f 1 "of_int price"] by simp
  moreover have p: "0 \<le> f * of_int price" using assms by simp
  ultimately have "dbl (f * of_int price) \<le> of_int price" using assms(4) by (intro dbl_le_int) auto
  moreover have "0 \<le> dbl (f * of_int price)" using p by (rule dbl_nonneg)
  ultimately show "0 \<le> prorated f price" "prorated f price \<le> price"
    using js_round_mono [of "dbl (f * of_int price)" "of_int price"]
    by (auto simp: prorated_def round_minor_nonneg js_round_nonneg)
qed

lemma prorated_mono:
  assumes "0 \<le> f" "0 \<le> p" "p \<le> q"
  shows "prorated f p \<le> prorated f q"
proof -
  have a: "0 \<le> f * of_int p" "f * of_int p \<le> f * of_int q"
    using assms by (auto intro: mult_left_mono)
  then have "dbl (f * of_int p) \<le> dbl (f * of_int q)" by (rule dbl_mono)
  moreover have "0 \<le> dbl (f * of_int p)" "0 \<le> dbl (f * of_int q)" using a by (auto intro: dbl_nonneg)
  ultimately show ?thesis by (simp add: prorated_def round_minor_nonneg js_round_mono)
qed

lemma prorated_0 [simp]: "prorated 0 p = 0"
  by (simp add: prorated_def round_minor_half_up_def)

lemma prorated_1: "0 \<le> p \<Longrightarrow> p < 2 ^ 53 \<Longrightarrow> prorated 1 p = p"
  by (simp add: prorated_def round_minor_nonneg dbl_int)

text \<open>
  A proration never charges or credits more than a full period, its two lines add up to the
  amount, and the sign of the amount follows the direction: an upgrade never pays the customer,
  a downgrade never charges, and the same price settles nothing.
\<close>

theorem prorate_bounds:
  assumes "prorate i = Some r"
  shows "0 \<le> result_fraction r \<and> result_fraction r \<le> 1
    \<and> 0 \<le> old_plan_credit_minor r \<and> old_plan_credit_minor r \<le> old_period_price_minor i
    \<and> 0 \<le> new_plan_charge_minor r \<and> new_plan_charge_minor r \<le> new_period_price_minor i
    \<and> amount_minor r = new_plan_charge_minor r - old_plan_credit_minor r
    \<and> (direction r = Upgrade \<longrightarrow> 0 \<le> amount_minor r)
    \<and> (direction r = Downgrade \<longrightarrow> amount_minor r \<le> 0)
    \<and> (direction r = Same \<longrightarrow> amount_minor r = 0)"
proof -
  let ?f = "unused_fraction i" and ?o = "old_period_price_minor i" and ?n = "new_period_price_minor i"
  have ok: "0 \<le> ?o" "?o < 2 ^ 53" "0 \<le> ?n" "?n < 2 ^ 53"
    using assms by (auto simp: prorate_def proration_input_ok_def safe_int_def split: if_splits)
  have r: "result_fraction r = ?f" "old_plan_credit_minor r = prorated ?f ?o"
    "new_plan_charge_minor r = prorated ?f ?n" "amount_minor r = prorated ?f ?n - prorated ?f ?o"
    "direction r = proration_direction ?o ?n"
    using assms by (auto simp: prorate_def prorated_def Let_def split: if_splits)
  have f: "0 \<le> ?f" "?f \<le> 1" using unused_fraction_range by auto
  have "direction r = Upgrade \<longrightarrow> 0 \<le> amount_minor r"
    using prorated_mono [OF f(1) ok(1), of ?n] r by (auto simp: proration_direction_def split: if_splits)
  moreover have "direction r = Downgrade \<longrightarrow> amount_minor r \<le> 0"
    using prorated_mono [OF f(1) ok(3), of ?o] r by (auto simp: proration_direction_def split: if_splits)
  moreover have "direction r = Same \<longrightarrow> amount_minor r = 0"
    using r by (auto simp: proration_direction_def split: if_splits)
  ultimately show ?thesis
    using f prorated_bounds [OF f ok(1,2)] prorated_bounds [OF f ok(3,4)] r by simp
qed

definition example_proration :: proration_input where
  "example_proration = \<lparr> old_period_price_minor = 5900, new_period_price_minor = 9900,
     period_start_ms = 1000, period_end_ms = 5000, change_at_ms = 500, pro_currency = INR \<rparr>"

lemma example_proration_fraction: "unused_fraction example_proration = 1"
  by (simp add: unused_fraction_def period_length_ms_def example_proration_def Let_def)

theorem prorate_bounds_witness:
  "\<exists>r. prorate example_proration = Some r \<and> direction r = Upgrade \<and> 0 \<le> amount_minor r"
proof -
  have "proration_input_ok example_proration"
    by (simp add: proration_input_ok_def safe_int_def example_proration_def)
  then obtain r where r: "prorate example_proration = Some r" "direction r = Upgrade"
    by (auto simp: prorate_def Let_def example_proration_def proration_direction_def)
  from prorate_bounds [OF r(1)] r show ?thesis by blast
qed

text \<open>
  The clamped ends of the period are exact: a change dated at or before the start of the period
  settles the full difference of the prices, and one dated at or after its end settles nothing.
\<close>

theorem prorate_ends:
  assumes "prorate i = Some r" "period_start_ms i < period_end_ms i"
  shows "(change_at_ms i \<le> period_start_ms i
      \<longrightarrow> amount_minor r = new_period_price_minor i - old_period_price_minor i)
    \<and> (period_end_ms i \<le> change_at_ms i \<longrightarrow> amount_minor r = 0)"
proof -
  let ?f = "unused_fraction i" and ?o = "old_period_price_minor i" and ?n = "new_period_price_minor i"
  have ok: "0 \<le> ?o" "?o < 2 ^ 53" "0 \<le> ?n" "?n < 2 ^ 53"
    using assms by (auto simp: prorate_def proration_input_ok_def safe_int_def split: if_splits)
  have a: "amount_minor r = prorated ?f ?n - prorated ?f ?o"
    using assms(1) by (auto simp: prorate_def prorated_def Let_def split: if_splits)
  have "0 < (of_int (period_end_ms i - period_start_ms i) :: rat)"
    using assms(2) by (simp only: of_int_0_less_iff)
  then have len: "0 < dbl (of_int (period_end_ms i - period_start_ms i))" by (rule dbl_strict_pos)
  have "?f = 1" if "change_at_ms i \<le> period_start_ms i"
    using that assms(2) len by (simp add: unused_fraction_def period_length_ms_def Let_def max_absorb2 min_absorb1)
  moreover have "?f = 0" if "period_end_ms i \<le> change_at_ms i"
    using that assms(2) by (simp add: unused_fraction_def Let_def max_absorb1 min_absorb2)
  ultimately show ?thesis using a ok by (simp add: prorated_1)
qed

theorem prorate_ends_witness:
  "\<exists>r. prorate example_proration = Some r \<and> amount_minor r = 4000"
proof -
  have "proration_input_ok example_proration"
    by (simp add: proration_input_ok_def safe_int_def example_proration_def)
  then obtain r where r: "prorate example_proration = Some r"
    by (auto simp: prorate_def Let_def)
  from prorate_ends [OF this] r show ?thesis by (simp add: example_proration_def)
qed

definition inexact_proration :: proration_input where
  "inexact_proration = \<lparr> old_period_price_minor = 0, new_period_price_minor = 100,
     period_start_ms = 0, period_end_ms = 200, change_at_ms = 171, pro_currency = INR \<rparr>"

lemma dbl_29_200: "dbl (29 / 200) = 5224175567749775 / 36028797018963968"
  using dbl_eqI [of "29 / 200" "-3" 5224175567749775] by (simp add: power_int_def field_simps)

lemma dbl_14_5_below: "dbl (130604389193744375 / 9007199254740992) = 8162774324609023 / 562949953421312"
  using dbl_eqI [of "130604389193744375 / 9007199254740992" 3 8162774324609023]
  by (simp add: power_int_def field_simps)

text \<open>
  The proration is not exact to the minor unit: with 29 of 200 milliseconds of the period left,
  a price of 100 prorates to 14, although the exact share is 14.5 and rounds half up to 15.
\<close>

theorem prorate_inexact:
  "(\<exists>r. prorate inexact_proration = Some r \<and> new_plan_charge_minor r = 14)
   \<and> \<lfloor>(29 / 200 :: rat) * 100 + 1 / 2\<rfloor> = 15"
proof -
  have "proration_input_ok inexact_proration"
    by (simp add: proration_input_ok_def safe_int_def inexact_proration_def)
  moreover have f: "unused_fraction inexact_proration = dbl (29 / 200)"
    by (simp add: unused_fraction_def period_length_ms_def inexact_proration_def Let_def)
  moreover have "prorated (dbl (29 / 200)) 100 = 14"
    by (simp add: prorated_def dbl_29_200 dbl_14_5_below round_minor_nonneg js_round_def floor_eq_iff)
  moreover have "new_period_price_minor inexact_proration = 100"
    by (simp add: inexact_proration_def)
  ultimately show ?thesis
    by (auto simp: prorate_def Let_def prorated_def)
qed

section \<open>Coupons\<close>

datatype coupon_kind = Percent | Fixed

datatype coupon_duration = Once | Repeating | Forever

datatype interval = Monthly | Yearly

definition discount_minor :: "coupon_kind \<Rightarrow> int \<Rightarrow> int \<Rightarrow> int" where
  "discount_minor kind val base_minor =
     (let raw = (if kind = Percent
                 then round_minor_half_up (dbl (dbl (of_int (base_minor * val)) / 100)) else val)
      in max 0 (min raw base_minor))"

definition apply_discount :: "coupon_kind \<Rightarrow> int \<Rightarrow> int \<Rightarrow> int" where
  "apply_discount kind val base_minor = base_minor - discount_minor kind val base_minor"

record redeemable_coupon =
  rc_kind :: coupon_kind
  rc_duration :: coupon_duration
  rc_duration_months :: "int option"
  rc_expires_at :: "string option"
  rc_max_redemptions :: "int option"
  rc_paused_at :: "string option"
  rc_restrict_plan_keys :: "string list option"
  rc_restrict_interval :: "interval option"

datatype rejection_kind = Paused | CouponExpired | MaxRedemptionsReached | PlanNotAllowed | IntervalNotAllowed

definition coupon_rejection ::
    "redeemable_coupon \<Rightarrow> string \<Rightarrow> interval \<Rightarrow> int \<Rightarrow> int \<Rightarrow> rejection_kind option" where
  "coupon_rejection c plan_key interval redemption_count now =
     (if rc_paused_at c \<noteq> None then Some Paused
      else if (case rc_expires_at c of None \<Rightarrow> False
               | Some s \<Rightarrow> (case parse_iso s of None \<Rightarrow> False | Some t \<Rightarrow> t \<le> now)) then Some CouponExpired
      else if (case rc_max_redemptions c of None \<Rightarrow> False | Some m \<Rightarrow> m \<le> redemption_count)
      then Some MaxRedemptionsReached
      else if (case rc_restrict_plan_keys c of None \<Rightarrow> False | Some ks \<Rightarrow> js_lower plan_key \<notin> set ks)
      then Some PlanNotAllowed
      else if (case rc_restrict_interval c of None \<Rightarrow> False | Some i \<Rightarrow> i \<noteq> interval)
      then Some IntervalNotAllowed
      else None)"

datatype coupon_issue = PercentOver100 | FixedNeedsCurrency | RepeatingNeedsMonths | MonthsNotAllowed

text \<open>The cross-field rules of \<open>CreateCouponInput\<close>, in the order its refinement reports them.\<close>

definition create_coupon_issues ::
    "coupon_kind \<Rightarrow> int \<Rightarrow> currency option \<Rightarrow> coupon_duration \<Rightarrow> int option \<Rightarrow> coupon_issue list" where
  "create_coupon_issues kind val cur dur months =
     (if kind = Percent \<and> 100 < val then [PercentOver100] else [])
     @ (if kind = Fixed \<and> cur = None then [FixedNeedsCurrency] else [])
     @ (if dur = Repeating \<and> months = None then [RepeatingNeedsMonths] else [])
     @ (if dur \<noteq> Repeating \<and> months \<noteq> None then [MonthsNotAllowed] else [])"

text \<open>A quotient by 100 rounds to a double on the same side of every half.\<close>

lemma round_hundredth:
  assumes "0 \<le> n" "n < 2 ^ 40"
  shows "js_round (dbl (of_int n / 100)) = (n + 50) div 100"
proof -
  define k where "k = (n + 50) div 100"
  have k: "100 * k \<le> n + 50" "n + 50 < 100 * k + 100" using assms unfolding k_def by linarith+
  have k0: "0 \<le> k" "k < 2 ^ 40" using k assms by linarith+
  have "dbl (of_int (128 * (k :: int) + 63) * 2 powi (-7)) = of_int (128 * k + 63) * 2 powi (-7)"
    by (rule dbl_dyadic) (use k0 in simp)
  then have up: "dbl ((128 * of_int k + 63) / 128) = (128 * of_int k + 63) / 128"
    by (simp add: power_int_def power_one_over)
  have "dbl (of_int (2 * (k :: int) - 1) * 2 powi (-1)) = of_int (2 * k - 1) * 2 powi (-1)"
    by (rule dbl_dyadic) (use k0 in simp)
  then have lo: "dbl ((2 * of_int k - 1) / 2) = (2 * of_int k - 1) / 2"
    by (simp add: power_int_def)
  have kr: "100 * (of_int k :: rat) \<le> of_int n + 50" "of_int n \<le> 100 * (of_int k :: rat) + 49"
  proof -
    have "(of_int (100 * k) :: rat) \<le> of_int (n + 50)" "(of_int n :: rat) \<le> of_int (100 * k + 49)"
      unfolding of_int_le_iff using k by linarith+
    then show "100 * (of_int k :: rat) \<le> of_int n + 50" "of_int n \<le> 100 * (of_int k :: rat) + 49" by simp_all
  qed
  have n0: "0 \<le> (of_int n :: rat) / 100" using assms by simp
  have "(of_int n :: rat) / 100 \<le> (128 * of_int k + 63) / 128" using kr(2) by (simp add: field_simps)
  then have "dbl (of_int n / 100) \<le> (128 * of_int k + 63) / 128" using dbl_mono [OF n0] up by metis
  then have hi: "dbl (of_int n / 100) < of_int k + 1 / 2" by (simp add: field_simps)
  have "of_int k - 1 / 2 \<le> dbl (of_int n / 100)"
  proof (cases "k = 0")
    case True
    then show ?thesis using dbl_nonneg [OF n0] by simp
  next
    case False
    have "(2 * of_int k - 1) / 2 \<le> (of_int n :: rat) / 100" using kr(1) by (simp add: field_simps)
    moreover have "(1 :: rat) \<le> of_int k" using False k0 by linarith
    then have "0 \<le> (2 * of_int k - 1) / (2 :: rat)" by simp
    ultimately have "(2 * of_int k - 1) / 2 \<le> dbl (of_int n / 100)" using dbl_mono lo by metis
    then show ?thesis by (simp add: field_simps)
  qed
  with hi show ?thesis unfolding k_def [symmetric] js_round_def floor_eq_iff by (simp add: field_simps)
qed

text \<open>
  The percent discount is exact to the minor unit although it is computed in doubles: over the
  whole range of prices and percentages the schemas allow it is \<open>base * percent / 100\<close> rounded half
  up, between nothing and the price.
\<close>

theorem discount_percent_exact:
  assumes "0 \<le> base" "base \<le> 100000000" "1 \<le> p" "p \<le> 100"
  shows "discount_minor Percent p base = (base * p + 50) div 100
    \<and> 0 \<le> apply_discount Percent p base \<and> apply_discount Percent p base \<le> base"
proof -
  have n: "0 \<le> base * p" using assms by simp
  have "base * p \<le> 100000000 * 100" using assms by (intro mult_mono) auto
  then have n2: "base * p < 2 ^ 40" by simp
  have "dbl (of_int (base * p)) = of_int (base * p)" using n n2 by (intro dbl_int) simp
  moreover have "0 \<le> dbl (of_int (base * p) / 100)" using n by (intro dbl_nonneg) (simp flip: of_int_mult)
  ultimately have raw: "round_minor_half_up (dbl (dbl (of_int (base * p)) / 100)) = (base * p + 50) div 100"
    using round_hundredth [OF n n2] by (simp only: round_minor_nonneg)
  have "base * p \<le> base * 100" using assms by (intro mult_left_mono) auto
  then have "(base * p + 50) div 100 \<le> base" by linarith
  moreover have "0 \<le> (base * p + 50) div 100" using n by simp
  ultimately show ?thesis
    using raw by (simp add: discount_minor_def apply_discount_def Let_def)
qed

theorem discount_percent_exact_witness: "discount_minor Percent 15 5900 = 885"
  using discount_percent_exact [of 5900 15] by simp

definition rule_broken :: "redeemable_coupon \<Rightarrow> string \<Rightarrow> interval \<Rightarrow> int \<Rightarrow> int \<Rightarrow> rejection_kind \<Rightarrow> bool" where
  "rule_broken c plan_key interval n now r =
     (case r of
        Paused \<Rightarrow> rc_paused_at c \<noteq> None
      | CouponExpired \<Rightarrow> (\<exists>s \<in> set_option (rc_expires_at c). \<exists>t \<in> set_option (parse_iso s). t \<le> now)
      | MaxRedemptionsReached \<Rightarrow> (\<exists>m \<in> set_option (rc_max_redemptions c). m \<le> n)
      | PlanNotAllowed \<Rightarrow> (\<exists>ks \<in> set_option (rc_restrict_plan_keys c). js_lower plan_key \<notin> set ks)
      | IntervalNotAllowed \<Rightarrow> (\<exists>i \<in> set_option (rc_restrict_interval c). i \<noteq> interval))"

text \<open>
  A coupon that may be redeemed breaks none of its rules, and a refusal names the first rule
  broken in the order paused, expired, cap, plan, interval.
\<close>

theorem coupon_rejection_first:
  "coupon_rejection c plan_key interval n now
   = find (rule_broken c plan_key interval n now)
       [Paused, CouponExpired, MaxRedemptionsReached, PlanNotAllowed, IntervalNotAllowed]"
  by (auto simp: coupon_rejection_def rule_broken_def split: option.splits)

lemma discount_clamped: "0 \<le> base \<Longrightarrow> 0 \<le> discount_minor k v base \<and> discount_minor k v base \<le> base"
  by (simp add: discount_minor_def Let_def)

text \<open>A cap is never passed by redeeming one at a time, each after a check on the live count.\<close>

lemma redemption_cap:
  "coupon_rejection c plan interval n now = None \<Longrightarrow> rc_max_redemptions c = Some m \<Longrightarrow> n + 1 \<le> m"
  by (auto simp: coupon_rejection_def split: option.splits if_splits)

end
