(* ===== verification/Http_Url.thy ===== *)
theory Http_Url
  imports Js_Number Js_Date Hll
begin

text \<open>
  What the API accepts on the way in: the URL guard (\<open>packages/contract/src/http-url.ts\<close>) and the
  scalar inputs of a link (\<open>packages/contract/src/link.ts\<close>: click limit, date, weight). A value that is
  refused is \<open>False\<close> or the problem. The WHATWG parser is the parameter of \<open>http_url_ok\<close>.
\<close>

section \<open>Denied addresses\<close>

text \<open>The number of a part, when it is an integer between 0 and 255.\<close>

definition octet_of :: "string \<Rightarrow> int option" where
  "octet_of p =
     (case js_number p of None \<Rightarrow> None
      | Some q \<Rightarrow> if of_int \<lfloor>q\<rfloor> = q \<and> 0 \<le> q \<and> q \<le> 255 then Some \<lfloor>q\<rfloor> else None)"

definition denied_octets :: "int \<Rightarrow> int \<Rightarrow> bool" where
  "denied_octets a b =
     (a = 0 \<or> a = 10 \<or> a = 127 \<or> a = 169 \<and> b = 254 \<or> a = 172 \<and> 16 \<le> b \<and> b \<le> 31
      \<or> a = 192 \<and> b = 168 \<or> a = 100 \<and> 64 \<le> b \<and> b \<le> 127)"

definition is_denied_ipv4 :: "string \<Rightarrow> bool" where
  "is_denied_ipv4 host =
     (case map octet_of (split_on (CHR ''.'') host) of
        [Some a, Some b, Some c, Some d] \<Rightarrow> denied_octets a b
      | _ \<Rightarrow> False)"

text \<open>\<open>parseInt(s, 16)\<close>: white space, a sign, a prefix \<open>0x\<close>, then the longest run of hex digits.\<close>

definition parse_hex :: "string \<Rightarrow> int option" where
  "parse_hex s =
     (let t = dropWhile is_js_space s;
          neg = starts_with t ''-'';
          u = (if neg \<or> starts_with t ''+'' then drop 1 t else t);
          v = (if starts_with u ''0x'' \<or> starts_with u ''0X'' then drop 2 u else u);
          ds = takeWhile is_hex v
      in if ds = [] then None
         else Some (if neg then - int (hex_val ds) else int (hex_val ds)))"

definition strip_brackets :: "string \<Rightarrow> string" where
  "strip_brackets raw =
     (let s = (if starts_with raw ''['' then drop 1 raw else raw)
      in if ends_with s '']'' then butlast s else s)"

definition octet_at :: "int \<Rightarrow> nat \<Rightarrow> int" where
  "octet_at n k = n div 2 ^ k mod 256"

definition dotted :: "int \<Rightarrow> int \<Rightarrow> string" where
  "dotted hi lo =
     join_with ''.'' (map (\<lambda>n. show_nat (nat n)) [octet_at hi 8, octet_at hi 0, octet_at lo 8, octet_at lo 0])"

text \<open>What the \<open>.\<close> of a regular expression matches.\<close>

definition not_line_end :: "char \<Rightarrow> bool" where
  "not_line_end c = (cu c \<noteq> 10 \<and> cu c \<noteq> 13)"

definition is_denied_ipv6 :: "string \<Rightarrow> bool" where
  "is_denied_ipv6 raw =
     (let host = js_lower (hd (split_on (CHR ''%'') (strip_brackets raw)));
          first_group = parse_hex (hd (split_on (CHR '':'') host))
      in if host = ''::'' \<or> host = ''::1'' then True
         else if (case first_group of None \<Rightarrow> False | Some n \<Rightarrow> 0xfe80 \<le> n \<and> n \<le> 0xfebf) then True
         else if starts_with host ''fc'' \<or> starts_with host ''fd'' then True
         else if starts_with host ''::ffff:'' \<and> takeWhile not_line_end (drop 7 host) \<noteq> [] then
           (let tail = takeWhile not_line_end (drop 7 host) in
            if CHR ''.'' \<in> set tail then is_denied_ipv4 tail
            else case map parse_hex (split_on (CHR '':'') tail) of
                   [Some hi, Some lo] \<Rightarrow> is_denied_ipv4 (dotted hi lo)
                 | _ \<Rightarrow> False)
         else False)"

definition is_denied_host :: "string \<Rightarrow> bool" where
  "is_denied_host host =
     (let h = js_lower host in
      if h = ''localhost'' \<or> ends_with h ''.localhost'' then True
      else if CHR '':'' \<in> set h then is_denied_ipv6 h
      else is_denied_ipv4 h)"

record parsed_url =
  pu_protocol :: string
  pu_username :: string
  pu_password :: string
  pu_hostname :: string

definition http_url_max_length :: nat where
  "http_url_max_length = 2048"

definition control_char :: "char \<Rightarrow> bool" where
  "control_char c = (cu c < 32 \<or> cu c = 127)"

text \<open>What \<open>HttpUrl\<close> accepts: the raw text first, then its parse.\<close>

definition http_url_ok :: "(string \<Rightarrow> parsed_url option) \<Rightarrow> string \<Rightarrow> bool" where
  "http_url_ok parse text =
     (length text \<le> http_url_max_length \<and> \<not> list_ex control_char text
      \<and> (case parse text of None \<Rightarrow> False
         | Some u \<Rightarrow>
             (pu_protocol u = ''http:'' \<or> pu_protocol u = ''https:'')
             \<and> pu_username u = [] \<and> pu_password u = [] \<and> \<not> is_denied_host (pu_hostname u)))"

text \<open>The dotted form of an address, as the parser prints it.\<close>

definition dotted_quad :: "nat \<Rightarrow> nat \<Rightarrow> nat \<Rightarrow> nat \<Rightarrow> string" where
  "dotted_quad a b c d = join_with ''.'' (map show_nat [a, b, c, d])"

lemma show_nat_no_dot: "CHR ''.'' \<notin> set (show_nat n)"
  using show_nat_digits [of n] by (auto simp: is_digit_def cu_def)

lemma split_dotted_quad:
  "split_on (CHR ''.'') (dotted_quad a b c d) = [show_nat a, show_nat b, show_nat c, show_nat d]"
  by (simp add: dotted_quad_def split_on_append_sep split_on_no_sep show_nat_no_dot)

lemma octet_of_show: "n < 256 \<Longrightarrow> octet_of (show_nat n) = Some (int n)"
  by (simp add: octet_of_def)

lemma is_denied_quad:
  "a < 256 \<Longrightarrow> b < 256 \<Longrightarrow> c < 256 \<Longrightarrow> d < 256 \<Longrightarrow>
   is_denied_ipv4 (dotted_quad a b c d) = denied_octets (int a) (int b)"
  by (simp add: is_denied_ipv4_def split_dotted_quad octet_of_show)

text \<open>The blocks the rule names, as ranges of the 32-bit address.\<close>

definition address :: "nat \<Rightarrow> nat \<Rightarrow> nat \<Rightarrow> nat \<Rightarrow> nat" where
  "address a b c d = ((a * 256 + b) * 256 + c) * 256 + d"

definition in_block :: "nat \<Rightarrow> nat \<Rightarrow> nat \<Rightarrow> nat \<Rightarrow> bool" where
  "in_block a b len n = (n div 2 ^ (32 - len) = address a b 0 0 div 2 ^ (32 - len))"

definition denied_block :: "nat \<Rightarrow> bool" where
  "denied_block n =
     (in_block 0 0 8 n \<or> in_block 10 0 8 n \<or> in_block 127 0 8 n \<or> in_block 169 254 16 n
      \<or> in_block 172 16 12 n \<or> in_block 192 168 16 n \<or> in_block 100 64 10 n)"

lemma address_div:
  assumes "b < 256" "c < 256" "d < 256"
  shows "address a b c d div 2 ^ 24 = a" "address a b c d div 2 ^ 16 = a * 256 + b"
    "address a b c d div 2 ^ 20 = a * 16 + b div 16" "address a b c d div 2 ^ 22 = a * 4 + b div 64"
proof -
  have step: "(k * 256 + r) div 256 = k" if "r < 256" for k r :: nat using that by simp
  have "address a b c d div 2 ^ 16 = address a b c d div 256 div 256" by (simp flip: div_mult2_eq)
  also have "\<dots> = a * 256 + b" unfolding address_def step [OF assms(3)] step [OF assms(2)] ..
  finally show 16: "address a b c d div 2 ^ 16 = a * 256 + b" .
  have "address a b c d div 2 ^ 24 = address a b c d div 2 ^ 16 div 256" by (simp flip: div_mult2_eq)
  then show "address a b c d div 2 ^ 24 = a" unfolding 16 step [OF assms(1)] .
  have "address a b c d div 2 ^ 20 = address a b c d div 2 ^ 16 div 16" by (simp flip: div_mult2_eq)
  also have "\<dots> = (b + a * 16 * 16) div 16" unfolding 16 by (simp add: add.commute)
  also have "\<dots> = a * 16 + b div 16" by simp
  finally show "address a b c d div 2 ^ 20 = a * 16 + b div 16" .
  have "address a b c d div 2 ^ 22 = address a b c d div 2 ^ 16 div 64" by (simp flip: div_mult2_eq)
  also have "\<dots> = (b + a * 4 * 64) div 64" unfolding 16 by (simp add: add.commute)
  also have "\<dots> = a * 4 + b div 64" by simp
  finally show "address a b c d div 2 ^ 22 = a * 4 + b div 64" .
qed

lemma pair_eq: "r < k \<Longrightarrow> s < k \<Longrightarrow> (a * k + r = c * k + s) = (a = c \<and> r = s)" for a c k r s :: nat
  by (metis add_left_cancel div_mult_self3 div_less add.right_neutral less_nat_zero_code)

lemma div_window: "0 < k \<Longrightarrow> (b div k = q) = (q * k \<le> b \<and> b < (q + 1) * k)" for b k q :: nat
  by (metis Suc_eq_plus1 div_nat_eqI dividend_less_div_times div_times_less_eq_dividend mult.commute
      add.commute mult_Suc)

lemma denied_block_octets:
  assumes "a < 256" "b < 256" "c < 256" "d < 256"
  shows "denied_block (address a b c d) = denied_octets (int a) (int b)"
proof -
  have small: "b div 16 < 16" "b div 64 < 4" using assms(2) by (simp_all add: less_mult_imp_div_less)
  have blocks: "(a * 16 + b div 16 = 172 * 16 + 1) = (a = 172 \<and> b div 16 = 1)"
    "(a * 4 + b div 64 = 100 * 4 + 1) = (a = 100 \<and> b div 64 = 1)"
    "(a * 256 + b = 169 * 256 + 254) = (a = 169 \<and> b = 254)"
    "(a * 256 + b = 192 * 256 + 168) = (a = 192 \<and> b = 168)"
    by (intro pair_eq small assms(2); simp)+
  have windows: "(b div 16 = 1) = (16 \<le> b \<and> b \<le> 31)" "(b div 64 = 1) = (64 \<le> b \<and> b \<le> 127)"
    by (auto simp: div_window)
  have nets: "address 172 16 0 0 div 2 ^ 20 = 172 * 16 + 1" "address 100 64 0 0 div 2 ^ 22 = 100 * 4 + 1"
    "address 169 254 0 0 div 2 ^ 16 = 169 * 256 + 254" "address 192 168 0 0 div 2 ^ 16 = 192 * 256 + 168"
    "address n 0 0 0 div 2 ^ 24 = n" for n
    by (simp_all add: address_def)
  have blk: "in_block 172 16 12 (address a b c d) = (a * 16 + b div 16 = 172 * 16 + 1)"
    "in_block 100 64 10 (address a b c d) = (a * 4 + b div 64 = 100 * 4 + 1)"
    "in_block 169 254 16 (address a b c d) = (a * 256 + b = 169 * 256 + 254)"
    "in_block 192 168 16 (address a b c d) = (a * 256 + b = 192 * 256 + 168)"
    "in_block n 0 8 (address a b c d) = (a = n)" for n
    using address_div [OF assms(2-4), of a] nets by (simp_all add: in_block_def)
  show ?thesis
    unfolding denied_block_def denied_octets_def blk blocks windows by auto
qed

text \<open>
  A URL whose host is an IPv4 address is refused exactly when the address lies in one of the blocks
  the guard names (0/8, 10/8, 127/8, 169.254/16, 172.16/12, 192.168/16, 100.64/10), so the metadata
  service and every private address are refused and no public address is.
\<close>

theorem denied_ipv4_exact:
  assumes "a < 256" "b < 256" "c < 256" "d < 256"
  shows "is_denied_ipv4 (dotted_quad a b c d) = denied_block (address a b c d)"
  using is_denied_quad [OF assms] denied_block_octets [OF assms] by simp

theorem denied_ipv4_exact_witness:
  "is_denied_ipv4 (dotted_quad 169 254 169 254) \<and> \<not> is_denied_ipv4 (dotted_quad 172 32 0 1)"
proof -
  have "denied_block (address 169 254 169 254)" "\<not> denied_block (address 172 32 0 1)"
    by (simp_all add: denied_block_def in_block_def address_def)
  then show ?thesis
    using denied_ipv4_exact [of 169 254 169 254] denied_ipv4_exact [of 172 32 0 1] by simp
qed

section \<open>Mapped addresses\<close>

definition hex_group :: "string \<Rightarrow> bool" where
  "hex_group s = (s \<noteq> [] \<and> (\<forall>c \<in> set s. is_hex c \<and> js_lower_char c = c))"

lemma hex_group_chars:
  assumes "hex_group s"
  shows "js_lower s = s" "CHR '':'' \<notin> set s" "CHR ''.'' \<notin> set s" "CHR ''%'' \<notin> set s" "CHR '']'' \<notin> set s"
proof -
  have "map js_lower_char s = s" using assms by (intro map_idI) (simp add: hex_group_def)
  then show "js_lower s = s" by (simp add: js_lower_def)
  have "\<not> is_hex CHR '':''" "\<not> is_hex CHR ''.''" "\<not> is_hex CHR ''%''" "\<not> is_hex CHR '']''"
    by (simp_all add: is_hex_def is_digit_def cu_def)
  then show "CHR '':'' \<notin> set s" "CHR ''.'' \<notin> set s" "CHR ''%'' \<notin> set s" "CHR '']'' \<notin> set s"
    using assms by (auto simp: hex_group_def)
qed

lemma hex_group_line: "hex_group s \<Longrightarrow> c \<in> set s \<Longrightarrow> not_line_end c"
  by (auto simp: hex_group_def is_hex_def is_digit_def not_line_end_def)

lemma parse_hex_group:
  assumes "hex_group s"
  shows "parse_hex s = Some (int (hex_val s))"
proof -
  obtain c cs where s: "s = c # cs" using assms by (cases s) (auto simp: hex_group_def)
  have h: "\<forall>x \<in> set s. is_hex x" using assms by (simp add: hex_group_def)
  then have "is_hex c" by (simp add: s)
  then have "\<not> is_js_space c" "c \<noteq> CHR ''-''" "c \<noteq> CHR ''+''"
    by (auto simp: is_hex_def is_digit_def is_js_space_def cu_def)
  then have t: "dropWhile is_js_space s = s" "\<not> starts_with s ''-''" "\<not> starts_with s ''+''"
    by (auto simp: s starts_with_def)
  have "\<not> is_hex CHR ''x''" "\<not> is_hex CHR ''X''" by (simp_all add: is_hex_def is_digit_def cu_def)
  then have x: "\<not> starts_with s ''0x''" "\<not> starts_with s ''0X''"
    using h by (auto simp: starts_with_iff)
  have "takeWhile is_hex s = s" using h by (rule takeWhile_all)
  then show ?thesis using t x by (simp add: parse_hex_def Let_def s)
qed

lemma octet_at_bounds: "0 \<le> octet_at n k" "octet_at n k < 256"
  by (simp_all add: octet_at_def)

text \<open>
  The compressed form of an IPv4-mapped address does not slip past the guard: a bracketed
  \<open>::ffff:hhhh:llll\<close> is refused exactly when the IPv4 address its two groups carry is.
\<close>

theorem denied_ipv4_mapped:
  assumes "hex_group h" "hex_group l"
  shows "is_denied_host (''[::ffff:'' @ h @ '':'' @ l @ '']'')
    = denied_octets (octet_at (int (hex_val h)) 8) (octet_at (int (hex_val h)) 0)"
proof -
  note H = hex_group_chars [OF assms(1)] and L = hex_group_chars [OF assms(2)]
  let ?host = "''::ffff:'' @ h @ '':'' @ l"
  have low: "js_lower (''[::ffff:'' @ h @ '':'' @ l @ '']'') = ''[::ffff:'' @ h @ '':'' @ l @ '']''"
    "js_lower ?host = ?host"
    using H(1) L(1) by (simp_all add: js_lower_def js_lower_char_def cu_def)
  have br: "strip_brackets (''[::ffff:'' @ h @ '':'' @ l @ '']'') = ?host"
    using ends_with_append [of "''::ffff:'' @ h @ '':'' @ l" "'']''"]
    by (simp add: strip_brackets_def starts_with_def butlast_append)
  have "CHR ''%'' \<notin> set ?host" using H L by simp
  then have pct: "split_on (CHR ''%'') ?host = [?host]" by (rule split_on_no_sep)
  have first: "hd (split_on (CHR '':'') ?host) = []" by simp
  have ph: "parse_hex [] = None" by (simp add: parse_hex_def starts_with_def)
  have grp: "map parse_hex (split_on (CHR '':'') (h @ '':'' @ l)) = [Some (int (hex_val h)), Some (int (hex_val l))]"
    using H L by (simp add: split_on_append_sep split_on_no_sep parse_hex_group assms)
  have dq: "dotted hi lo = dotted_quad (nat (octet_at hi 8)) (nat (octet_at hi 0)) (nat (octet_at lo 8)) (nat (octet_at lo 0))"
    for hi lo by (simp add: dotted_def dotted_quad_def)
  have den: "is_denied_ipv4 (dotted hi lo) = denied_octets (octet_at hi 8) (octet_at hi 0)" for hi lo
    using octet_at_bounds [of hi 8] octet_at_bounds [of hi 0] octet_at_bounds [of lo 8] octet_at_bounds [of lo 0]
    unfolding dq by (subst is_denied_quad) auto
  have short: "?host \<noteq> ''::''" "?host \<noteq> ''::1''" by simp_all
  have "\<forall>c \<in> set (h @ '':'' @ l). not_line_end c"
    using hex_group_line [OF assms(1)] hex_group_line [OF assms(2)] by (auto simp: not_line_end_def cu_def)
  then have "takeWhile not_line_end (h @ '':'' @ l) = h @ '':'' @ l" by (rule takeWhile_all)
  then have tail: "takeWhile not_line_end (drop 7 ?host) = h @ '':'' @ l" by simp
  have st: "\<not> starts_with ?host ''fc''" "\<not> starts_with ?host ''fd''" "starts_with ?host ''::ffff:''"
    by (simp_all add: starts_with_def)
  have v6: "is_denied_ipv6 (''[::ffff:'' @ h @ '':'' @ l @ '']'')
      = denied_octets (octet_at (int (hex_val h)) 8) (octet_at (int (hex_val h)) 0)"
    unfolding is_denied_ipv6_def Let_def br pct list.sel low first ph tail
    using short st H L grp den by simp
  have "\<not> ends_with (''[::ffff:'' @ h @ '':'' @ l @ '']'') ''.localhost''"
  proof
    assume "ends_with (''[::ffff:'' @ h @ '':'' @ l @ '']'') ''.localhost''"
    then have "last (''[::ffff:'' @ h @ '':'' @ l @ '']'') = CHR ''t''" unfolding ends_with_iff by force
    then show False by simp
  qed
  then show ?thesis unfolding is_denied_host_def Let_def low using v6 by simp
qed

theorem denied_ipv4_mapped_witness:
  "is_denied_host ''[::ffff:a9fe:a9fe]''"
proof -
  have g: "hex_group ''a9fe''"
    by (simp add: hex_group_def is_hex_def is_digit_def js_lower_char_def cu_def)
  have "hex_val ''a9fe'' = 43518" by (simp add: hex_val_def hex_digit_val_def is_digit_def cu_def)
  then show ?thesis
    using denied_ipv4_mapped [OF g g] by (simp add: octet_at_def denied_octets_def)
qed

text \<open>
  A trailing dot gets past the name check: the fully qualified form of \<open>localhost\<close>, which resolves to
  the loopback address too, is not refused.
\<close>

theorem trailing_dot_localhost:
  "is_denied_host ''localhost'' \<and> \<not> is_denied_host ''localhost.''"
proof -
  have low: "js_lower ''localhost'' = ''localhost''" "js_lower ''localhost.'' = ''localhost.''" by code_simp+
  have cut: "split_on (CHR ''.'') ''localhost.'' = [''localhost'', []]" by code_simp
  show ?thesis
    unfolding is_denied_host_def Let_def low
    by (simp add: is_denied_ipv4_def cut ends_with_def split: option.split)
qed

section \<open>The inputs of a link\<close>

definition click_limit_max :: int where
  "click_limit_max = 2147483647"

datatype limit_problem = NotWhole | BelowOne | AboveMax

definition click_limit_input :: "rat \<Rightarrow> limit_problem option" where
  "click_limit_input n =
     (if of_int \<lfloor>n\<rfloor> \<noteq> n then Some NotWhole
      else if n < 1 then Some BelowOne
      else if of_int click_limit_max < n then Some AboveMax else None)"

text \<open>\<open>Date.parse\<close> rolls a day past the end of its month over; the text is read back to catch that.\<close>

definition is_readable_date :: "string \<Rightarrow> bool" where
  "is_readable_date val =
     (if val = [] then True
      else case parse_iso val of None \<Rightarrow> False
        | Some t \<Rightarrow>
            if length val \<noteq> 10 then True
            else (case (field val 0 4, field val 5 2, field val 8 2) of
                    (Some y, Some m, Some d) \<Rightarrow> civil_of_days (t div day_ms) = (y, m, d)
                  | _ \<Rightarrow> True))"

text \<open>Half of the smallest positive single-precision number: what \<open>Math.fround\<close> sends to zero is at most that.\<close>

definition weight_input_ok :: "rat \<Rightarrow> bool" where
  "weight_input_ok w = (0 \<le> w \<and> w \<le> 100 \<and> (w = 0 \<or> 1 / 2 ^ 150 < w))"

lemma click_limit_input_int:
  "click_limit_input (of_int n) = None \<longleftrightarrow> 1 \<le> n \<and> n \<le> 2147483647"
  by (auto simp: click_limit_input_def click_limit_max_def)

end
