(* ===== verification/Routing_Reference.thy ===== *)
theory Routing_Reference
  imports Routing
begin

text \<open>
  The independent evaluator of \<open>packages/domain/src/routing.reference.ts\<close> and its equivalence with
  the production evaluator of \<open>Routing\<close>. The two differ in the hash (one multiplication against
  two 16-bit partial products), in the case fold of a country, and in how the arm is found (one
  pass against a table of boundaries).
\<close>

section \<open>The reference hash\<close>

text \<open>The low and high halves are multiplied by the prime separately, each product modulo \<open>2 ^ 32\<close>.\<close>

definition fnv1a_char :: "u32 \<Rightarrow> char \<Rightarrow> u32" where
  "fnv1a_char hash c =
     (let h = xor hash (of_nat (cu c));
          prime = 0x01000193;
          low = and h 0xffff;
          high = drop_bit 16 h;
          low_product = low * prime;
          high_product = push_bit 16 (high * prime)
      in low_product + high_product)"

definition fnv1a :: "string \<Rightarrow> u32" where
  "fnv1a input = foldl fnv1a_char 0x811c9dc5 input"

section \<open>The reference evaluator\<close>

definition rule_has_any_condition :: "routing_rule \<Rightarrow> bool" where
  "rule_has_any_condition r =
     (truthy (w_country (rule_when r)) \<or> w_device (rule_when r) \<noteq> None
      \<or> truthy (w_language (rule_when r)))"

definition country_satisfied :: "string option \<Rightarrow> string option \<Rightarrow> bool" where
  "country_satisfied wanted actual =
     (if \<not> truthy wanted then True
      else if \<not> truthy actual then False
      else js_lower (the wanted) = js_lower (the actual))"

definition language_satisfied :: "string option \<Rightarrow> string option \<Rightarrow> bool" where
  "language_satisfied wanted actual =
     (if \<not> truthy wanted then True
      else if \<not> truthy actual then False
      else js_lower (the wanted) = js_lower (the actual))"

definition mobile_family :: "device_type set" where
  "mobile_family = {Mobile, Ios, Android}"

definition device_satisfied :: "device_type option \<Rightarrow> device_type option \<Rightarrow> bool" where
  "device_satisfied wanted actual =
     (case wanted of
        None \<Rightarrow> True
      | Some w \<Rightarrow>
          (case actual of
             None \<Rightarrow> False
           | Some a \<Rightarrow> if w = Mobile then a \<in> mobile_family else w = a))"

definition conditions_satisfied :: "routing_rule \<Rightarrow> visitor_context \<Rightarrow> bool" where
  "conditions_satisfied r ctx =
     (country_satisfied (w_country (rule_when r)) (ctx_country ctx)
      \<and> language_satisfied (w_language (rule_when r)) (ctx_language ctx)
      \<and> device_satisfied (w_device (rule_when r)) (ctx_device ctx))"

definition is_in_weighted_group :: "routing_rule \<Rightarrow> bool" where
  "is_in_weighted_group r =
     (\<not> rule_has_any_condition r \<and> (case rule_weight r of None \<Rightarrow> False | Some w \<Rightarrow> 0 < w))"

text \<open>The table of boundaries is built first and scanned after; the answer is the arm's position.\<close>

fun build_boundaries :: "rat \<Rightarrow> routing_rule list \<Rightarrow> rat \<Rightarrow> rat list \<Rightarrow> rat list" where
  "build_boundaries weight_tot [] running acc = acc"
| "build_boundaries weight_tot (r # rs) running acc =
     (let running' = dbl (running + dbl (dbl (weight_of r / weight_tot) * 10000))
      in build_boundaries weight_tot rs running' (acc @ [running']))"

definition choose_from_weighted_group :: "routing_rule list \<Rightarrow> string \<Rightarrow> nat" where
  "choose_from_weighted_group arms visitor_hash =
     (let weight_tot = foldl (\<lambda>s r. dbl (s + weight_of r)) 0 arms in
      if weight_tot \<le> 0 then 0
      else let bs = build_boundaries weight_tot arms 0 [];
               point = unat (fnv1a visitor_hash) mod 10000
           in case find_index (\<lambda>b. of_nat point < b) bs of
                Some i \<Rightarrow> i
              | None \<Rightarrow> length arms - 1)"

definition evaluate_routing_reference ::
    "routing_rule list \<Rightarrow> string \<Rightarrow> visitor_context \<Rightarrow> routing_decision" where
  "evaluate_routing_reference rules fallback ctx =
     (let arms = filter is_in_weighted_group rules in
      case find (\<lambda>r. \<not> is_in_weighted_group r \<and> conditions_satisfied r ctx) rules of
        Some r \<Rightarrow> \<lparr> decision_destination = rule_then r, matched_rule_id = Some (rule_id r),
                    decision_variant = None \<rparr>
      | None \<Rightarrow>
          if 0 < length arms then
            let index = choose_from_weighted_group arms (ctx_visitor_hash ctx);
                r = arms ! index
            in \<lparr> decision_destination = rule_then r, matched_rule_id = Some (rule_id r),
                 decision_variant = Some (show_nat (index + 1) @ ''/'' @ show_nat (length arms)) \<rparr>
          else \<lparr> decision_destination = fallback, matched_rule_id = None, decision_variant = None \<rparr>)"

section \<open>The two hashes agree\<close>

lemma split_halves: "(h :: u32) = and h 0xffff + push_bit 16 (drop_bit 16 h)"
proof -
  have "and h 0xffff = take_bit 16 h"
    by (simp add: take_bit_eq_mask mask_eq_exp_minus_1)
  then show ?thesis using bits_ident [of 16 h] by (simp add: add.commute)
qed

lemma fnv1a_char_eq: "fnv1a_char hash c = xor hash (of_nat (cu c)) * 0x01000193"
proof -
  let ?h = "xor hash (of_nat (cu c)) :: u32"
  have "?h * 0x01000193 = (and ?h 0xffff + push_bit 16 (drop_bit 16 ?h)) * 0x01000193"
    using split_halves [of ?h] by simp
  also have "\<dots> = fnv1a_char hash c"
    by (simp add: fnv1a_char_def Let_def push_bit_eq_mult algebra_simps)
  finally show ?thesis by simp
qed

lemma fnv_step_foldl: "fnv_step h s = foldl fnv1a_char h s"
  by (induction h s rule: fnv_step.induct) (simp_all add: fnv1a_char_eq)

lemma bucket_of_fnv1a: "bucket_of s n = unat (fnv1a s) mod n"
  by (simp add: bucket_of_def fnv1a_def fnv_step_foldl)

section \<open>The two condition checks agree on ASCII countries\<close>

definition ascii :: "string \<Rightarrow> bool" where
  "ascii s = (\<forall>c \<in> set s. cu c < 128)"

definition up1 :: "char \<Rightarrow> char" where
  "up1 c = (if is_lower_alpha c then char_of (cu c - 32) else c)"

lemma char_eq_cu: "c = d \<longleftrightarrow> cu c = cu d"
  by (metis char_of_cu)

lemma js_upper_char_ascii: "cu c < 128 \<Longrightarrow> js_upper_char c = [up1 c]"
  by (auto simp: js_upper_char_def up1_def is_lower_alpha_def Let_def)

lemma js_upper_ascii: "ascii s \<Longrightarrow> js_upper s = map up1 s"
  by (induction s) (auto simp: ascii_def js_upper_def js_upper_char_ascii)

lemma up1_lower1:
  assumes "cu c < 128" "cu d < 128"
  shows "up1 c = up1 d \<longleftrightarrow> js_lower_char c = js_lower_char d"
  using assms
  by (auto simp: char_eq_cu up1_def js_lower_char_def is_lower_alpha_def Let_def split: if_splits)

lemma js_upper_lower_ascii:
  "ascii s \<Longrightarrow> ascii t \<Longrightarrow> js_upper s = js_upper t \<longleftrightarrow> js_lower s = js_lower t"
proof (induction s arbitrary: t)
  case Nil
  then show ?case by (auto simp: js_upper_ascii js_lower_def)
next
  case (Cons c s)
  show ?case
  proof (cases t)
    case Nil
    with Cons.prems show ?thesis by (auto simp: js_upper_ascii js_lower_def)
  next
    case (Cons d t')
    with Cons.prems Cons.IH [of t'] show ?thesis
      by (auto simp: js_upper_ascii js_lower_def ascii_def up1_lower1)
  qed
qed

lemma country_agrees:
  assumes "\<And>s. w = Some s \<Longrightarrow> ascii s" "\<And>s. a = Some s \<Longrightarrow> ascii s"
  shows "country_satisfied w a \<longleftrightarrow>
    \<not> (truthy w \<and> js_upper (or_else w []) \<noteq> js_upper (or_else a []))"
proof (cases "truthy w")
  case True
  then obtain s where s: "w = Some s" "s \<noteq> []" by (rule truthyE)
  have "ascii (or_else a [])" using assms(2) by (cases a) (auto simp: ascii_def)
  then have "js_upper s = js_upper (or_else a []) \<longleftrightarrow> js_lower s = js_lower (or_else a [])"
    using assms(1) s by (intro js_upper_lower_ascii) auto
  then show ?thesis using s by (cases a) (auto simp: country_satisfied_def js_lower_def)
qed (simp add: country_satisfied_def)

lemma language_agrees:
  "language_satisfied w a \<longleftrightarrow> \<not> (truthy w \<and> js_lower (or_else w []) \<noteq> js_lower (or_else a []))"
  by (cases w; cases a) (auto simp: language_satisfied_def js_lower_def)

lemma conditions_agree:
  assumes "\<And>s. w_country (rule_when r) = Some s \<Longrightarrow> ascii s" "\<And>s. ctx_country ctx = Some s \<Longrightarrow> ascii s"
  shows "conditions_satisfied r ctx = rule_matches r ctx"
proof -
  have c: "country_satisfied (w_country (rule_when r)) (ctx_country ctx) \<longleftrightarrow>
      \<not> (truthy (w_country (rule_when r)) \<and>
        js_upper (or_else (w_country (rule_when r)) []) \<noteq> js_upper (or_else (ctx_country ctx) []))"
    using assms by (rule country_agrees)
  show ?thesis
    by (auto simp: conditions_satisfied_def rule_matches_def Let_def c language_agrees
        device_satisfied_def mobile_family_def split: option.splits)
qed

lemma weighted_group_agrees: "is_in_weighted_group r = is_weighted_catch_all r"
  by (auto simp: is_in_weighted_group_def is_weighted_catch_all_def rule_has_any_condition_def
      is_catch_all_def)

lemma build_boundaries_eq: "build_boundaries tot rs c acc = acc @ boundaries tot c rs"
  by (induction tot rs c acc rule: build_boundaries.induct) (auto simp: Let_def slice_def)

lemma choose_agrees:
  "arms \<noteq> [] \<Longrightarrow> choose_from_weighted_group arms h = pick_weighted arms h"
  by (simp add: choose_from_weighted_group_def pick_weighted_def Let_def weight_total_def
      build_boundaries_eq bucket_of_fnv1a pick_loop_find split: option.splits)

section \<open>Equivalence\<close>

text \<open>
  C2. The production evaluator and the independent reference evaluator decide the same destination,
  rule and variant for every chain and visitor whose countries are ASCII (they fold the case of a
  country in opposite directions, which only differs beyond ASCII).
\<close>

theorem evaluate_routing_eq_reference:
  assumes "\<forall>r \<in> set rules. \<forall>s. w_country (rule_when r) = Some s \<longrightarrow> ascii s"
    and "\<forall>s. ctx_country ctx = Some s \<longrightarrow> ascii s"
  shows "evaluate_routing rules fallback ctx = evaluate_routing_reference rules fallback ctx"
proof -
  have "find (\<lambda>r. \<not> is_in_weighted_group r \<and> conditions_satisfied r ctx) rules
      = find (\<lambda>r. \<not> is_weighted_catch_all r \<and> rule_matches r ctx) rules"
    using assms by (intro find_cong_set) (simp add: weighted_group_agrees conditions_agree)
  moreover have "filter is_in_weighted_group rules = filter is_weighted_catch_all rules"
    by (rule filter_cong) (simp_all add: weighted_group_agrees)
  ultimately show ?thesis
    by (simp add: evaluate_routing_def evaluate_routing_reference_def Let_def choose_agrees
        split: option.split)
qed

theorem evaluate_routing_eq_reference_witness:
  "evaluate_routing_reference example_chain ''https://f.example'' example_visitor
   = evaluate_routing example_chain ''https://f.example'' example_visitor"
proof -
  have "\<forall>r \<in> set example_chain. \<forall>s. w_country (rule_when r) = Some s \<longrightarrow> ascii s"
    by (simp add: example_chain_def ascii_def cu_def)
  moreover have "\<forall>s. ctx_country example_visitor = Some s \<longrightarrow> ascii s"
    by (simp add: example_visitor_def ascii_def cu_def)
  ultimately show ?thesis by (rule evaluate_routing_eq_reference [symmetric])
qed

end
