(* ===== verification/Outbox.thy ===== *)
theory Outbox
  imports Link_Store
begin

text \<open>
  The projection outbox (\<open>apps/worker/src/jobs/outbox.ts\<close>): the table as a list of rows, the claim
  with its lease, the two bookkeeping updates, the drain through a projection target, the expiry
  sweep, the backfill of domain items and the pruning. A statement of SQL is one function of the
  table; where the order of its rows is not specified, the order of the table is taken. Times are
  milliseconds. A projection target is a record of functions on the state of the store it
  writes, \<open>Some e\<close> standing for a thrown error. Several workers are a step relation over the same
  functions.
\<close>

section \<open>Rows and operations\<close>

definition domain_op :: string where
  "domain_op = ''domain''"

record outbox_row =
  ob_id :: string
  ob_link :: string
  ob_operation :: string
  ob_host :: "string option"
  ob_created :: int
  ob_claimed :: "int option"
  ob_processed :: "int option"
  ob_attempts :: nat
  ob_error :: "string option"

record projection_op =
  op_link :: string
  op_operation :: string
  op_payload_host :: "string option"

definition to_projection_op :: "outbox_row \<Rightarrow> projection_op" where
  "to_projection_op r =
     \<lparr> op_link = ob_link r, op_operation = ob_operation r,
       op_payload_host = (if ob_operation r = domain_op then ob_host r else None) \<rparr>"

definition max_attempts :: nat where
  "max_attempts = 8"

definition claim_lease :: int where
  "claim_lease = 5 * 60 * 1000"

definition default_batch :: nat where
  "default_batch = 200"

section \<open>The claim and the bookkeeping\<close>

definition claimable :: "int \<Rightarrow> outbox_row \<Rightarrow> bool" where
  "claimable now r =
     (ob_processed r = None \<and> ob_attempts r < max_attempts
      \<and> (case ob_claimed r of None \<Rightarrow> True | Some t \<Rightarrow> t < now - claim_lease))"

definition claim_ids :: "int \<Rightarrow> nat \<Rightarrow> outbox_row list \<Rightarrow> string list" where
  "claim_ids now batch rows = map ob_id (take batch (sort_key ob_created (List.filter (claimable now) rows)))"

definition claim :: "int \<Rightarrow> nat \<Rightarrow> outbox_row list \<Rightarrow> outbox_row list \<times> outbox_row list" where
  "claim now batch rows =
     (let ids = claim_ids now batch rows;
          rows' = map (\<lambda>r. if ob_id r \<in> set ids then r\<lparr>ob_claimed := Some now\<rparr> else r) rows
      in (rows', List.filter (\<lambda>r. ob_id r \<in> set ids) rows'))"

definition mark_processed :: "int \<Rightarrow> string \<Rightarrow> outbox_row list \<Rightarrow> outbox_row list" where
  "mark_processed done_at rid rows =
     map (\<lambda>r. if ob_id r = rid then r\<lparr>ob_processed := Some done_at\<rparr> else r) rows"

definition mark_failed :: "string \<Rightarrow> string \<Rightarrow> outbox_row list \<Rightarrow> outbox_row list" where
  "mark_failed err rid rows =
     map (\<lambda>r. if ob_id r = rid
              then r\<lparr>ob_attempts := ob_attempts r + 1, ob_error := Some (take 500 err), ob_claimed := None\<rparr>
              else r) rows"

section \<open>The drain\<close>

record projection_result =
  pr_link :: string
  pr_ok :: bool
  pr_error :: "string option"

record 's projection_target =
  tg_upsert :: "string \<Rightarrow> 's \<Rightarrow> string option \<times> 's"
  tg_remove :: "string \<Rightarrow> 's \<Rightarrow> string option \<times> 's"
  tg_project_domain :: "(string \<Rightarrow> string option \<Rightarrow> 's \<Rightarrow> string option \<times> 's) option"
  tg_apply :: "(projection_op list \<Rightarrow> 's \<Rightarrow> (string + projection_result list) \<times> 's) option"

definition no_projection :: "'s projection_target" where
  "no_projection =
     \<lparr> tg_upsert = (\<lambda>l s. (None, s)), tg_remove = (\<lambda>l s. (None, s)),
       tg_project_domain = None, tg_apply = None \<rparr>"

text \<open>One row through the target, then its bookkeeping; the counters are processed and failed.\<close>

definition project_op :: "'s projection_target \<Rightarrow> projection_op \<Rightarrow> 's \<Rightarrow> string option \<times> 's" where
  "project_op target op s =
     (if op_operation op = domain_op then
        (case tg_project_domain target of None \<Rightarrow> (None, s) | Some g \<Rightarrow> g (op_link op) (op_payload_host op) s)
      else if op_operation op = ''delete'' then tg_remove target (op_link op) s
      else tg_upsert target (op_link op) s)"

fun drain_rows :: "int \<Rightarrow> 's projection_target \<Rightarrow> outbox_row list \<Rightarrow> outbox_row list \<times> 's \<times> nat \<times> nat
    \<Rightarrow> outbox_row list \<times> 's \<times> nat \<times> nat" where
  "drain_rows done_at target [] acc = acc"
| "drain_rows done_at target (r # rs) (rows, s, p, f) =
     (case project_op target (to_projection_op r) s of
        (None, s') \<Rightarrow> drain_rows done_at target rs (mark_processed done_at (ob_id r) rows, s', p + 1, f)
      | (Some e, s') \<Rightarrow> drain_rows done_at target rs (mark_failed e (ob_id r) rows, s', p, f + 1))"

definition no_result_message :: string where
  "no_result_message = ''Error: projection apply() returned no result for row''"

text \<open>The bookkeeping of a batch: one result per row, by position; a row without one has failed.\<close>

fun settle_results :: "int \<Rightarrow> outbox_row list \<Rightarrow> projection_result list \<Rightarrow> outbox_row list \<times> nat \<times> nat
    \<Rightarrow> outbox_row list \<times> nat \<times> nat" where
  "settle_results done_at [] results acc = acc"
| "settle_results done_at (r # rs) results (rows, p, f) =
     (case results of
        [] \<Rightarrow> settle_results done_at rs [] (mark_failed no_result_message (ob_id r) rows, p, f + 1)
      | res # rest \<Rightarrow>
          if pr_ok res then settle_results done_at rs rest (mark_processed done_at (ob_id r) rows, p + 1, f)
          else settle_results done_at rs rest
                 (mark_failed (case pr_error res of None \<Rightarrow> no_result_message | Some e \<Rightarrow> e) (ob_id r) rows, p, f + 1))"

fun fail_all :: "string \<Rightarrow> outbox_row list \<Rightarrow> outbox_row list \<times> nat \<Rightarrow> outbox_row list \<times> nat" where
  "fail_all err [] acc = acc"
| "fail_all err (r # rs) (rows, f) = fail_all err rs (mark_failed err (ob_id r) rows, f + 1)"

definition drain_outbox :: "int \<Rightarrow> int \<Rightarrow> nat \<Rightarrow> 's projection_target \<Rightarrow> outbox_row list \<Rightarrow> 's
    \<Rightarrow> outbox_row list \<times> 's \<times> nat \<times> nat" where
  "drain_outbox now done_at batch target rows s =
     (let (rows', claimed) = claim now batch rows in
      case tg_apply target of
        None \<Rightarrow> drain_rows done_at target claimed (rows', s, 0, 0)
      | Some apply_ops \<Rightarrow>
          (case apply_ops (map to_projection_op claimed) s of
             (Inl err, s') \<Rightarrow> (let (rows'', f) = fail_all err claimed (rows', 0) in (rows'', s', 0, f))
           | (Inr results, s') \<Rightarrow>
               (let (rows'', p, f) = settle_results done_at claimed results (rows', 0, 0) in (rows'', s', p, f))))"

definition stuck_projections :: "outbox_row list \<Rightarrow> nat" where
  "stuck_projections rows =
     length (List.filter (\<lambda>r. ob_processed r = None \<and> max_attempts \<le> ob_attempts r) rows)"

definition one_day :: int where
  "one_day = 24 * 60 * 60 * 1000"

definition prune_outbox :: "int \<Rightarrow> outbox_row list \<Rightarrow> outbox_row list \<times> nat" where
  "prune_outbox now rows =
     (let old = (\<lambda>r. case ob_processed r of None \<Rightarrow> False | Some t \<Rightarrow> t < now - one_day)
      in (List.filter (\<lambda>r. \<not> old r) rows, length (List.filter old rows)))"

section \<open>The expiry sweep and the backfill\<close>

record sweep_link =
  sl_id :: string
  sl_archived :: bool
  sl_expires :: "int option"
  sl_click_limit :: "int option"
  sl_clicks :: "int option"

definition row_for :: "string \<Rightarrow> int \<Rightarrow> string \<Rightarrow> string \<Rightarrow> string option \<Rightarrow> outbox_row" where
  "row_for rid now link operation host =
     \<lparr> ob_id = rid, ob_link = link, ob_operation = operation, ob_host = host, ob_created = now,
       ob_claimed = None, ob_processed = None, ob_attempts = 0, ob_error = None \<rparr>"

text \<open>\<open>new_id\<close> is the default of the id column, a fresh id for each row of the insert.\<close>

definition enqueue_rows :: "(nat \<Rightarrow> string) \<Rightarrow> int \<Rightarrow> (string \<times> string \<times> string option) list \<Rightarrow> outbox_row list
    \<Rightarrow> outbox_row list" where
  "enqueue_rows new_id now ops rows =
     rows @ map (\<lambda>k. case ops ! k of (link, operation, host) \<Rightarrow> row_for (new_id (length rows + k)) now link operation host)
                [0..<length ops]"

definition newly_expired :: "int \<Rightarrow> outbox_row list \<Rightarrow> sweep_link \<Rightarrow> bool" where
  "newly_expired now rows l =
     (\<not> sl_archived l
      \<and> ((case sl_expires l of None \<Rightarrow> False | Some t \<Rightarrow> t \<le> now)
         \<or> (case sl_click_limit l of None \<Rightarrow> False | Some n \<Rightarrow> n \<le> (case sl_clicks l of None \<Rightarrow> 0 | Some c \<Rightarrow> c)))
      \<and> \<not> list_ex (\<lambda>r. ob_link r = sl_id l \<and> ob_processed r = None) rows)"

definition sweep_expired :: "(nat \<Rightarrow> string) \<Rightarrow> int \<Rightarrow> sweep_link list \<Rightarrow> outbox_row list \<Rightarrow> outbox_row list \<times> nat" where
  "sweep_expired new_id now links rows =
     (let hit = List.filter (newly_expired now rows) links
      in (enqueue_rows new_id now (map (\<lambda>l. (sl_id l, ''upsert'', None)) hit) rows, length hit))"

record sweep_domain =
  sd_id :: string
  sd_domain :: string
  sd_status :: string
  sd_root :: "string option"
  sd_not_found :: "string option"

definition backfill_candidate :: "outbox_row list \<Rightarrow> sweep_domain \<Rightarrow> bool" where
  "backfill_candidate rows d =
     (sd_status d = ''live'' \<and> (sd_root d \<noteq> None \<or> sd_not_found d \<noteq> None)
      \<and> \<not> list_ex (\<lambda>r. ob_link r = sd_id d \<and> ob_processed r = None \<and> ob_attempts r < max_attempts) rows)"

text \<open>\<open>lower(trim(domain))\<close>: the SQL \<open>trim\<close> strips spaces only.\<close>

definition sql_trim :: "string \<Rightarrow> string" where
  "sql_trim s = rev (dropWhile (\<lambda>c. c = CHR '' '') (rev (dropWhile (\<lambda>c. c = CHR '' '') s)))"

definition backfill_domain_meta :: "(nat \<Rightarrow> string) \<Rightarrow> int \<Rightarrow> sweep_domain list \<Rightarrow> outbox_row list
    \<Rightarrow> outbox_row list \<times> nat" where
  "backfill_domain_meta new_id now ds rows =
     (let hit = List.filter (backfill_candidate rows) ds
      in (enqueue_rows new_id now (map (\<lambda>d. (sd_id d, domain_op, Some (js_lower (sql_trim (sd_domain d))))) hit) rows,
          length hit))"

section \<open>A drain settles what it claimed\<close>

lemma ob_id_upd [simp]:
  "ob_id (r\<lparr>ob_claimed := c\<rparr>) = ob_id r" "ob_id (r\<lparr>ob_processed := q\<rparr>) = ob_id r"
  by simp_all

lemma mark_ids [simp]:
  "map ob_id (mark_processed t i rows) = map ob_id rows" "map ob_id (mark_failed e i rows) = map ob_id rows"
  by (simp_all add: mark_processed_def mark_failed_def)

definition settles :: "int \<Rightarrow> outbox_row \<Rightarrow> outbox_row \<Rightarrow> bool" where
  "settles done_at r r' =
     (r' = r\<lparr>ob_processed := Some done_at\<rparr>
      \<or> (\<exists>e. r' = r\<lparr>ob_attempts := ob_attempts r + 1, ob_error := Some (take 500 e), ob_claimed := None\<rparr>))"

definition settled :: "int \<Rightarrow> string set \<Rightarrow> outbox_row \<Rightarrow> outbox_row \<Rightarrow> bool" where
  "settled done_at ids r r' = (if ob_id r \<in> ids then settles done_at r r' else r' = r)"

lemma settled_step:
  assumes "list_all2 (settled t ids) (map (\<lambda>r. if ob_id r = i then g r else r) rows) rows'"
    and "i \<notin> ids" "\<And>r. ob_id (g r) = ob_id r" "\<And>r. settles t r (g r)"
  shows "list_all2 (settled t (insert i ids)) rows rows'"
  using assms by (auto simp: list_all2_conv_all_nth settled_def split: if_splits)

lemma settled_processed:
  "list_all2 (settled t ids) (mark_processed t i rows) rows' \<Longrightarrow> i \<notin> ids
   \<Longrightarrow> list_all2 (settled t (insert i ids)) rows rows'"
  unfolding mark_processed_def by (erule settled_step) (auto simp: settles_def)

lemma settled_failed:
  "list_all2 (settled t ids) (mark_failed e i rows) rows' \<Longrightarrow> i \<notin> ids
   \<Longrightarrow> list_all2 (settled t (insert i ids)) rows rows'"
  unfolding mark_failed_def by (erule settled_step) (auto simp: settles_def)

lemma settled_refl: "list_all2 (settled t {}) rows rows"
  by (simp add: settled_def list_all2_conv_all_nth)

lemma drain_rows_settles:
  assumes "distinct (map ob_id rs)" "drain_rows t target rs (rows, s, p, f) = (rows', s', p', f')"
  shows "list_all2 (settled t (set (map ob_id rs))) rows rows' \<and> p' + f' = p + f + length rs"
  using assms
proof (induction rs arbitrary: rows s p f)
  case Nil
  then show ?case by (simp add: settled_refl)
next
  case (Cons r rs)
  obtain res s1 where op: "project_op target (to_projection_op r) s = (res, s1)" by fastforce
  have fresh: "ob_id r \<notin> set (map ob_id rs)" "distinct (map ob_id rs)" using Cons.prems(1) by auto
  show ?case
  proof (cases res)
    case None
    with Cons.prems(2) op have "drain_rows t target rs (mark_processed t (ob_id r) rows, s1, p + 1, f) = (rows', s', p', f')"
      by simp
    from Cons.IH [OF fresh(2) this] show ?thesis
      using settled_processed [OF _ fresh(1)] by auto
  next
    case (Some e)
    with Cons.prems(2) op have "drain_rows t target rs (mark_failed e (ob_id r) rows, s1, p, f + 1) = (rows', s', p', f')"
      by simp
    from Cons.IH [OF fresh(2) this] show ?thesis
      using settled_failed [OF _ fresh(1)] by auto
  qed
qed

lemma settle_results_settles:
  assumes "distinct (map ob_id rs)" "settle_results t rs results (rows, p, f) = (rows', p', f')"
  shows "list_all2 (settled t (set (map ob_id rs))) rows rows' \<and> p' + f' = p + f + length rs"
  using assms
proof (induction rs arbitrary: results rows p f)
  case Nil
  then show ?case by (simp add: settled_refl)
next
  case (Cons r rs)
  have fresh: "ob_id r \<notin> set (map ob_id rs)" "distinct (map ob_id rs)" using Cons.prems(1) by auto
  have bad: "settle_results t rs rest (mark_failed e (ob_id r) rows, p, f + 1) = (rows', p', f') \<Longrightarrow> ?case" for rest e
    using Cons.IH [OF fresh(2)] settled_failed [OF _ fresh(1)] by fastforce
  have good: "settle_results t rs rest (mark_processed t (ob_id r) rows, p + 1, f) = (rows', p', f') \<Longrightarrow> ?case" for rest
    using Cons.IH [OF fresh(2)] settled_processed [OF _ fresh(1)] by fastforce
  show ?case
    using Cons.prems(2) good bad by (auto split: list.splits if_splits)
qed

lemma fail_all_settles:
  assumes "distinct (map ob_id rs)" "fail_all e rs (rows, f) = (rows', f')"
  shows "list_all2 (settled t (set (map ob_id rs))) rows rows' \<and> f' = f + length rs"
  using assms
proof (induction rs arbitrary: rows f)
  case Nil
  then show ?case by (simp add: settled_refl)
next
  case (Cons r rs)
  have fresh: "ob_id r \<notin> set (map ob_id rs)" "distinct (map ob_id rs)" using Cons.prems(1) by auto
  from Cons.prems(2) have "fail_all e rs (mark_failed e (ob_id r) rows, f + 1) = (rows', f')" by simp
  from Cons.IH [OF fresh(2) this] show ?case
    using settled_failed [OF _ fresh(1)] by auto
qed

lemma claim_ids_subset: "set (claim_ids now batch rows) \<subseteq> ob_id ` {r \<in> set rows. claimable now r}"
  by (force simp: claim_ids_def dest: in_set_takeD)

lemma claim_ids_distinct: "distinct (map ob_id rows) \<Longrightarrow> distinct (claim_ids now batch rows)"
  by (simp add: claim_ids_def distinct_map distinct_take distinct_sort inj_on_def)
     (metis (no_types, lifting) distinct_filter distinct_map distinct_sort distinct_take filter_is_subset
        in_set_takeD inj_on_def set_filter set_sort mem_Collect_eq)

lemma claim_length: "length (claim_ids now batch rows) \<le> batch"
  by (simp add: claim_ids_def)

lemma claimed_ids:
  assumes "distinct (map ob_id rows)" "claim now batch rows = (rows', claimed)"
  shows "distinct (map ob_id claimed)" "set (map ob_id claimed) = set (claim_ids now batch rows)"
    "length claimed = length (claim_ids now batch rows)"
    "rows' = map (\<lambda>r. if ob_id r \<in> set (claim_ids now batch rows) then r\<lparr>ob_claimed := Some now\<rparr> else r) rows"
proof -
  let ?ids = "claim_ids now batch rows"
  show rows': "rows' = map (\<lambda>r. if ob_id r \<in> set ?ids then r\<lparr>ob_claimed := Some now\<rparr> else r) rows"
    using assms(2) by (auto simp: claim_def Let_def)
  have cl: "claimed = List.filter (\<lambda>r. ob_id r \<in> set ?ids) rows'"
    using assms(2) by (auto simp: claim_def Let_def)
  have ids: "map ob_id rows' = map ob_id rows" by (simp add: rows')
  have "map ob_id claimed = List.filter (\<lambda>i. i \<in> set ?ids) (map ob_id rows')"
    by (simp add: cl filter_map o_def)
  then have eq: "map ob_id claimed = List.filter (\<lambda>i. i \<in> set ?ids) (map ob_id rows)" by (simp only: ids)
  show d: "distinct (map ob_id claimed)" unfolding eq using assms(1) by (rule distinct_filter)
  have "set ?ids \<subseteq> set (map ob_id rows)" using claim_ids_subset [of now batch rows] by auto
  then show s: "set (map ob_id claimed) = set ?ids" unfolding eq by auto
  show "length claimed = length ?ids"
    using distinct_card [OF d] distinct_card [OF claim_ids_distinct [OF assms(1)]] s by (metis length_map)
qed

text \<open>
  A drain settles exactly what it claimed: it claims at most the batch, and whatever the target does,
  row by row or in one batch whose answer may be too short, wrong or an error, every claimed row ends
  processed, or failed with one more attempt and its lease given back, every other row is untouched,
  and the two counts add up to the number claimed.
\<close>

theorem drain_settles:
  assumes "distinct (map ob_id rows)"
    and "drain_outbox now done_at batch target rows s = (rows', s', p, f)"
  shows "list_all2 (\<lambda>r r'. if ob_id r \<in> set (claim_ids now batch rows)
                           then settles done_at (r\<lparr>ob_claimed := Some now\<rparr>) r' else r' = r) rows rows'
    \<and> p + f = length (claim_ids now batch rows) \<and> p + f \<le> batch"
proof -
  obtain rows1 claimed where cl: "claim now batch rows = (rows1, claimed)" by fastforce
  note C = claimed_ids [OF assms(1) cl]
  have "list_all2 (settled done_at (set (map ob_id claimed))) rows1 rows' \<and> p + f = length claimed"
  proof (cases "tg_apply target")
    case None
    then have "drain_rows done_at target claimed (rows1, s, 0, 0) = (rows', s', p, f)"
      using assms(2) by (simp add: drain_outbox_def cl)
    from drain_rows_settles [OF C(1) this] show ?thesis by simp
  next
    case (Some g)
    show ?thesis
    proof (cases "fst (g (map to_projection_op claimed) s)")
      case (Inl e)
      then have "fail_all e claimed (rows1, 0) = (rows', f)" "p = 0"
        using assms(2) Some by (auto simp: drain_outbox_def cl split: prod.splits sum.splits)
      with fail_all_settles [OF C(1)] show ?thesis by fastforce
    next
      case (Inr results)
      then have "settle_results done_at claimed results (rows1, 0, 0) = (rows', p, f)"
        using assms(2) Some by (auto simp: drain_outbox_def cl split: prod.splits sum.splits)
      from settle_results_settles [OF C(1) this] show ?thesis by simp
    qed
  qed
  then show ?thesis
    using claim_length [of now batch rows] unfolding C(2,3,4)
    by (auto simp: list_all2_conv_all_nth settled_def split: if_splits)
qed

definition example_rows :: "outbox_row list" where
  "example_rows = [row_for ''o2'' 20 ''l2'' ''delete'' None, row_for ''o1'' 10 ''l1'' ''upsert'' None]"

text \<open>A target that refuses the deletes.\<close>

definition refusing :: "string list projection_target" where
  "refusing =
     \<lparr> tg_upsert = (\<lambda>l s. (None, l # s)), tg_remove = (\<lambda>l s. (Some ''down'', s)),
       tg_project_domain = None, tg_apply = None \<rparr>"

lemma refusing_drain:
  "drain_outbox 100 101 200 refusing example_rows [] =
    ([(row_for ''o2'' 20 ''l2'' ''delete'' None)\<lparr>ob_attempts := 1, ob_error := Some ''down''\<rparr>,
      (row_for ''o1'' 10 ''l1'' ''upsert'' None)\<lparr>ob_claimed := Some 100, ob_processed := Some 101\<rparr>], [''l1''], 1, 1)"
  by (simp add: drain_outbox_def claim_def claim_ids_def claimable_def example_rows_def row_for_def max_attempts_def
      refusing_def project_op_def to_projection_op_def domain_op_def mark_processed_def mark_failed_def Let_def)

theorem drain_settles_witness:
  "length (claim_ids 100 200 example_rows) = 2
   \<and> fst (drain_outbox 100 101 200 refusing example_rows []) ! 0
     = (row_for ''o2'' 20 ''l2'' ''delete'' None)\<lparr>ob_attempts := 1, ob_error := Some ''down''\<rparr>"
proof -
  have "distinct (map ob_id example_rows)" by (simp add: example_rows_def row_for_def)
  from drain_settles [OF this refusing_drain] show ?thesis by (simp add: refusing_drain)
qed

section \<open>Several workers\<close>

text \<open>
  A worker holds the ids it claimed and has not marked yet, with the time of its claim. The relation's
  one assumption about workers is the one the lease is sized for: a mark happens before the lease of
  its claim runs out. A worker may stop at any moment and never come back; the clock may jump; the API
  may enqueue and the pruning may run at any moment.
\<close>

record outbox_system =
  sys_clock :: int
  sys_rows :: "outbox_row list"
  sys_held :: "nat \<Rightarrow> (int \<times> string list) option"

definition holds :: "outbox_system \<Rightarrow> nat \<Rightarrow> string \<Rightarrow> bool" where
  "holds st w i =
     (case sys_held st w of None \<Rightarrow> False
      | Some (t, ids) \<Rightarrow> sys_clock st \<le> t + claim_lease \<and> i \<in> set ids)"

lemma holds_cong: "sys_clock st' = sys_clock st \<Longrightarrow> sys_held st' w = sys_held st w \<Longrightarrow> holds st' w i = holds st w i"
  by (simp add: holds_def split: option.split)

definition release :: "nat \<Rightarrow> string \<Rightarrow> outbox_system \<Rightarrow> nat \<Rightarrow> (int \<times> string list) option" where
  "release w i st = (sys_held st)(w := map_option (\<lambda>(t, ids). (t, removeAll i ids)) (sys_held st w))"

inductive outbox_step :: "outbox_system \<Rightarrow> outbox_system \<Rightarrow> bool" where
  Tick: "sys_clock st \<le> t \<Longrightarrow> outbox_step st (st\<lparr>sys_clock := t\<rparr>)"
| Enqueue: "rid \<notin> ob_id ` set (sys_rows st) \<Longrightarrow>
    outbox_step st (st\<lparr>sys_rows := sys_rows st @ [row_for rid (sys_clock st) link operation host]\<rparr>)"
| Claim: "claim (sys_clock st) batch (sys_rows st) = (rows, claimed) \<Longrightarrow>
    outbox_step st (st\<lparr>sys_rows := rows, sys_held := (sys_held st)(w \<mapsto> (sys_clock st, map ob_id claimed))\<rparr>)"
| Processed: "holds st w i \<Longrightarrow>
    outbox_step st (st\<lparr>sys_rows := mark_processed (sys_clock st) i (sys_rows st), sys_held := release w i st\<rparr>)"
| Failed: "holds st w i \<Longrightarrow>
    outbox_step st (st\<lparr>sys_rows := mark_failed e i (sys_rows st), sys_held := release w i st\<rparr>)"
| Crash: "outbox_step st (st\<lparr>sys_held := (sys_held st)(w := None)\<rparr>)"
| Prune: "outbox_step st (st\<lparr>sys_rows := fst (prune_outbox (sys_clock st) (sys_rows st))\<rparr>)"

inductive_cases outbox_stepE: "outbox_step st st'"

definition outbox_start :: "int \<Rightarrow> outbox_system" where
  "outbox_start t = \<lparr> sys_clock = t, sys_rows = [], sys_held = (\<lambda>_. None) \<rparr>"

inductive outbox_reach :: "outbox_system \<Rightarrow> bool" where
  Start: "outbox_reach (outbox_start t)"
| Step: "outbox_reach st \<Longrightarrow> outbox_step st st' \<Longrightarrow> outbox_reach st'"

text \<open>A row held under a running lease is the row of that claim, unprocessed and not yet at the bound.\<close>

definition row_ok :: "outbox_system \<Rightarrow> nat \<Rightarrow> string \<Rightarrow> bool" where
  "row_ok st w i =
     (\<exists>t ids. sys_held st w = Some (t, ids) \<and> t \<le> sys_clock st
        \<and> (\<forall>r \<in> set (sys_rows st). ob_id r = i \<longrightarrow>
              ob_claimed r = Some t \<and> ob_processed r = None \<and> ob_attempts r < max_attempts))"

definition outbox_ok :: "outbox_system \<Rightarrow> bool" where
  "outbox_ok st =
     (distinct (map ob_id (sys_rows st))
      \<and> (\<forall>r \<in> set (sys_rows st). ob_attempts r \<le> max_attempts)
      \<and> (\<forall>w i. holds st w i \<longrightarrow> i \<in> ob_id ` set (sys_rows st) \<and> row_ok st w i)
      \<and> (\<forall>w w' i. holds st w i \<longrightarrow> holds st w' i \<longrightarrow> w = w'))"

lemma outbox_okD:
  assumes "outbox_ok st"
  shows "distinct (map ob_id (sys_rows st))" "r \<in> set (sys_rows st) \<Longrightarrow> ob_attempts r \<le> max_attempts"
    "holds st w i \<Longrightarrow> i \<in> ob_id ` set (sys_rows st)" "holds st w i \<Longrightarrow> row_ok st w i"
    "holds st w i \<Longrightarrow> holds st w' i \<Longrightarrow> w = w'"
  using assms unfolding outbox_ok_def by blast+

lemma held_not_claimable:
  assumes "outbox_ok st" "holds st w i" "r \<in> set (sys_rows st)" "ob_id r = i"
  shows "\<not> claimable (sys_clock st) r"
  using outbox_okD(4) [OF assms(1,2)] assms(2-4)
  by (auto simp: row_ok_def holds_def claimable_def)

lemma held_not_claimed:
  assumes "outbox_ok st" "holds st w i"
  shows "i \<notin> set (claim_ids (sys_clock st) batch (sys_rows st))"
  using held_not_claimable [OF assms] claim_ids_subset [of "sys_clock st" batch "sys_rows st"] by auto

lemma claimed_claimable:
  assumes "distinct (map ob_id rows)" "r \<in> set rows" "ob_id r \<in> set (claim_ids now batch rows)"
  shows "claimable now r"
proof -
  obtain r' where "r' \<in> set rows" "claimable now r'" "ob_id r' = ob_id r"
    using assms(3) claim_ids_subset [of now batch rows] by auto
  then show ?thesis using assms(1,2) by (metis distinct_map inj_onD)
qed

lemma claim_ok:
  assumes ok: "outbox_ok st" and cl: "claim (sys_clock st) batch (sys_rows st) = (rows, claimed)"
  shows "outbox_ok (st\<lparr>sys_rows := rows, sys_held := (sys_held st)(w \<mapsto> (sys_clock st, map ob_id claimed))\<rparr>)"
    (is "outbox_ok ?st'")
proof -
  let ?ids = "claim_ids (sys_clock st) batch (sys_rows st)"
  note D = outbox_okD [OF ok]
  note C = claimed_ids [OF D(1) cl]
  have mem: "r \<in> set rows \<longleftrightarrow> (\<exists>r0 \<in> set (sys_rows st). r = (if ob_id r0 \<in> set ?ids then r0\<lparr>ob_claimed := Some (sys_clock st)\<rparr> else r0))" for r
    unfolding C(4) by auto
  have clk: "sys_clock ?st' = sys_clock st" by simp
  have old: "holds ?st' w' i \<longleftrightarrow> holds st w' i" if "w' \<noteq> w" for w' i
    using that unfolding holds_def clk by simp
  have new: "holds ?st' w i \<longleftrightarrow> i \<in> set ?ids" for i
    using C(2) by (auto simp: holds_def claim_lease_def)
  have ids: "map ob_id rows = map ob_id (sys_rows st)" by (simp add: C(4))
  have idset: "ob_id ` set rows = ob_id ` set (sys_rows st)" using ids by (metis list.set_map)
  show ?thesis
    unfolding outbox_ok_def
  proof (intro conjI allI ballI impI)
    show "distinct (map ob_id (sys_rows ?st'))" using D(1) by (simp add: ids)
    show "ob_attempts r \<le> max_attempts" if "r \<in> set (sys_rows ?st')" for r
      using that D(2) by (auto simp: mem)
    fix w' i assume h: "holds ?st' w' i"
    show "i \<in> ob_id ` set (sys_rows ?st')"
    proof (cases "w' = w")
      case True
      then show ?thesis using h new claim_ids_subset [of "sys_clock st" batch "sys_rows st"] by (auto simp: idset)
    next
      case False
      then show ?thesis using h old D(3) by (simp add: idset)
    qed
    show "row_ok ?st' w' i"
    proof (cases "w' = w")
      case True
      then have i: "i \<in> set ?ids" using h new by simp
      show ?thesis
        unfolding row_ok_def using True i claimed_claimable [OF D(1)]
        by (auto simp: mem claimable_def)
    next
      case False
      with h old have hs: "holds st w' i" by simp
      show ?thesis
        using D(4) [OF hs] held_not_claimed [OF ok hs, of batch] False
        by (auto simp: row_ok_def mem)
    qed
    fix w'' assume h': "holds ?st' w'' i"
    show "w' = w''"
      using h h' old new D(5) held_not_claimed [OF ok, of _ i batch] by metis
  qed
qed

lemma mark_ok:
  assumes ok: "outbox_ok st" and h: "holds st w i"
    and g: "\<And>r. ob_id (g r) = ob_id r" "\<And>r. ob_attempts (g r) \<le> ob_attempts r + 1"
    and rows: "rows = map (\<lambda>r. if ob_id r = i then g r else r) (sys_rows st)"
  shows "outbox_ok (st\<lparr>sys_rows := rows, sys_held := release w i st\<rparr>)" (is "outbox_ok ?st'")
proof -
  note D = outbox_okD [OF ok]
  have lt: "ob_attempts r < max_attempts" if "r \<in> set (sys_rows st)" "ob_id r = i" for r
    using D(4) [OF h] that by (auto simp: row_ok_def)
  have ids: "map ob_id rows = map ob_id (sys_rows st)" by (simp add: rows g)
  have idset: "ob_id ` set rows = ob_id ` set (sys_rows st)" using ids by (metis list.set_map)
  have held: "sys_held ?st' w' = (if w' = w then map_option (\<lambda>(t, ids). (t, removeAll i ids)) (sys_held st w) else sys_held st w')" for w'
    by (simp add: release_def)
  have clk: "sys_clock ?st' = sys_clock st" by simp
  have hold: "holds st w' j \<and> j \<noteq> i" if "holds ?st' w' j" for w' j
  proof (cases "w' = w")
    case True
    obtain t ks where "sys_held st w = Some (t, ks)" using h by (auto simp: holds_def split: option.splits)
    then show ?thesis using that True unfolding holds_def held clk by simp
  next
    case False
    then have "holds st w' j" using that unfolding holds_def held clk by simp
    then show ?thesis using D(5) [OF h, of w'] False by auto
  qed
  show ?thesis
    unfolding outbox_ok_def
  proof (intro conjI allI ballI impI)
    show "distinct (map ob_id (sys_rows ?st'))" using D(1) by (simp add: ids)
    show "ob_attempts r \<le> max_attempts" if "r \<in> set (sys_rows ?st')" for r
    proof -
      from that obtain r0 where r0: "r0 \<in> set (sys_rows st)" "r = (if ob_id r0 = i then g r0 else r0)"
        by (auto simp: rows)
      show ?thesis using r0 lt [OF r0(1)] g(2) [of r0] D(2) [OF r0(1)] by (auto split: if_splits)
    qed
    fix w' j assume hj: "holds ?st' w' j"
    from hold [OF hj] have hs: "holds st w' j" by simp
    show "j \<in> ob_id ` set (sys_rows ?st')" using D(3) [OF hs] by (simp add: idset)
    show "row_ok ?st' w' j"
      using D(4) [of w' j] hold [OF hj] g(1) unfolding row_ok_def held
      by (auto simp: rows)
    fix w'' assume "holds ?st' w'' j"
    then show "w' = w''" using hold hj D(5) by blast
  qed
qed

lemma tick_ok:
  assumes "outbox_ok st" "sys_clock st \<le> t"
  shows "outbox_ok (st\<lparr>sys_clock := t\<rparr>)"
proof -
  have hold: "holds st w i" if "holds (st\<lparr>sys_clock := t\<rparr>) w i" for w i
    using that assms(2) by (auto simp: holds_def split: option.splits)
  have "row_ok (st\<lparr>sys_clock := t\<rparr>) w i" if "row_ok st w i" for w i
    using that assms(2) by (force simp: row_ok_def)
  then show ?thesis
    using assms(1) hold unfolding outbox_ok_def by (metis outbox_system.select_convs(2) outbox_system.surjective
      outbox_system.update_convs(1))
qed

lemma rows_ok:
  assumes ok: "outbox_ok st" and d: "distinct (map ob_id rows)"
    and new: "\<And>r. r \<in> set rows \<Longrightarrow> r \<in> set (sys_rows st) \<or> (ob_id r \<notin> ob_id ` set (sys_rows st) \<and> ob_attempts r \<le> max_attempts)"
    and keep: "\<And>r. r \<in> set (sys_rows st) \<Longrightarrow> ob_processed r = None \<Longrightarrow> r \<in> set rows"
  shows "outbox_ok (st\<lparr>sys_rows := rows\<rparr>)" (is "outbox_ok ?st'")
proof -
  note D = outbox_okD [OF ok]
  have hold: "holds ?st' w i = holds st w i" for w i by (rule holds_cong) simp_all
  show ?thesis
    unfolding outbox_ok_def hold
  proof (intro conjI allI ballI impI)
    show "distinct (map ob_id (sys_rows ?st'))" using d by simp
    show "ob_attempts r \<le> max_attempts" if "r \<in> set (sys_rows ?st')" for r
      using that new D(2) by auto
    fix w i assume h: "holds st w i"
    from D(3) [OF h] obtain r where r: "r \<in> set (sys_rows st)" "ob_id r = i" by auto
    with D(4) [OF h] have "ob_processed r = None" by (auto simp: row_ok_def)
    with keep r show "i \<in> ob_id ` set (sys_rows ?st')" by auto
    show "row_ok ?st' w i"
      using D(3,4) [OF h] new by (fastforce simp: row_ok_def)
    show "w = w'" if "holds st w' i" for w' using D(5) [OF h that] .
  qed
qed

lemma outbox_step_ok: "outbox_step st st' \<Longrightarrow> outbox_ok st \<Longrightarrow> outbox_ok st'"
proof (induction rule: outbox_step.induct)
  case (Tick st t)
  then show ?case by (simp add: tick_ok)
next
  case (Enqueue rid st link operation host)
  show ?case
  proof (rule rows_ok [OF Enqueue(2)])
    show "distinct (map ob_id (sys_rows st @ [row_for rid (sys_clock st) link operation host]))"
      using outbox_okD(1) [OF Enqueue(2)] Enqueue(1) by (simp add: row_for_def)
  qed (use Enqueue(1) in \<open>auto simp: row_for_def\<close>)
next
  case (Claim st batch rows claimed w)
  then show ?case by (simp add: claim_ok)
next
  case (Processed st w i)
  show ?case
    by (rule mark_ok [OF Processed(2,1), where g = "\<lambda>r. r\<lparr>ob_processed := Some (sys_clock st)\<rparr>"])
       (simp_all add: mark_processed_def)
next
  case (Failed st w i e)
  show ?case
    by (rule mark_ok [OF Failed(2,1), where g = "\<lambda>r. r\<lparr>ob_attempts := ob_attempts r + 1, ob_error := Some (take 500 e), ob_claimed := None\<rparr>"])
       (simp_all add: mark_failed_def)
next
  case (Crash st w)
  let ?st' = "st\<lparr>sys_held := (sys_held st)(w := None)\<rparr>"
  have "holds ?st' w' i \<longleftrightarrow> w' \<noteq> w \<and> holds st w' i" for w' i
  proof (cases "w' = w")
    case True
    then show ?thesis by (simp add: holds_def)
  next
    case False
    then have "holds ?st' w' i = holds st w' i" by (intro holds_cong) simp_all
    with False show ?thesis by simp
  qed
  then show ?case using Crash unfolding outbox_ok_def row_ok_def by simp blast
next
  case (Prune st)
  show ?case
    by (rule rows_ok [OF Prune])
       (use outbox_okD(1) [OF Prune] in \<open>auto simp: prune_outbox_def Let_def distinct_map intro: inj_on_subset\<close>)
qed

lemma outbox_reach_ok: "outbox_reach st \<Longrightarrow> outbox_ok st"
proof (induction rule: outbox_reach.induct)
  case (Start t)
  show ?case by (simp add: outbox_ok_def outbox_start_def holds_def)
next
  case (Step st st')
  then show ?case by (blast intro: outbox_step_ok)
qed


text \<open>No row is tried more often than the bound, whatever the workers do.\<close>

lemma outbox_attempts_bounded: "outbox_reach st \<Longrightarrow> r \<in> set (sys_rows st) \<Longrightarrow> ob_attempts r \<le> 8"
  using outbox_okD(2) [OF outbox_reach_ok] by (fastforce simp: max_attempts_def)

definition one_claimed :: outbox_system where
  "one_claimed =
     \<lparr> sys_clock = 5, sys_rows = [(row_for ''o1'' 5 ''l1'' ''upsert'' None)\<lparr>ob_claimed := Some 5\<rparr>],
       sys_held = [7 \<mapsto> (5, [''o1''])] \<rparr>"


section \<open>The sweep\<close>

lemma enqueue_rows_keeps: "r \<in> set rows \<Longrightarrow> r \<in> set (enqueue_rows new_id now ops rows)"
  by (simp add: enqueue_rows_def)

lemma enqueue_rows_new:
  "k < length ops \<Longrightarrow> ops ! k = (link, operation, host)
   \<Longrightarrow> row_for (new_id (length rows + k)) now link operation host \<in> set (enqueue_rows new_id now ops rows)"
  by (force simp: enqueue_rows_def image_iff)

lemma enqueued_pending:
  assumes "(link, operation, host) \<in> set ops"
  shows "\<exists>r \<in> set (enqueue_rows new_id now ops rows). ob_link r = link \<and> ob_processed r = None \<and> ob_attempts r < max_attempts"
proof -
  obtain k where "k < length ops" "ops ! k = (link, operation, host)" using assms by (auto simp: in_set_conv_nth)
  then have "row_for (new_id (length rows + k)) now link operation host \<in> set (enqueue_rows new_id now ops rows)"
    by (rule enqueue_rows_new)
  then show ?thesis by (force simp: row_for_def max_attempts_def)
qed

text \<open>
  Neither the sweep nor the backfill piles rows up: run a second time before the drain has worked
  through what the first run queued, on the same links (at the same instant) and the same domains (at any
  instant), each of them queues nothing at all.
\<close>

theorem sweeps_do_not_pile_up:
  "snd (sweep_expired new_id' now links (fst (sweep_expired new_id now links rows))) = 0
   \<and> snd (backfill_domain_meta new_id' later ds (fst (backfill_domain_meta new_id now ds rows))) = 0"
proof
  let ?ops = "map (\<lambda>l. (sl_id l, ''upsert'', None :: string option)) (List.filter (newly_expired now rows) links)"
  let ?rows = "enqueue_rows new_id now ?ops rows"
  have "\<not> newly_expired now ?rows l" if l: "l \<in> set links" for l
  proof
    assume n: "newly_expired now ?rows l"
    have "newly_expired now rows l"
      using n enqueue_rows_keeps unfolding newly_expired_def list_ex_iff by blast
    with l have "(sl_id l, ''upsert'', None) \<in> set ?ops" by auto
    from enqueued_pending [OF this, of new_id now rows] n show False
      unfolding newly_expired_def list_ex_iff by blast
  qed
  then show "snd (sweep_expired new_id' now links (fst (sweep_expired new_id now links rows))) = 0"
    by (simp add: sweep_expired_def Let_def filter_empty_conv)
next
  let ?ops = "map (\<lambda>d. (sd_id d, domain_op, Some (js_lower (sql_trim (sd_domain d))))) (List.filter (backfill_candidate rows) ds)"
  let ?rows = "enqueue_rows new_id now ?ops rows"
  have "\<not> backfill_candidate ?rows d" if d: "d \<in> set ds" for d
  proof
    assume n: "backfill_candidate ?rows d"
    have "backfill_candidate rows d"
      using n enqueue_rows_keeps unfolding backfill_candidate_def list_ex_iff by blast
    with d have "(sd_id d, domain_op, Some (js_lower (sql_trim (sd_domain d)))) \<in> set ?ops" by auto
    from enqueued_pending [OF this, of new_id now rows] n show False
      unfolding backfill_candidate_def list_ex_iff by blast
  qed
  then show "snd (backfill_domain_meta new_id' later ds (fst (backfill_domain_meta new_id now ds rows))) = 0"
    by (simp add: backfill_domain_meta_def Let_def filter_empty_conv)
qed

text \<open>One hourly round: the sweep, then a drain of everything that is pending.\<close>

definition sweep_and_drain :: "(nat \<Rightarrow> string) \<Rightarrow> int \<Rightarrow> sweep_link list \<Rightarrow> outbox_row list \<Rightarrow> outbox_row list \<times> nat" where
  "sweep_and_drain new_id now links rows =
     (let (rows1, n) = sweep_expired new_id now links rows;
          (rows2, u, p, f) = drain_outbox now now default_batch no_projection rows1 ()
      in (rows2, n))"

definition expired_sweep_link :: sweep_link where
  "expired_sweep_link = \<lparr> sl_id = ''l1'', sl_archived = False, sl_expires = Some 50, sl_click_limit = None, sl_clicks = Some 3 \<rparr>"

definition id_of :: "nat \<Rightarrow> string" where
  "id_of n = CHR ''o'' # show_nat n"


text \<open>
  The sweep takes a row that has given up for a pending one, where the backfill does not: a link whose
  projection is broken is never swept again.
\<close>

lemma sweep_skips_given_up:
  "snd (sweep_expired id_of 100 [expired_sweep_link] [(row_for ''o1'' 5 ''l1'' ''upsert'' None)\<lparr>ob_attempts := 8\<rparr>]) = 0
   \<and> snd (backfill_domain_meta id_of 100
        [\<lparr> sd_id = ''d1'', sd_domain = ''go.example'', sd_status = ''live'', sd_root = Some ''https://a.b/'', sd_not_found = None \<rparr>]
        [(row_for ''o1'' 5 ''d1'' ''domain'' None)\<lparr>ob_attempts := 8\<rparr>]) = 1"
  by (simp add: sweep_expired_def newly_expired_def expired_sweep_link_def row_for_def backfill_domain_meta_def
      backfill_candidate_def max_attempts_def Let_def)

end
