(* ===== verification/Projection.thy ===== *)
theory Projection
  imports Outbox
begin

text \<open>
  The writer of the DynamoDB projection (\<open>apps/worker/src/jobs/dynamo-projection.ts\<close>) and of the edge
  key-value store (\<open>apps/worker/src/jobs/kvs-projection.ts\<close>). The two AWS services are parameters: what
  a batch write leaves unprocessed or throws, whether a conditional put or a cache delete throws, and how
  a conditional write of the key-value store ends; which items a write touches, and the condition of a
  domain item, are in the model. Postgres is read as one snapshot per drain.
\<close>

section \<open>What Postgres holds\<close>

record link_row =
  lr_id :: string
  lr_workspace_id :: string
  lr_slug :: string
  lr_destination :: string
  lr_redirect_type :: redirect_type
  lr_rules :: "routing_rule list"
  lr_expires_at :: "int option"
  lr_expires_to :: "string option"
  lr_activates_at :: "int option"
  lr_scheduled_to :: "string option"
  lr_click_limit :: "int option"
  lr_clicks :: "int option"
  lr_password_hash :: "string option"
  lr_forward_query :: bool
  lr_deep_link :: bool
  lr_hide_referrer :: bool
  lr_public_preview :: bool
  lr_archived_at :: "int option"
  lr_disabled_at :: "int option"
  lr_owner_unverified :: bool
  lr_safe_browsing_status :: string
  lr_utm :: "utm option"
  lr_domain :: string
  lr_domain_id :: string
  lr_domain_status :: string
  lr_root_redirect :: "string option"
  lr_not_found_redirect :: "string option"
  lr_domain_updated_at :: "int option"

record domain_row =
  dr_id :: string
  dr_domain :: string
  dr_status :: string
  dr_root_redirect :: "string option"
  dr_not_found_redirect :: "string option"
  dr_updated_at :: "int option"

section \<open>Domain items and their order\<close>

text \<open>JavaScript's \<open><\<close> on strings, which on these ASCII texts is DynamoDB's byte order too.\<close>

fun str_less :: "string \<Rightarrow> string \<Rightarrow> bool" where
  "str_less xs [] = False"
| "str_less [] (y # ys) = True"
| "str_less (x # xs) (y # ys) = (cu x < cu y \<or> x = y \<and> str_less xs ys)"

definition str_le :: "string \<Rightarrow> string \<Rightarrow> bool" where
  "str_le a b = (\<not> str_less b a)"

definition version_of :: "int option \<Rightarrow> string" where
  "version_of updated_at = to_iso (or_else updated_at 0)"

definition supersedes :: "domain_item \<Rightarrow> domain_item \<Rightarrow> bool" where
  "supersedes a b =
     (if di_id a \<noteq> di_id b then str_less (di_id b) (di_id a)
      else if di_deleted a \<noteq> di_deleted b then di_deleted a
      else str_le (or_else (di_version b) []) (or_else (di_version a) []))"

text \<open>The condition expression of the put, evaluated on the stored item.\<close>

definition meta_condition :: "domain_item \<Rightarrow> domain_item option \<Rightarrow> bool" where
  "meta_condition i stored =
     (case stored of None \<Rightarrow> True
      | Some s \<Rightarrow>
          if di_deleted i then str_le (di_id s) (di_id i)
          else str_less (di_id s) (di_id i)
               \<or> di_id s = di_id i \<and> \<not> di_deleted s
                 \<and> (case di_version s of None \<Rightarrow> True
                    | Some v \<Rightarrow> str_le v (or_else (di_version i) (version_of None))))"

definition di_key :: "domain_item \<Rightarrow> string \<times> string" where
  "di_key i = (di_pk i, di_sk i)"

section \<open>The stores\<close>

datatype write_request = PutItem link_item | DeleteItem "string \<times> string"

fun request_key :: "write_request \<Rightarrow> string \<times> string" where
  "request_key (PutItem i) = (it_pk i, it_sk i)"
| "request_key (DeleteItem k) = k"

record projection_store =
  ps_items :: "link_item list"
  ps_meta :: "domain_item list"
  ps_kvs :: "string \<rightharpoonup> edge_value"
  ps_cache :: store

definition it_key :: "link_item \<Rightarrow> string \<times> string" where
  "it_key i = (it_pk i, it_sk i)"

definition item_at :: "string \<times> string \<Rightarrow> projection_store \<Rightarrow> link_item option" where
  "item_at k st = List.find (\<lambda>i. it_key i = k) (ps_items st)"

definition meta_at :: "string \<times> string \<Rightarrow> projection_store \<Rightarrow> domain_item option" where
  "meta_at k st = List.find (\<lambda>i. di_key i = k) (ps_meta st)"

definition apply_request :: "write_request \<Rightarrow> projection_store \<Rightarrow> projection_store" where
  "apply_request r st =
     st\<lparr>ps_items := List.filter (\<lambda>i. it_key i \<noteq> request_key r) (ps_items st)
                      @ (case r of PutItem i \<Rightarrow> [i] | DeleteItem k \<Rightarrow> [])\<rparr>"

datatype kvs_outcome = Applied | Conflicting | Broken string

record 'u projection_env =
  pe_api :: "'u url_api"
  pe_bytes :: "edge_value \<Rightarrow> nat"
  pe_link_row :: "string \<Rightarrow> string + link_row option"
  pe_domain_row :: "string \<Rightarrow> string + domain_row option"
  pe_query :: "string \<Rightarrow> string option"
  pe_batch :: "nat \<Rightarrow> write_request list \<Rightarrow> string + write_request list"
  pe_put_meta :: "domain_item \<Rightarrow> string option"
  pe_kvs :: "nat \<Rightarrow> string \<Rightarrow> kvs_outcome"
  pe_cache_del :: "string \<Rightarrow> string option"
  pe_kvs_on :: bool
  pe_cache_on :: bool

section \<open>The edge key-value store\<close>

definition kvs_max_attempts :: nat where
  "kvs_max_attempts = 3"

definition max_value_bytes :: nat where
  "max_value_bytes = 1024"

text \<open>The outcomes of the attempts so far, oldest first; the write lands on the first that is applied.\<close>

fun with_etag :: "nat \<Rightarrow> nat \<Rightarrow> (nat \<Rightarrow> kvs_outcome) \<Rightarrow> projection_store \<Rightarrow> projection_store
    \<Rightarrow> string option \<times> projection_store" where
  "with_etag 0 attempt outcome done_st st = (Some ''ConflictException'', st)"
| "with_etag (Suc n) attempt outcome done_st st =
     (case outcome attempt of
        Applied \<Rightarrow> (None, done_st)
      | Conflicting \<Rightarrow> with_etag n (Suc attempt) outcome done_st st
      | Broken e \<Rightarrow> (Some e, st))"

definition kvs_put :: "'u projection_env \<Rightarrow> string \<Rightarrow> edge_value \<Rightarrow> projection_store \<Rightarrow> string option \<times> projection_store" where
  "kvs_put env key v st =
     with_etag kvs_max_attempts 0 (\<lambda>a. pe_kvs env a key) (st\<lparr>ps_kvs := (ps_kvs st)(key \<mapsto> v)\<rparr>) st"

definition kvs_delete :: "'u projection_env \<Rightarrow> string \<Rightarrow> projection_store \<Rightarrow> string option \<times> projection_store" where
  "kvs_delete env key st =
     with_etag kvs_max_attempts 0 (\<lambda>a. pe_kvs env a key) (st\<lparr>ps_kvs := (ps_kvs st)(key := None)\<rparr>) st"

definition put_if_eligible :: "'u projection_env \<Rightarrow> resolved_link \<Rightarrow> string \<Rightarrow> string \<Rightarrow> projection_store
    \<Rightarrow> string option \<times> projection_store" where
  "put_if_eligible env l host slug st =
     (let key = kvs_key host slug in
      if is_edge_eligible l then
        (let v = kvs_value (pe_api env) l in
         if max_value_bytes < pe_bytes env v then kvs_delete env key st else kvs_put env key v st)
      else kvs_delete env key st)"

section \<open>Batch writes\<close>

definition batch_limit :: nat where
  "batch_limit = 25"

definition max_batch_attempts :: nat where
  "max_batch_attempts = 5"

function chunks :: "nat \<Rightarrow> 'a list \<Rightarrow> 'a list list" where
  "chunks n xs = (if n = 0 \<or> xs = [] then [] else take n xs # chunks n (drop n xs))"
  by pat_completeness auto

termination chunks
  by (relation "measure (length \<circ> snd)") auto

declare chunks.simps [simp del]

definition unprocessed_message :: "nat \<Rightarrow> string" where
  "unprocessed_message n =
     ''Error: dynamodb: '' @ show_nat n @ '' projection item(s) still unprocessed after ''
       @ show_nat max_batch_attempts @ '' BatchWrite attempts''"

fun flush_attempts :: "'u projection_env \<Rightarrow> nat list \<Rightarrow> write_request list \<Rightarrow> projection_store
    \<Rightarrow> string option \<times> projection_store" where
  "flush_attempts env [] batch st = (Some (unprocessed_message (length batch)), st)"
| "flush_attempts env (a # as) batch st =
     (case pe_batch env a batch of
        Inl e \<Rightarrow> (Some e, st)
      | Inr remaining \<Rightarrow>
          (let st' = fold apply_request (List.filter (\<lambda>r. r \<notin> set remaining) batch) st
           in if remaining = [] then (None, st') else flush_attempts env as remaining st'))"

definition flush_batch :: "'u projection_env \<Rightarrow> write_request list \<Rightarrow> projection_store \<Rightarrow> string option \<times> projection_store" where
  "flush_batch env batch st =
     (if batch = [] then (None, st) else flush_attempts env [0..<max_batch_attempts] batch st)"

fun flush_all :: "'u projection_env \<Rightarrow> write_request list list \<Rightarrow> projection_store \<Rightarrow> string option \<times> projection_store" where
  "flush_all env [] st = (None, st)"
| "flush_all env (b # bs) st =
     (case flush_batch env b st of (None, st') \<Rightarrow> flush_all env bs st' | (Some e, st') \<Rightarrow> (Some e, st'))"

definition flush :: "'u projection_env \<Rightarrow> write_request list \<Rightarrow> projection_store \<Rightarrow> string option \<times> projection_store" where
  "flush env requests st = flush_all env (chunks batch_limit requests) st"

definition write_meta :: "'u projection_env \<Rightarrow> domain_item \<Rightarrow> projection_store \<Rightarrow> string option \<times> projection_store" where
  "write_meta env i st =
     (case pe_put_meta env i of
        Some e \<Rightarrow> (Some e, st)
      | None \<Rightarrow>
          if meta_condition i (meta_at (di_key i) st)
          then (None, st\<lparr>ps_meta := List.filter (\<lambda>j. di_key j \<noteq> di_key i) (ps_meta st) @ [i]\<rparr>)
          else (None, st))"

section \<open>Resolving an operation\<close>

datatype edge_work = EdgePut resolved_link string string | EdgeDelete "(string \<times> string) list"

record upsert_resolution =
  ur_requests :: "write_request list"
  ur_meta :: "domain_item option"
  ur_edge :: "(resolved_link \<times> string \<times> string) option"

definition projected_link :: "link_row \<Rightarrow> resolved_link" where
  "projected_link r = \<lparr>
     lk_id = lr_id r, lk_workspace_id = lr_workspace_id r, lk_destination = lr_destination r,
     lk_redirect_type = lr_redirect_type r, lk_rules = lr_rules r, lk_expires_at = lr_expires_at r,
     lk_expires_to = lr_expires_to r, lk_activates_at = lr_activates_at r, lk_scheduled_to = lr_scheduled_to r,
     lk_click_limit = lr_click_limit r, lk_clicks = or_else (lr_clicks r) 0,
     lk_has_password = (case lr_password_hash r of None \<Rightarrow> False | Some h \<Rightarrow> h \<noteq> []),
     lk_forward_query = lr_forward_query r, lk_deep_link = lr_deep_link r, lk_hide_referrer = lr_hide_referrer r,
     lk_public_preview = lr_public_preview r, lk_archived = (lr_archived_at r \<noteq> None),
     lk_disabled = (lr_disabled_at r \<noteq> None), lk_owner_unverified = lr_owner_unverified r,
     lk_safe_browsing_status = lr_safe_browsing_status r, lk_utm = lr_utm r \<rparr>"

definition nothing_to_write :: upsert_resolution where
  "nothing_to_write = \<lparr> ur_requests = [], ur_meta = None, ur_edge = None \<rparr>"

definition build_upsert_requests :: "'u projection_env \<Rightarrow> string \<Rightarrow> string + upsert_resolution" where
  "build_upsert_requests env link_id =
     (case pe_link_row env link_id of
        Inl e \<Rightarrow> Inl e
      | Inr None \<Rightarrow> Inr nothing_to_write
      | Inr (Some r) \<Rightarrow>
          if lr_domain_status r \<noteq> ''live'' then Inr nothing_to_write
          else
            let l = projected_link r;
                d = \<lparr> dm_id = lr_domain_id r, dm_root_redirect = lr_root_redirect r,
                      dm_not_found_redirect = lr_not_found_redirect r \<rparr>
            in Inr \<lparr> ur_requests = [PutItem (to_link_item l (lr_domain r) (lr_slug r))],
                     ur_meta = Some (to_domain_item (lr_domain r) d (Some (version_of (lr_domain_updated_at r))) False),
                     ur_edge = Some (l, lr_domain r, lr_slug r) \<rparr>)"

definition build_domain_meta :: "'u projection_env \<Rightarrow> string \<Rightarrow> string option \<Rightarrow> string + domain_item option" where
  "build_domain_meta env domain_id host =
     (case pe_domain_row env domain_id of
        Inl e \<Rightarrow> Inl e
      | Inr (Some r) \<Rightarrow>
          let is_live = (dr_status r = ''live'') in
          Inr (Some (to_domain_item (dr_domain r)
            \<lparr> dm_id = dr_id r, dm_root_redirect = (if is_live then dr_root_redirect r else None),
               dm_not_found_redirect = (if is_live then dr_not_found_redirect r else None) \<rparr>
            (Some (version_of (dr_updated_at r))) False))
      | Inr None \<Rightarrow>
          (case host of
             Some h \<Rightarrow>
               Inr (if h = [] then None
                    else Some (to_domain_item h
                      \<lparr> dm_id = domain_id, dm_root_redirect = None, dm_not_found_redirect = None \<rparr> None True))
           | None \<Rightarrow> Inr None))"

definition build_delete_requests :: "'u projection_env \<Rightarrow> projection_store \<Rightarrow> string \<Rightarrow> string + write_request list" where
  "build_delete_requests env st link_id =
     (case pe_query env link_id of
        Some e \<Rightarrow> Inl e
      | None \<Rightarrow> Inr (map (\<lambda>i. DeleteItem (it_key i)) (List.filter (\<lambda>i. it_link_id i = link_id) (ps_items st))))"

text \<open>The host and slug a delete carries in its key.\<close>

fun edge_target :: "write_request \<Rightarrow> (string \<times> string) list" where
  "edge_target (PutItem i) = []"
| "edge_target (DeleteItem (pk, sk)) =
     (if starts_with pk ''d#'' \<and> starts_with sk ''s#'' then [(drop 2 pk, drop 2 sk)] else [])"

definition edge_targets_of :: "write_request list \<Rightarrow> (string \<times> string) list" where
  "edge_targets_of requests = concat (map edge_target requests)"

definition bust_cache :: "'u projection_env \<Rightarrow> string \<Rightarrow> string \<Rightarrow> projection_store \<Rightarrow> string option \<times> projection_store" where
  "bust_cache env host slug st =
     (if \<not> pe_cache_on env then (None, st)
      else case pe_cache_del env (link_cache_key host slug) of
          Some e \<Rightarrow> (Some e, st)
        | None \<Rightarrow> (None, st\<lparr>ps_cache := cache_del (ps_cache st) (link_cache_key host slug)\<rparr>))"

definition edge_put :: "'u projection_env \<Rightarrow> resolved_link \<Rightarrow> string \<Rightarrow> string \<Rightarrow> projection_store
    \<Rightarrow> string option \<times> projection_store" where
  "edge_put env l host slug st =
     (case (if pe_kvs_on env then put_if_eligible env l host slug st else (None, st)) of
        (Some e, st') \<Rightarrow> (Some e, st')
      | (None, st') \<Rightarrow> bust_cache env host slug st')"

fun edge_delete :: "'u projection_env \<Rightarrow> (string \<times> string) list \<Rightarrow> projection_store \<Rightarrow> string option \<times> projection_store" where
  "edge_delete env [] st = (None, st)"
| "edge_delete env ((host, slug) # ts) st =
     (case (if pe_kvs_on env then kvs_delete env (kvs_key host slug) st else (None, st)) of
        (Some e, st') \<Rightarrow> (Some e, st')
      | (None, st') \<Rightarrow>
          (case bust_cache env host slug st' of
             (Some e, st'') \<Rightarrow> (Some e, st'')
           | (None, st'') \<Rightarrow> edge_delete env ts st''))"

fun run_edge :: "'u projection_env \<Rightarrow> edge_work \<Rightarrow> projection_store \<Rightarrow> string option \<times> projection_store" where
  "run_edge env (EdgePut l host slug) st = edge_put env l host slug st"
| "run_edge env (EdgeDelete ts) st = edge_delete env ts st"

section \<open>One operation at a time\<close>

definition dynamo_upsert :: "'u projection_env \<Rightarrow> string \<Rightarrow> projection_store \<Rightarrow> string option \<times> projection_store" where
  "dynamo_upsert env link_id st =
     (case build_upsert_requests env link_id of
        Inl e \<Rightarrow> (Some e, st)
      | Inr res \<Rightarrow>
          (case flush env (ur_requests res) st of
             (Some e, st') \<Rightarrow> (Some e, st')
           | (None, st') \<Rightarrow>
               (case (case ur_meta res of None \<Rightarrow> (None, st') | Some i \<Rightarrow> write_meta env i st') of
                  (Some e, st'') \<Rightarrow> (Some e, st'')
                | (None, st'') \<Rightarrow>
                    (case ur_edge res of None \<Rightarrow> (None, st'') | Some (l, host, slug) \<Rightarrow> edge_put env l host slug st''))))"

definition dynamo_remove :: "'u projection_env \<Rightarrow> string \<Rightarrow> projection_store \<Rightarrow> string option \<times> projection_store" where
  "dynamo_remove env link_id st =
     (case build_delete_requests env st link_id of
        Inl e \<Rightarrow> (Some e, st)
      | Inr requests \<Rightarrow>
          (case flush env requests st of
             (Some e, st') \<Rightarrow> (Some e, st')
           | (None, st') \<Rightarrow> edge_delete env (edge_targets_of requests) st'))"

definition dynamo_project_domain :: "'u projection_env \<Rightarrow> string \<Rightarrow> string option \<Rightarrow> projection_store
    \<Rightarrow> string option \<times> projection_store" where
  "dynamo_project_domain env domain_id host st =
     (case build_domain_meta env domain_id host of
        Inl e \<Rightarrow> (Some e, st)
      | Inr None \<Rightarrow> (None, st)
      | Inr (Some i) \<Rightarrow> write_meta env i st)"

section \<open>A batch of operations\<close>

text \<open>The requests of a batch, one per key in the order the keys came, each with the operations it is for.\<close>

fun add_request :: "nat \<Rightarrow> write_request \<Rightarrow> (write_request \<times> nat list) list \<Rightarrow> (write_request \<times> nat list) list" where
  "add_request k r [] = [(r, [k])]"
| "add_request k r ((r', ks) # es) =
     (if request_key r' = request_key r then (r, List.insert k ks) # es else (r', ks) # add_request k r es)"

fun add_meta :: "nat \<Rightarrow> domain_item \<Rightarrow> (domain_item \<times> nat list) list \<Rightarrow> (domain_item \<times> nat list) list" where
  "add_meta k i [] = [(i, [k])]"
| "add_meta k i ((j, ks) # es) =
     (if di_key j = di_key i then (if supersedes i j then i else j, List.insert k ks) # es
      else (j, ks) # add_meta k i es)"

record batch_plan =
  bp_results :: "projection_result list"
  bp_requests :: "(write_request \<times> nat list) list"
  bp_metas :: "(domain_item \<times> nat list) list"
  bp_edges :: "(nat \<times> edge_work) list"

definition resolve_op :: "'u projection_env \<Rightarrow> projection_store \<Rightarrow> projection_op
    \<Rightarrow> string + write_request list \<times> domain_item option \<times> edge_work option" where
  "resolve_op env st op =
     (if op_operation op = domain_op then
        (case build_domain_meta env (op_link op) (op_payload_host op) of
           Inl e \<Rightarrow> Inl e | Inr i \<Rightarrow> Inr ([], i, None))
      else if op_operation op = ''delete'' then
        (case build_delete_requests env st (op_link op) of
           Inl e \<Rightarrow> Inl e
         | Inr requests \<Rightarrow>
             Inr (requests, None,
                  if pe_kvs_on env \<or> pe_cache_on env then Some (EdgeDelete (edge_targets_of requests)) else None))
      else
        (case build_upsert_requests env (op_link op) of
           Inl e \<Rightarrow> Inl e
         | Inr res \<Rightarrow>
             Inr (ur_requests res, ur_meta res,
                  if pe_kvs_on env \<or> pe_cache_on env
                  then map_option (\<lambda>(l, host, slug). EdgePut l host slug) (ur_edge res) else None)))"

definition plan_op :: "'u projection_env \<Rightarrow> projection_store \<Rightarrow> projection_op \<Rightarrow> batch_plan \<Rightarrow> batch_plan" where
  "plan_op env st op bp =
     (let k = length (bp_results bp) in
      case resolve_op env st op of
        Inl e \<Rightarrow>
          bp\<lparr>bp_results := bp_results bp @ [\<lparr> pr_link = op_link op, pr_ok = False, pr_error = Some e \<rparr>]\<rparr>
      | Inr (requests, i, edge) \<Rightarrow>
          \<lparr> bp_results = bp_results bp @ [\<lparr> pr_link = op_link op, pr_ok = True, pr_error = None \<rparr>],
             bp_requests = fold (add_request k) requests (bp_requests bp),
             bp_metas = (case i of None \<Rightarrow> bp_metas bp | Some j \<Rightarrow> add_meta k j (bp_metas bp)),
             bp_edges = bp_edges bp @ (case edge of None \<Rightarrow> [] | Some w \<Rightarrow> [(k, w)]) \<rparr>)"

definition plan_batch :: "'u projection_env \<Rightarrow> projection_store \<Rightarrow> projection_op list \<Rightarrow> batch_plan" where
  "plan_batch env st ops =
     fold (plan_op env st) ops \<lparr> bp_results = [], bp_requests = [], bp_metas = [], bp_edges = [] \<rparr>"

definition fail_op :: "string \<Rightarrow> nat \<Rightarrow> projection_result list \<Rightarrow> projection_result list" where
  "fail_op e k results = results[k := (results ! k)\<lparr>pr_ok := False, pr_error := Some e\<rparr>]"

definition fail_owners :: "string \<Rightarrow> nat list \<Rightarrow> projection_result list \<Rightarrow> projection_result list" where
  "fail_owners e ks results = fold (fail_op e) ks results"

fun write_slices :: "'u projection_env \<Rightarrow> (write_request \<times> nat list) list list
    \<Rightarrow> projection_result list \<times> projection_store \<Rightarrow> projection_result list \<times> projection_store" where
  "write_slices env [] acc = acc"
| "write_slices env (sl # sls) (results, st) =
     (case flush env (map fst sl) st of
        (None, st') \<Rightarrow> write_slices env sls (results, st')
      | (Some e, st') \<Rightarrow> write_slices env sls (fail_owners e (concat (map snd sl)) results, st'))"

fun write_metas :: "'u projection_env \<Rightarrow> (domain_item \<times> nat list) list
    \<Rightarrow> projection_result list \<times> projection_store \<Rightarrow> projection_result list \<times> projection_store" where
  "write_metas env [] acc = acc"
| "write_metas env ((i, ks) # ms) (results, st) =
     (case write_meta env i st of
        (None, st') \<Rightarrow> write_metas env ms (results, st')
      | (Some e, st') \<Rightarrow> write_metas env ms (fail_owners e ks results, st'))"

fun run_edges :: "'u projection_env \<Rightarrow> (nat \<times> edge_work) list
    \<Rightarrow> projection_result list \<times> projection_store \<Rightarrow> projection_result list \<times> projection_store" where
  "run_edges env [] acc = acc"
| "run_edges env ((k, w) # ws) (results, st) =
     (if \<not> pr_ok (results ! k) then run_edges env ws (results, st)
      else case run_edge env w st of
          (None, st') \<Rightarrow> run_edges env ws (results, st')
        | (Some e, st') \<Rightarrow> run_edges env ws (fail_op e k results, st'))"

definition apply_ops :: "'u projection_env \<Rightarrow> projection_op list \<Rightarrow> projection_store
    \<Rightarrow> projection_result list \<times> projection_store" where
  "apply_ops env ops st =
     (let bp = plan_batch env st ops
      in run_edges env (bp_edges bp)
           (write_metas env (bp_metas bp)
             (write_slices env (chunks batch_limit (bp_requests bp)) (bp_results bp, st))))"

definition dynamo_projection :: "'u projection_env \<Rightarrow> projection_store projection_target" where
  "dynamo_projection env =
     \<lparr> tg_upsert = dynamo_upsert env, tg_remove = dynamo_remove env,
       tg_project_domain = Some (dynamo_project_domain env),
       tg_apply = Some (\<lambda>ops st. let (results, st') = apply_ops env ops st in (Inr results, st')) \<rparr>"

section \<open>Frames\<close>

named_theorems frame_simps "what an operation of the writer leaves alone"

lemma apply_request_frame [frame_simps]:
  "ps_meta (apply_request r st) = ps_meta st" "ps_kvs (apply_request r st) = ps_kvs st"
  "ps_cache (apply_request r st) = ps_cache st"
  by (simp_all add: apply_request_def)

lemma with_etag_cases:
  "with_etag n a outcome done_st st = (e, st') \<Longrightarrow> (e = None \<and> st' = done_st) \<or> (e \<noteq> None \<and> st' = st)"
  by (induction n arbitrary: a) (auto split: kvs_outcome.splits)

lemma with_etag_frame:
  assumes "f done_st = f st"
  shows "f (snd (with_etag n a outcome done_st st)) = f st"
  using with_etag_cases [of n a outcome done_st st "fst (with_etag n a outcome done_st st)"] assms
  by (metis prod.collapse)

lemma kvs_frame [frame_simps]:
  "ps_items (snd (kvs_put env k v st)) = ps_items st" "ps_meta (snd (kvs_put env k v st)) = ps_meta st"
  "ps_items (snd (kvs_delete env k st)) = ps_items st" "ps_meta (snd (kvs_delete env k st)) = ps_meta st"
  unfolding kvs_put_def kvs_delete_def by (rule with_etag_frame; simp)+

lemma put_if_eligible_frame [frame_simps]:
  "ps_items (snd (put_if_eligible env l h s st)) = ps_items st"
  "ps_meta (snd (put_if_eligible env l h s st)) = ps_meta st"
  by (simp_all add: put_if_eligible_def Let_def frame_simps)

lemma bust_cache_frame [frame_simps]:
  "ps_items (snd (bust_cache env h s st)) = ps_items st" "ps_meta (snd (bust_cache env h s st)) = ps_meta st"
  "ps_kvs (snd (bust_cache env h s st)) = ps_kvs st"
  by (simp_all add: bust_cache_def split: option.split)

lemma edge_put_frame [frame_simps]:
  "ps_items (snd (edge_put env l h s st)) = ps_items st"
  "ps_meta (snd (edge_put env l h s st)) = ps_meta st"
proof -
  let ?k = "if pe_kvs_on env then put_if_eligible env l h s st else (None, st)"
  obtain e st1 where k: "?k = (e, st1)" by fastforce
  have "ps_items (snd ?k) = ps_items st" "ps_meta (snd ?k) = ps_meta st" by (simp_all add: frame_simps)
  then have f: "ps_items st1 = ps_items st" "ps_meta st1 = ps_meta st" unfolding k by simp_all
  show "ps_items (snd (edge_put env l h s st)) = ps_items st"
    unfolding edge_put_def k using f by (cases e) (simp_all add: frame_simps)
  show "ps_meta (snd (edge_put env l h s st)) = ps_meta st"
    unfolding edge_put_def k using f by (cases e) (simp_all add: frame_simps)
qed

lemma edge_delete_frame [frame_simps]:
  "ps_items (snd (edge_delete env ts st)) = ps_items st \<and> ps_meta (snd (edge_delete env ts st)) = ps_meta st"
proof (induction env ts st rule: edge_delete.induct)
  case (2 env host slug ts st)
  let ?k = "if pe_kvs_on env then kvs_delete env (kvs_key host slug) st else (None, st)"
  have k: "ps_items (snd ?k) = ps_items st" "ps_meta (snd ?k) = ps_meta st" by (simp_all add: frame_simps)
  obtain e1 st1 where k1: "?k = (e1, st1)" by fastforce
  obtain e2 st2 where k2: "bust_cache env host slug st1 = (e2, st2)" by fastforce
  have "ps_items st1 = ps_items st" "ps_meta st1 = ps_meta st" using k unfolding k1 by simp_all
  moreover have "ps_items st2 = ps_items st1" "ps_meta st2 = ps_meta st1"
    using bust_cache_frame [of env host slug st1] unfolding k2 by simp_all
  ultimately show ?case
    using 2 k1 k2 by (cases e1; cases e2) auto
qed simp

lemma run_edge_frame [frame_simps]:
  "ps_items (snd (run_edge env w st)) = ps_items st" "ps_meta (snd (run_edge env w st)) = ps_meta st"
  by (cases w; simp add: frame_simps)+

lemma run_edges_frame [frame_simps]:
  "ps_items (snd (run_edges env ws (results, st))) = ps_items st
   \<and> ps_meta (snd (run_edges env ws (results, st))) = ps_meta st"
proof (induction ws arbitrary: results st)
  case (Cons kw ws)
  obtain k w where kw: "kw = (k, w)" by fastforce
  obtain e st1 where r: "run_edge env w st = (e, st1)" by fastforce
  have "ps_items st1 = ps_items st" "ps_meta st1 = ps_meta st" using run_edge_frame [of env w st] unfolding r by simp_all
  then show ?case using Cons.IH by (cases e) (simp_all add: kw r)
qed simp

lemma write_meta_frame [frame_simps]: "ps_items (snd (write_meta env i st)) = ps_items st"
  by (simp add: write_meta_def split: option.split)

lemma write_metas_frame [frame_simps]: "ps_items (snd (write_metas env ms (results, st))) = ps_items st"
proof (induction ms arbitrary: results st)
  case (Cons m ms)
  obtain i ks where m: "m = (i, ks)" by fastforce
  obtain e st1 where r: "write_meta env i st = (e, st1)" by fastforce
  have "ps_items st1 = ps_items st" using write_meta_frame [of env i st] unfolding r by simp
  then show ?case using Cons.IH by (cases e) (simp_all add: m r)
qed simp

section \<open>One result per operation\<close>

lemma fail_op_links [simp]: "map pr_link (fail_op e k rs) = map pr_link rs" "length (fail_op e k rs) = length rs"
  by (auto simp: fail_op_def map_update list_update_same_conv)
     (metis list_update_beyond list_update_id map_update not_le_imp_less nth_map length_map)

lemma fail_owners_links [simp]: "map pr_link (fail_owners e ks rs) = map pr_link rs"
  unfolding fail_owners_def by (induction ks arbitrary: rs) simp_all

lemma write_slices_links [simp]: "map pr_link (fst (write_slices env sls acc)) = map pr_link (fst acc)"
proof -
  have "map pr_link (fst (write_slices env sls (rs, st))) = map pr_link rs" for rs st
    by (induction sls arbitrary: rs st) (auto split: prod.splits option.splits)
  then show ?thesis by (metis prod.collapse)
qed

lemma write_metas_links [simp]: "map pr_link (fst (write_metas env ms acc)) = map pr_link (fst acc)"
proof -
  have "map pr_link (fst (write_metas env ms (rs, st))) = map pr_link rs" for rs st
    by (induction ms arbitrary: rs st) (auto split: prod.splits option.splits)
  then show ?thesis by (metis prod.collapse)
qed

lemma run_edges_links [simp]: "map pr_link (fst (run_edges env ws acc)) = map pr_link (fst acc)"
proof -
  have "map pr_link (fst (run_edges env ws (rs, st))) = map pr_link rs" for rs st
    by (induction ws arbitrary: rs st) (auto split: prod.splits option.splits)
  then show ?thesis by (metis prod.collapse)
qed

lemma plan_links:
  "map pr_link (bp_results (fold (plan_op env st) ops bp)) = map pr_link (bp_results bp) @ map op_link ops"
  by (induction ops arbitrary: bp) (auto simp: plan_op_def Let_def split: sum.splits prod.splits)

text \<open>The contract of a batch target, and what the drain gets from it.\<close>

locale batch_target =
  fixes answer :: "projection_op list \<Rightarrow> 's \<Rightarrow> projection_result list \<times> 's"
  assumes links: "map pr_link (fst (answer ops s)) = map op_link ops"
begin

lemma one_result_each: "length (fst (answer ops s)) = length ops"
  using links [of ops s] by (metis length_map)

text \<open>Settled against such an answer, a row's bookkeeping is its own result's.\<close>

lemma no_missing_result:
  assumes "settle_results t rs (fst (answer (map to_projection_op rs) s)) (rows, 0, 0) = (rows', p, f)"
  shows "p = length (List.filter pr_ok (fst (answer (map to_projection_op rs) s)))"
proof -
  have gen: "settle_results t rs results (rows, p0, f0) = (rows', p, f) \<Longrightarrow> length results = length rs
      \<Longrightarrow> p = p0 + length (List.filter pr_ok results)" for rs results rows p0 f0
  proof (induction rs arbitrary: results rows p0 f0)
    case (Cons r rs)
    then obtain res rest where res: "results = res # rest" "length rest = length rs" by (cases results) auto
    show ?case
      using Cons.prems(1) Cons.IH [OF _ res(2)] by (fastforce simp: res(1) split: if_splits)
  qed simp
  from gen [OF assms] one_result_each [of "map to_projection_op rs" s] show ?thesis by simp
qed

end

interpretation dynamo: batch_target "apply_ops env" for env
  by unfold_locales (simp add: apply_ops_def Let_def plan_batch_def plan_links)

section \<open>The batches\<close>

lemma concat_chunks: "0 < n \<Longrightarrow> concat (chunks n xs) = xs"
  by (induction n xs rule: chunks.induct) (subst chunks.simps, auto)

lemma chunks_length: "sl \<in> set (chunks n xs) \<Longrightarrow> length sl \<le> n"
  by (induction n xs rule: chunks.induct) (subst (asm) chunks.simps, auto split: if_splits)

lemma chunks_small: "0 < n \<Longrightarrow> xs \<noteq> [] \<Longrightarrow> length xs \<le> n \<Longrightarrow> chunks n xs = [xs]"
  by (subst chunks.simps) (simp add: chunks.simps)

lemma keys_of_add_request:
  "map (request_key \<circ> fst) (add_request k r es) =
     (if request_key r \<in> request_key ` fst ` set es then map (request_key \<circ> fst) es
      else map (request_key \<circ> fst) es @ [request_key r])"
  by (induction k r es rule: add_request.induct) auto

definition plan_ok :: "batch_plan \<Rightarrow> bool" where
  "plan_ok bp = distinct (map (request_key \<circ> fst) (bp_requests bp))"

lemma add_requests_distinct:
  "distinct (map (request_key \<circ> fst) es) \<Longrightarrow> distinct (map (request_key \<circ> fst) (fold (add_request k) rs es))"
proof (induction rs arbitrary: es)
  case (Cons r rs)
  have "distinct (map (request_key \<circ> fst) (add_request k r es))"
    using Cons.prems unfolding keys_of_add_request by (auto simp: image_comp o_def)
  from Cons.IH [OF this] show ?case by (simp only: fold_simps)
qed simp

lemma plan_distinct: "plan_ok bp \<Longrightarrow> plan_ok (fold (plan_op env st) ops bp)"
proof (induction ops arbitrary: bp)
  case (Cons op ops)
  have "plan_ok (plan_op env st op bp)"
    using Cons.prems by (auto simp: plan_op_def plan_ok_def Let_def add_requests_distinct split: sum.splits prod.splits)
  then show ?case using Cons.IH by simp
qed simp

text \<open>
  C38. No batch write of the projection can be refused for a duplicate key or for its size: whatever
  operations a drain hands over, on however many links of one domain, each slice that is sent holds at
  most 25 requests, all of different keys, and the slices together are every key of the batch once.
\<close>

theorem batches_within_limits:
  "(\<forall>sl \<in> set (chunks batch_limit (bp_requests (plan_batch env st ops))).
       length sl \<le> 25 \<and> distinct (map (request_key \<circ> fst) sl))
   \<and> concat (chunks batch_limit (bp_requests (plan_batch env st ops))) = bp_requests (plan_batch env st ops)
   \<and> distinct (map (request_key \<circ> fst) (bp_requests (plan_batch env st ops)))"
proof -
  let ?es = "bp_requests (plan_batch env st ops)"
  have d: "distinct (map (request_key \<circ> fst) ?es)"
    using plan_distinct [of "\<lparr> bp_results = [], bp_requests = [], bp_metas = [], bp_edges = [] \<rparr>"]
    by (simp add: plan_batch_def plan_ok_def)
  have c: "concat (chunks batch_limit ?es) = ?es" by (simp add: concat_chunks batch_limit_def)
  have "distinct (map (request_key \<circ> fst) sl)" if "sl \<in> set (chunks batch_limit ?es)" for sl
  proof -
    from that obtain as bs where "chunks batch_limit ?es = as @ sl # bs" by (meson split_list)
    then have "?es = concat as @ sl @ concat bs" using c by (metis concat.simps(2) concat_append)
    then show ?thesis using d by (metis distinct_append map_append)
  qed
  then show ?thesis
    using chunks_length [of _ batch_limit ?es] d c by (fastforce simp: batch_limit_def)
qed

section \<open>What a successful flush leaves\<close>

fun effect :: "write_request \<Rightarrow> link_item option" where
  "effect (PutItem i) = Some i"
| "effect (DeleteItem k) = None"

lemma find_append_eq: "List.find P (xs @ ys) = (case List.find P xs of None \<Rightarrow> List.find P ys | Some x \<Rightarrow> Some x)"
  by (induction xs) auto

lemma find_filter_other: "\<forall>x \<in> set xs. P x \<longrightarrow> Q x \<Longrightarrow> List.find P (List.filter Q xs) = List.find P xs"
  by (induction xs) auto

lemma item_at_apply_request:
  "item_at k (apply_request r st) = (if request_key r = k then effect r else item_at k st)"
proof (cases "request_key r = k")
  case True
  have none: "List.find (\<lambda>i. it_key i = k) (List.filter (\<lambda>i. it_key i \<noteq> request_key r) (ps_items st)) = None"
    using True by (simp add: find_None_iff)
  show ?thesis
    using True none by (cases r) (auto simp: item_at_def apply_request_def find_append_eq it_key_def)
next
  case False
  then have other: "List.find (\<lambda>i. it_key i = k) (List.filter (\<lambda>i. it_key i \<noteq> request_key r) (ps_items st))
      = item_at k st"
    unfolding item_at_def by (intro find_filter_other) auto
  show ?thesis
    using False other by (cases r) (auto simp: item_at_def apply_request_def find_append_eq it_key_def split: option.split)
qed

lemma item_at_fold:
  assumes "distinct (map request_key rs)"
  shows "item_at k (fold apply_request rs st) =
    (case List.find (\<lambda>r. request_key r = k) rs of None \<Rightarrow> item_at k st | Some r \<Rightarrow> effect r)"
  using assms
proof (induction rs arbitrary: st)
  case (Cons r rs)
  show ?case
  proof (cases "request_key r = k")
    case True
    then have "List.find (\<lambda>r. request_key r = k) rs = None"
      using Cons.prems by (auto simp: find_None_iff image_iff)
    then show ?thesis using Cons True by (simp add: item_at_apply_request)
  qed (use Cons in \<open>simp add: item_at_apply_request split: option.split\<close>)
qed (simp add: item_at_def)

lemma find_distinct: "distinct (map f xs) \<Longrightarrow> x \<in> set xs \<Longrightarrow> List.find (\<lambda>y. f y = f x) xs = Some x"
  by (induction xs) (force)+

lemma item_at_fold_other:
  "k \<notin> request_key ` set rs \<Longrightarrow> item_at k (fold apply_request rs st) = item_at k st"
  by (induction rs arbitrary: st) (auto simp: item_at_apply_request)

text \<open>What DynamoDB documents of a batch write: the unprocessed requests are among those sent, each once.\<close>

definition documented_batches :: "'u projection_env \<Rightarrow> bool" where
  "documented_batches env =
     (\<forall>a batch remaining. pe_batch env a batch = Inr remaining \<longrightarrow> set remaining \<subseteq> set batch \<and> distinct remaining)"

lemma distinct_sub_keys:
  assumes "distinct (map f batch)" "set remaining \<subseteq> set batch" "distinct remaining"
  shows "distinct (map f remaining)"
  using assms by (auto simp: distinct_map intro: inj_on_subset)

lemma flush_attempts_keeps:
  assumes "documented_batches env" "flush_attempts env as batch st = (e, st')" "k \<notin> request_key ` set batch"
  shows "item_at k st' = item_at k st"
  using assms(2-)
proof (induction as arbitrary: batch st)
  case (Cons a as)
  show ?case
  proof (cases "pe_batch env a batch")
    case (Inl err)
    then show ?thesis using Cons.prems(1) by simp
  next
    case (Inr remaining)
    let ?st1 = "fold apply_request (List.filter (\<lambda>r. r \<notin> set remaining) batch) st"
    have one: "item_at k ?st1 = item_at k st" using Cons.prems(2) by (intro item_at_fold_other) auto
    show ?thesis
    proof (cases "remaining = []")
      case True
      then show ?thesis using Cons.prems(1) Inr one by (simp add: Let_def)
    next
      case False
      then have "flush_attempts env as remaining ?st1 = (e, st')" using Cons.prems(1) Inr by (simp add: Let_def)
      moreover have "set remaining \<subseteq> set batch"
        using assms(1) Inr unfolding documented_batches_def by blast
      ultimately show ?thesis using Cons.IH Cons.prems(2) one by fastforce
    qed
  qed
qed simp

lemma flush_attempts_effect:
  assumes "documented_batches env" "distinct (map request_key batch)"
    and "flush_attempts env as batch st = (None, st')" "r \<in> set batch"
  shows "item_at (request_key r) st' = effect r"
  using assms(2-)
proof (induction as arbitrary: batch st r)
  case (Cons a as)
  then obtain remaining where rem: "pe_batch env a batch = Inr remaining" by (auto split: sum.splits)
  let ?done = "List.filter (\<lambda>r. r \<notin> set remaining) batch"
  have doc: "set remaining \<subseteq> set batch" "distinct remaining"
    using assms(1) rem unfolding documented_batches_def by blast+
  have dd: "distinct (map request_key ?done)" using Cons.prems(1) by (simp add: distinct_map_filter)
  have after: "item_at (request_key r) (fold apply_request ?done st) = effect r" if "r \<in> set ?done" for r
  proof -
    have "List.find (\<lambda>q. request_key q = request_key r) ?done = Some r"
      using dd that by (rule find_distinct)
    then show ?thesis using item_at_fold [OF dd, of "request_key r" st] by simp
  qed
  show ?case
  proof (cases "remaining = []")
    case True
    then show ?thesis using Cons.prems rem after by (simp add: Let_def)
  next
    case False
    then have f: "flush_attempts env as remaining (fold apply_request ?done st) = (None, st')"
      using Cons.prems(2) rem by (simp add: Let_def)
    have dr: "distinct (map request_key remaining)" by (rule distinct_sub_keys [OF Cons.prems(1) doc])
    show ?thesis
    proof (cases "r \<in> set remaining")
      case True
      then show ?thesis using Cons.IH [OF dr f] by simp
    next
      case False
      then have "r \<in> set ?done" using Cons.prems(3) by simp
      moreover have "request_key r \<notin> request_key ` set remaining"
        using False Cons.prems(1,3) doc(1) by (auto simp: distinct_map inj_on_def)
      ultimately show ?thesis using flush_attempts_keeps [OF assms(1) f] after by simp
    qed
  qed
qed simp

lemma flush_single:
  "length rs \<le> batch_limit \<Longrightarrow> flush env rs st = flush_batch env rs st"
  by (cases "rs = []") (auto simp: flush_def chunks_small batch_limit_def chunks.simps flush_batch_def split: prod.splits option.splits)

lemma flush_effect:
  assumes "documented_batches env" "distinct (map request_key rs)" "length rs \<le> batch_limit"
    and "flush env rs st = (None, st')" "r \<in> set rs"
  shows "item_at (request_key r) st' = effect r"
proof -
  have "flush_attempts env [0..<max_batch_attempts] rs st = (None, st')"
    using assms(4,5) unfolding flush_single [OF assms(3)] by (auto simp: flush_batch_def split: if_splits)
  from flush_attempts_effect [OF assms(1,2) this assms(5)] show ?thesis .
qed

lemma flush_keeps:
  assumes "documented_batches env" "length rs \<le> batch_limit"
    and "flush env rs st = (e, st')" "k \<notin> request_key ` set rs"
  shows "item_at k st' = item_at k st"
  using assms(3) flush_attempts_keeps [OF assms(1) _ assms(4)] unfolding flush_single [OF assms(2)]
  by (auto simp: flush_batch_def split: if_splits)

lemma fail_op_ok: "pr_ok (fail_op e j rs ! k) \<Longrightarrow> pr_ok (rs ! k) \<and> (j < length rs \<longrightarrow> k \<noteq> j)"
  by (cases "j < length rs"; cases "k = j") (auto simp: fail_op_def list_update_beyond)

lemma fail_owners_ok: "pr_ok (fail_owners e ks rs ! k) \<Longrightarrow> pr_ok (rs ! k) \<and> (k < length rs \<longrightarrow> k \<notin> set ks)"
proof (induction ks arbitrary: rs)
  case (Cons j ks)
  from Cons.prems have "pr_ok (fail_owners e ks (fail_op e j rs) ! k)" by (simp add: fail_owners_def)
  from Cons.IH [OF this] show ?case using fail_op_ok [of e j rs k] by auto
qed (simp add: fail_owners_def)

lemma fail_owners_length [simp]: "length (fail_owners e ks rs) = length rs"
  by (metis fail_owners_links length_map)

lemma fail_owners_was_ok: "pr_ok (fail_owners e ks rs ! k) \<Longrightarrow> pr_ok (rs ! k)"
  by (rule fail_owners_ok [THEN conjunct1])

lemma write_slices_ok: "pr_ok (fst (write_slices env sls (rs, st)) ! k) \<Longrightarrow> pr_ok (rs ! k)"
proof (induction sls arbitrary: rs st)
  case (Cons sl sls)
  obtain e st1 where f: "flush env (map fst sl) st = (e, st1)" by fastforce
  show ?case
  proof (cases e)
    case None
    then show ?thesis using Cons.prems f Cons.IH [of rs st1] by simp
  next
    case (Some err)
    then show ?thesis
      using Cons.prems f Cons.IH [of "fail_owners err (concat (map snd sl)) rs" st1] fail_owners_was_ok by simp
  qed
qed simp

lemma write_metas_ok: "pr_ok (fst (write_metas env ms (rs, st)) ! k) \<Longrightarrow> pr_ok (rs ! k)"
proof (induction ms arbitrary: rs st)
  case (Cons m ms)
  obtain i ks where m: "m = (i, ks)" by fastforce
  obtain e st1 where f: "write_meta env i st = (e, st1)" by fastforce
  show ?case
  proof (cases e)
    case None
    then show ?thesis using Cons.prems f m Cons.IH [of rs st1] by simp
  next
    case (Some err)
    then show ?thesis using Cons.prems f m Cons.IH [of "fail_owners err ks rs" st1] fail_owners_was_ok by simp
  qed
qed simp

lemma run_edges_ok: "pr_ok (fst (run_edges env ws (rs, st)) ! k) \<Longrightarrow> pr_ok (rs ! k)"
proof (induction ws arbitrary: rs st)
  case (Cons w ws)
  obtain j v where w: "w = (j, v)" by fastforce
  obtain e st1 where f: "run_edge env v st = (e, st1)" by fastforce
  show ?case
  proof (cases "pr_ok (rs ! j)")
    case False
    then show ?thesis using Cons.prems w Cons.IH [of rs st] by simp
  next
    case True
    show ?thesis
    proof (cases e)
      case None
      then show ?thesis using Cons.prems f w True Cons.IH [of rs st1] by simp
    next
      case (Some err)
      then show ?thesis using Cons.prems f w True Cons.IH [of "fail_op err j rs" st1] fail_op_ok [of err j rs k] by simp
    qed
  qed
qed simp

lemma write_slices_keeps:
  assumes "documented_batches env" "\<forall>sl \<in> set sls. length sl \<le> batch_limit"
    and "k \<notin> request_key ` fst ` set (concat sls)"
  shows "item_at k (snd (write_slices env sls (rs, st))) = item_at k st"
  using assms(2-)
proof (induction sls arbitrary: rs st)
  case (Cons sl sls)
  obtain e st1 where f: "flush env (map fst sl) st = (e, st1)" by fastforce
  have "item_at k st1 = item_at k st"
    using Cons.prems by (intro flush_keeps [OF assms(1) _ f]) auto
  moreover have "k \<notin> request_key ` fst ` set (concat sls)" using Cons.prems(2) by (simp add: image_Un)
  ultimately show ?case using Cons.IH Cons.prems(1) f by (cases e) simp_all
qed simp

lemma write_slices_effect:
  assumes "documented_batches env" "\<forall>sl \<in> set sls. length sl \<le> batch_limit"
    and "distinct (map (request_key \<circ> fst) (concat sls))"
    and "(r, ks) \<in> set (concat sls)" "k \<in> set ks" "k < length rs"
    and "pr_ok (fst (write_slices env sls (rs, st)) ! k)"
  shows "item_at (request_key r) (snd (write_slices env sls (rs, st))) = effect r"
  using assms(2-)
proof (induction sls arbitrary: rs st)
  case (Cons sl sls)
  obtain e st1 where f: "flush env (map fst sl) st = (e, st1)" by fastforce
  show ?case
  proof (cases "(r, ks) \<in> set sl")
    case True
    have e: "e = None"
    proof (rule ccontr)
      assume "e \<noteq> None"
      then obtain err where "e = Some err" by auto
      with Cons.prems(6) f have "pr_ok (fail_owners err (concat (map snd sl)) rs ! k)"
        by (auto dest: write_slices_ok)
      from fail_owners_ok [OF this] Cons.prems(4,5) True show False by force
    qed
    have d: "distinct (map request_key (map fst sl))" using Cons.prems(2) by (simp add: o_def)
    have "item_at (request_key r) st1 = effect r"
      using flush_effect [OF assms(1) d _ f [unfolded e], of r] Cons.prems(1) True by force
    moreover have "request_key r \<notin> request_key ` fst ` set (concat sls)"
    proof
      assume "request_key r \<in> request_key ` fst ` set (concat sls)"
      then have "(request_key \<circ> fst) (r, ks) \<in> set (map (request_key \<circ> fst) (concat sls))"
        by (auto simp: image_iff)
      moreover have "(request_key \<circ> fst) (r, ks) \<in> set (map (request_key \<circ> fst) sl)" using True by force
      ultimately show False using Cons.prems(2) by (simp only: concat.simps map_append distinct_append) blast
    qed
    ultimately show ?thesis
      using write_slices_keeps [OF assms(1)] Cons.prems(1) by (simp add: f e)
  next
    case False
    then have "(r, ks) \<in> set (concat sls)" using Cons.prems(3) by simp
    then show ?thesis
      using Cons.IH [of "case e of None \<Rightarrow> rs | Some err \<Rightarrow> fail_owners err (concat (map snd sl)) rs" st1]
        Cons.prems f by (cases e) auto
  qed
qed simp

section \<open>The requests a batch holds\<close>

lemma add_request_has: "\<exists>ks. (r, ks) \<in> set (add_request k r es) \<and> k \<in> set ks"
  by (induction k r es rule: add_request.induct) auto

lemma add_request_other:
  "(q, ks) \<in> set es \<Longrightarrow> request_key q \<noteq> request_key r \<Longrightarrow> (q, ks) \<in> set (add_request k r es)"
  by (induction k r es rule: add_request.induct) auto

lemma add_requests_other:
  "(q, ks) \<in> set es \<Longrightarrow> request_key q \<notin> request_key ` set rs \<Longrightarrow> (q, ks) \<in> set (fold (add_request k) rs es)"
  by (induction rs arbitrary: es) (auto simp: add_request_other)

lemma add_requests_has:
  "distinct (map request_key rs) \<Longrightarrow> r \<in> set rs \<Longrightarrow> \<exists>ks. (r, ks) \<in> set (fold (add_request k) rs es) \<and> k \<in> set ks"
proof (induction rs arbitrary: es)
  case (Cons q rs)
  show ?case
  proof (cases "r = q")
    case True
    obtain ks where "(q, ks) \<in> set (add_request k q es)" "k \<in> set ks" using add_request_has by blast
    then show ?thesis using Cons.prems(1) True add_requests_other [of q ks "add_request k q es" rs k] by auto
  qed (use Cons in simp)
qed simp

text \<open>The requests an operation resolves to.\<close>

definition requests_of :: "'u projection_env \<Rightarrow> projection_store \<Rightarrow> projection_op \<Rightarrow> write_request list" where
  "requests_of env st op = (case resolve_op env st op of Inl e \<Rightarrow> [] | Inr (requests, i, w) \<Rightarrow> requests)"

lemma plan_op_requests:
  "bp_requests (plan_op env st op bp) = fold (add_request (length (bp_results bp))) (requests_of env st op) (bp_requests bp)"
  by (auto simp: plan_op_def requests_of_def Let_def split: sum.split prod.split)

lemma plan_op_length: "length (bp_results (plan_op env st op bp)) = Suc (length (bp_results bp))"
  by (auto simp: plan_op_def Let_def split: sum.split prod.split)

lemma plan_later:
  "(q, ks) \<in> set (bp_requests bp) \<Longrightarrow> \<forall>op \<in> set ops. request_key q \<notin> request_key ` set (requests_of env st op)
   \<Longrightarrow> (q, ks) \<in> set (bp_requests (fold (plan_op env st) ops bp))"
  by (induction ops arbitrary: bp) (auto simp: plan_op_requests add_requests_other)

lemma plan_has:
  assumes "k < length ops" "r \<in> set (requests_of env st (ops ! k))"
    and "distinct (map request_key (requests_of env st (ops ! k)))"
    and "\<forall>j. k < j \<and> j < length ops \<longrightarrow> request_key r \<notin> request_key ` set (requests_of env st (ops ! j))"
  shows "\<exists>ks. (r, ks) \<in> set (bp_requests (fold (plan_op env st) ops bp)) \<and> length (bp_results bp) + k \<in> set ks"
  using assms
proof (induction ops arbitrary: bp k)
  case (Cons op ops)
  show ?case
  proof (cases k)
    case 0
    obtain ks where "(r, ks) \<in> set (bp_requests (plan_op env st op bp))" "length (bp_results bp) \<in> set ks"
      using add_requests_has [of "requests_of env st op" r "length (bp_results bp)" "bp_requests bp"] Cons.prems 0
      by (auto simp: plan_op_requests)
    moreover have "\<forall>op \<in> set ops. request_key r \<notin> request_key ` set (requests_of env st op)"
      using Cons.prems(4) 0 by (fastforce simp: in_set_conv_nth)
    ultimately show ?thesis using plan_later [of r ks] 0 by fastforce
  next
    case (Suc j)
    have "\<forall>i. j < i \<and> i < length ops \<longrightarrow> request_key r \<notin> request_key ` set (requests_of env st (ops ! i))"
      using Cons.prems(4) Suc by fastforce
    then show ?thesis
      using Cons.IH [of j "plan_op env st op bp"] Cons.prems Suc by (simp add: plan_op_length)
  qed
qed simp


definition demo_row :: link_row where
  "demo_row = \<lparr> lr_id = ''l1'', lr_workspace_id = ''w1'', lr_slug = ''Go'', lr_destination = ''https://a.test/'',
     lr_redirect_type = R302, lr_rules = [], lr_expires_at = None, lr_expires_to = None, lr_activates_at = None,
     lr_scheduled_to = None, lr_click_limit = None, lr_clicks = None, lr_password_hash = None,
     lr_forward_query = False, lr_deep_link = False, lr_hide_referrer = False, lr_public_preview = True,
     lr_archived_at = None, lr_disabled_at = None, lr_owner_unverified = False,
     lr_safe_browsing_status = ''clean'', lr_utm = None, lr_domain = ''snap.to'', lr_domain_id = ''d1'',
     lr_domain_status = ''live'', lr_root_redirect = None, lr_not_found_redirect = None,
     lr_domain_updated_at = Some 0 \<rparr>"

definition plain_url_api :: "unit url_api" where
  "plain_url_api = \<lparr> parse_url = (\<lambda>s. None), parse_query = (\<lambda>s. []), url_href = (\<lambda>u. []),
     url_with_params = (\<lambda>u ps. []) \<rparr>"

text \<open>A table that is throttled once and then takes everything.\<close>

definition throttled_env :: "unit projection_env" where
  "throttled_env = \<lparr> pe_api = plain_url_api, pe_bytes = (\<lambda>v. 100),
     pe_link_row = (\<lambda>i. Inr (if i = ''l1'' then Some demo_row else None)), pe_domain_row = (\<lambda>d. Inr None),
     pe_query = (\<lambda>l. None), pe_batch = (\<lambda>a b. Inr (if a = 0 then remdups b else [])),
     pe_put_meta = (\<lambda>i. None), pe_kvs = (\<lambda>a k. Applied), pe_cache_del = (\<lambda>k. None),
     pe_kvs_on = False, pe_cache_on = False \<rparr>"

definition demo_item :: link_item where
  "demo_item = to_link_item (projected_link demo_row) ''snap.to'' ''Go''"

definition demo_op :: projection_op where
  "demo_op = \<lparr> op_link = ''l1'', op_operation = ''upsert'', op_payload_host = None \<rparr>"

definition empty_store :: projection_store where
  "empty_store = \<lparr> ps_items = [], ps_meta = [], ps_kvs = Map.empty, ps_cache = Map.empty \<rparr>"

lemma demo_requests: "requests_of throttled_env st demo_op = [PutItem demo_item]"
  by (simp add: requests_of_def resolve_op_def demo_op_def domain_op_def build_upsert_requests_def throttled_env_def
      demo_row_def demo_item_def Let_def)

lemma throttled_flush:
  "flush throttled_env [r] st = (None, apply_request r st)"
  by (simp add: flush_single batch_limit_def flush_batch_def max_batch_attempts_def throttled_env_def upt_rec Let_def)

lemma demo_ok: "pr_ok (fst (apply_ops throttled_env [demo_op] empty_store) ! 0)"
proof -
  let ?bp = "plan_batch throttled_env empty_store [demo_op]"
  have rq: "bp_requests ?bp = [(PutItem demo_item, [0])]"
    by (simp add: plan_batch_def plan_op_requests demo_requests)
  have res: "resolve_op throttled_env empty_store demo_op =
      Inr ([PutItem demo_item], Some (to_domain_item ''snap.to''
        \<lparr> dm_id = ''d1'', dm_root_redirect = None, dm_not_found_redirect = None \<rparr> (Some (version_of (Some 0))) False), None)"
    by (simp add: resolve_op_def demo_op_def domain_op_def build_upsert_requests_def throttled_env_def
        demo_row_def demo_item_def Let_def)
  have "bp_results ?bp = [\<lparr> pr_link = ''l1'', pr_ok = True, pr_error = None \<rparr>]" "bp_edges ?bp = []"
    by (simp_all add: plan_batch_def plan_op_def res Let_def) (simp add: demo_op_def)
  moreover have "fst (write_metas throttled_env ms (rs, st)) = rs" for ms rs st
    by (induction ms arbitrary: st) (auto simp: write_meta_def throttled_env_def split: prod.splits option.splits if_splits)
  ultimately show ?thesis
    by (simp add: apply_ops_def Let_def rq chunks_small batch_limit_def throttled_flush)
qed


theorem batches_within_limits_witness:
  "distinct (map (request_key \<circ> fst) (bp_requests (plan_batch throttled_env empty_store (replicate 60 demo_op))))"
  using batches_within_limits by blast

section \<open>The edge entry\<close>

text \<open>
  C15. The edge follows the link: when the edge write of an upsert succeeds, however often its conditional
  write lost a race first, the entry under the link's key is the link's own value exactly when the link
  is edge-eligible and its value fits, and there is none otherwise, so a link that gains a password, a
  rule, a limit or a hold stops being served from the edge; every other entry is untouched.
\<close>

theorem edge_entry_follows_link:
  assumes "put_if_eligible env l host slug st = (None, st')"
  shows "ps_kvs st' (kvs_key host slug) =
      (if is_edge_eligible l \<and> pe_bytes env (kvs_value (pe_api env) l) \<le> 1024
       then Some (kvs_value (pe_api env) l) else None)
    \<and> (\<forall>k. k \<noteq> kvs_key host slug \<longrightarrow> ps_kvs st' k = ps_kvs st k)"
  using assms with_etag_cases
  by (fastforce simp: put_if_eligible_def kvs_put_def kvs_delete_def max_value_bytes_def Let_def split: if_splits)

definition racing_env :: "unit projection_env" where
  "racing_env = throttled_env\<lparr>pe_kvs := (\<lambda>a k. if a < 2 then Conflicting else Applied), pe_kvs_on := True\<rparr>"

theorem edge_entry_follows_link_witness:
  "ps_kvs (snd (put_if_eligible racing_env (plain_link\<lparr>lk_has_password := True\<rparr>) ''snap.to'' ''go''
      (empty_store\<lparr>ps_kvs := [''snap.to/go'' \<mapsto> kvs_value plain_url_api plain_link]\<rparr>))) ''snap.to/go'' = None"
proof -
  let ?st = "empty_store\<lparr>ps_kvs := [''snap.to/go'' \<mapsto> kvs_value plain_url_api plain_link]\<rparr>"
  let ?l = "plain_link\<lparr>lk_has_password := True\<rparr>"
  have key: "kvs_key ''snap.to'' ''go'' = ''snap.to/go''" by code_simp
  have "put_if_eligible racing_env ?l ''snap.to'' ''go'' ?st = (None, ?st\<lparr>ps_kvs := (ps_kvs ?st)(''snap.to/go'' := None)\<rparr>)"
    by (simp add: put_if_eligible_def is_edge_eligible_def kvs_delete_def kvs_max_attempts_def racing_env_def
        key numeral_3_eq_3 del: fun_upd_apply)
  from edge_entry_follows_link [OF this] show ?thesis
    by (simp add: put_if_eligible_def is_edge_eligible_def kvs_delete_def kvs_max_attempts_def racing_env_def
        key numeral_3_eq_3)
qed

section \<open>Domain items converge\<close>

text \<open>\<open>str_less\<close> is the lexicographic order on code units.\<close>

lemma cu_inject: "cu a = cu b \<longleftrightarrow> a = b"
  by (simp add: cu_def)

lemma str_less_irrefl [simp]: "\<not> str_less a a"
  by (induction a) simp_all

lemma str_less_trans: "str_less a b \<Longrightarrow> str_less b c \<Longrightarrow> str_less a c"
proof (induction a b arbitrary: c rule: str_less.induct)
  case (3 x xs y ys)
  then show ?case by (cases c) auto
next
  case (2 y ys)
  then show ?case by (cases c) auto
qed simp

lemma str_less_total: "str_less a b \<or> a = b \<or> str_less b a"
proof (induction a b rule: str_less.induct)
  case (3 x xs y ys)
  then show ?case using cu_inject [of x y] by (cases "cu x" "cu y" rule: linorder_cases) auto
next
  case (1 xs)
  then show ?case by (cases xs) auto
qed simp

lemma str_less_asym: "str_less a b \<Longrightarrow> \<not> str_less b a"
  using str_less_trans str_less_irrefl by blast

lemma str_le_iff: "str_le a b \<longleftrightarrow> str_less a b \<or> a = b"
  using str_less_total [of a b] str_less_asym by (auto simp: str_le_def)

text \<open>Items as the writer builds them: a live one has a version, a tombstone has none.\<close>

definition built_item :: "domain_item \<Rightarrow> bool" where
  "built_item i = (di_deleted i = (di_version i = None))"

lemma str_le_trans: "str_le a b \<Longrightarrow> str_le b c \<Longrightarrow> str_le a c"
  by (auto simp: str_le_iff dest: str_less_trans)

lemma str_le_total: "str_le a b \<or> str_le b a"
  using str_less_asym by (auto simp: str_le_def)

lemma supersedes_refl [simp]: "supersedes i i"
  by (simp add: supersedes_def str_le_iff)

lemma supersedes_id: "supersedes a b \<Longrightarrow> str_le (di_id b) (di_id a)"
  by (auto simp: supersedes_def str_le_iff split: if_splits)

lemma supersedes_newer: "str_less (di_id b) (di_id a) \<Longrightarrow> supersedes a b"
  by (auto simp: supersedes_def)

lemma supersedes_same:
  "di_id a = di_id b \<Longrightarrow> supersedes a b \<longleftrightarrow>
     (if di_deleted a \<noteq> di_deleted b then di_deleted a
      else str_le (or_else (di_version b) []) (or_else (di_version a) []))"
  by (simp add: supersedes_def)

lemma supersedes_trans:
  assumes "supersedes a b" "supersedes b c"
  shows "supersedes a c"
proof -
  have le: "str_le (di_id b) (di_id a)" "str_le (di_id c) (di_id b)" using assms by (auto dest: supersedes_id)
  show ?thesis
  proof (cases "di_id a = di_id c")
    case True
    then have eq: "di_id a = di_id b" "di_id b = di_id c" using le str_less_asym unfolding str_le_iff by metis+
    show ?thesis
      using assms unfolding supersedes_same [OF eq(1)] supersedes_same [OF eq(2)] supersedes_same [OF True]
      by (auto split: if_splits intro: str_le_trans)
  next
    case False
    then have "str_less (di_id c) (di_id a)" using str_le_trans [OF le(2,1)] by (auto simp: str_le_iff)
    then show ?thesis by (rule supersedes_newer)
  qed
qed

lemma supersedes_total: "supersedes a b \<or> supersedes b a"
proof (cases "di_id a = di_id b")
  case True
  then show ?thesis
    using str_le_total [of "or_else (di_version a) []" "or_else (di_version b) []"]
    by (auto simp: supersedes_same)
next
  case False
  then show ?thesis using str_less_total [of "di_id a" "di_id b"] by (auto intro: supersedes_newer)
qed

text \<open>
  The condition that guards a write in the table and the comparison that picks the newest item of a
  batch in the process are the same relation on every item the writer builds, tombstones included.
\<close>

lemma meta_condition_supersedes:
  assumes "built_item i" "built_item s"
  shows "meta_condition i (Some s) = supersedes i s"
proof (cases "di_id i = di_id s")
  case True
  then show ?thesis
    using assms by (auto simp: meta_condition_def supersedes_same built_item_def str_le_iff split: option.split)
next
  case False
  then show ?thesis
    by (auto simp: meta_condition_def supersedes_def str_le_iff)
qed

lemma build_upsert_built:
  "build_upsert_requests env l = Inr res \<Longrightarrow> ur_meta res = Some i \<Longrightarrow> built_item i"
  by (auto simp: build_upsert_requests_def nothing_to_write_def built_item_def to_domain_item_def Let_def
      split: sum.splits option.splits if_splits)

lemma build_domain_built: "build_domain_meta env d h = Inr (Some i) \<Longrightarrow> built_item i"
  by (auto simp: build_domain_meta_def built_item_def to_domain_item_def Let_def
      split: sum.splits option.splits if_splits)

lemma meta_at_write_meta:
  assumes "pe_put_meta env i = None"
  shows "meta_at k (snd (write_meta env i st)) =
    (if di_key i = k \<and> meta_condition i (meta_at k st) then Some i else meta_at k st)"
proof (cases "meta_condition i (meta_at (di_key i) st)")
  case True
  show ?thesis
  proof (cases "di_key i = k")
    case eq: True
    have "List.find (\<lambda>j. di_key j = k) (List.filter (\<lambda>j. di_key j \<noteq> k) (ps_meta st)) = None"
      by (simp add: find_None_iff)
    then show ?thesis using True eq assms by (auto simp: write_meta_def meta_at_def find_append_eq)
  next
    case False
    then have "List.find (\<lambda>j. di_key j = k) (List.filter (\<lambda>j. di_key j \<noteq> di_key i) (ps_meta st)) = meta_at k st"
      unfolding meta_at_def by (intro find_filter_other) auto
    then show ?thesis using True False assms by (simp add: write_meta_def meta_at_def find_append_eq split: option.split)
  qed
next
  case False
  then show ?thesis using assms by (auto simp: write_meta_def)
qed

text \<open>Conditional writes of domain items, in the order they reach the table.\<close>

definition put_items :: "'u projection_env \<Rightarrow> domain_item list \<Rightarrow> projection_store \<Rightarrow> projection_store" where
  "put_items env items st = fold (\<lambda>i st. snd (write_meta env i st)) items st"

definition newest :: "domain_item set \<Rightarrow> domain_item \<Rightarrow> bool" where
  "newest A x = (x \<in> A \<and> (\<forall>y \<in> A. supersedes x y))"

lemma put_items_newest:
  assumes "\<forall>i. pe_put_meta env i = None"
    and "\<forall>i \<in> set items. di_key i = k \<and> built_item i" "\<forall>i \<in> set_option (meta_at k st). built_item i"
    and "items \<noteq> [] \<or> meta_at k st \<noteq> None"
  shows "\<exists>x. meta_at k (put_items env items st) = Some x \<and> newest (set items \<union> set_option (meta_at k st)) x"
  using assms(2-)
proof (induction items arbitrary: st)
  case Nil
  then show ?case by (auto simp: put_items_def newest_def)
next
  case (Cons i items)
  let ?st1 = "snd (write_meta env i st)"
  have m1: "meta_at k ?st1 = (if meta_condition i (meta_at k st) then Some i else meta_at k st)"
    using assms(1) Cons.prems(1) by (simp add: meta_at_write_meta)
  obtain y where y: "meta_at k ?st1 = Some y" "newest (insert i (set_option (meta_at k st))) y"
  proof (cases "meta_at k st")
    case None
    then show ?thesis using that [of i] m1 by (simp add: meta_condition_def newest_def)
  next
    case (Some s)
    then have "meta_condition i (Some s) = supersedes i s"
      using Cons.prems by (intro meta_condition_supersedes) auto
    then show ?thesis
      using that [of "if supersedes i s then i else s"] m1 Some supersedes_total [of i s] by (auto simp: newest_def)
  qed
  then have "y = i \<or> meta_at k st = Some y" by (auto simp: newest_def)
  then have built: "built_item y" using Cons.prems(1,2) by auto
  obtain x where x: "meta_at k (put_items env items ?st1) = Some x" "newest (set items \<union> {y}) x"
    using Cons.IH [of ?st1] Cons.prems(1) y(1) built by auto
  have "newest (set (i # items) \<union> set_option (meta_at k st)) x"
    using x(2) y(2) by (auto simp: newest_def intro: supersedes_trans)
  then show ?case using x(1) by (simp add: put_items_def)
qed

text \<open>
  Late and repeated writes of a domain item do no harm: whatever order the conditional writes of one
  host reach the table in, and however often a reclaimed lease repeats one, the item that stays is the
  newest of them all, so that an old domain's redirects cannot come back after the host changed hands,
  a deleted domain stays deleted and an older edit never covers a newer one.
\<close>

theorem domain_writes_converge:
  assumes "\<forall>i. pe_put_meta env i = None"
    and "\<forall>i \<in> set ws. di_key i = k \<and> built_item i" "\<forall>i \<in> set_option (meta_at k st). built_item i"
    and "set vs = set ws" "ws \<noteq> []"
    and ties: "\<forall>a \<in> set ws \<union> set_option (meta_at k st). \<forall>b \<in> set ws \<union> set_option (meta_at k st).
                 supersedes a b \<and> supersedes b a \<longrightarrow> a = b"
  shows "meta_at k (put_items env vs st) = meta_at k (put_items env ws st)
    \<and> (\<exists>x. meta_at k (put_items env ws st) = Some x \<and> newest (set ws \<union> set_option (meta_at k st)) x)"
proof -
  obtain x where x: "meta_at k (put_items env ws st) = Some x" "newest (set ws \<union> set_option (meta_at k st)) x"
    using put_items_newest [OF assms(1-3)] assms(5) by auto
  have "vs \<noteq> []" using assms(4,5) by auto
  then obtain y where y: "meta_at k (put_items env vs st) = Some y" "newest (set ws \<union> set_option (meta_at k st)) y"
    using put_items_newest [OF assms(1), of vs k st] assms(2-4) by auto
  have "x = y" using x(2) y(2) ties unfolding newest_def by blast
  then show ?thesis using x y by simp
qed

definition old_domain :: domain_item where
  "old_domain = \<lparr> di_pk = ''d#h'', di_sk = ''d#meta'', di_id = ''01'', di_root_redirect = Some ''https://old.test/'',
     di_not_found_redirect = None, di_version = Some ''2025'', di_deleted = False \<rparr>"

definition old_gone :: domain_item where
  "old_gone = old_domain\<lparr>di_root_redirect := None, di_version := None, di_deleted := True\<rparr>"

definition new_domain :: domain_item where
  "new_domain = old_domain\<lparr>di_id := ''02'', di_root_redirect := Some ''https://new.test/'', di_version := Some ''2026''\<rparr>"

theorem domain_writes_converge_witness:
  "meta_at (''d#h'', ''d#meta'') (put_items throttled_env [new_domain, old_domain, old_gone, old_domain] empty_store)
   = Some new_domain"
proof -
  let ?k = "(''d#h'', ''d#meta'')"
  let ?ws = "[old_domain, old_gone, new_domain]"
  let ?vs = "[new_domain, old_domain, old_gone, old_domain]"
  have less: "str_less ''01'' ''02''" "\<not> str_less ''02'' ''01''" by (simp_all add: cu_def)
  have sup: "supersedes new_domain old_domain" "supersedes new_domain old_gone" "supersedes old_gone old_domain"
    "\<not> supersedes old_domain new_domain" "\<not> supersedes old_gone new_domain" "\<not> supersedes old_domain old_gone"
    by (simp_all add: supersedes_def new_domain_def old_gone_def old_domain_def less del: str_less.simps)
  have e: "meta_at ?k empty_store = None" by (simp add: meta_at_def empty_store_def)
  have a: "\<forall>i. pe_put_meta throttled_env i = None" by (simp add: throttled_env_def)
  have b: "\<forall>i \<in> set ?ws. di_key i = ?k \<and> built_item i"
    by (simp add: di_key_def built_item_def new_domain_def old_gone_def old_domain_def)
  have c: "\<forall>i \<in> set_option (meta_at ?k empty_store). built_item i" by (simp add: e)
  have d: "set ?vs = set ?ws" by auto
  have t: "\<forall>a \<in> set ?ws \<union> set_option (meta_at ?k empty_store). \<forall>b \<in> set ?ws \<union> set_option (meta_at ?k empty_store).
      supersedes a b \<and> supersedes b a \<longrightarrow> a = b"
    using sup by (simp add: e)
  from domain_writes_converge [OF a b c d _ t] obtain x
    where x: "meta_at ?k (put_items throttled_env ?vs empty_store) = Some x" "newest (set ?ws \<union> set_option (meta_at ?k empty_store)) x"
    by auto
  have "x = new_domain" using x(2) sup by (auto simp: newest_def e)
  with x(1) show ?thesis by simp
qed

end
