(* ===== verification/Webhooks.thy ===== *)
theory Webhooks
  imports Http_Url
begin

text \<open>
  Webhook delivery: the guarded request (\<open>apps/worker/src/jobs/safe-post.ts\<close>), the run over the due
  deliveries with its bookkeeping (\<open>apps/worker/src/jobs/webhooks.ts\<close>) and the queueing of an event
  (\<open>enqueueWebhookEvent\<close> of \<open>packages/database/src/events.ts\<close>). The URL parser, the classification of
  literal addresses, DNS, the socket, the HMAC and \<open>JSON.stringify\<close> are parameters. The life of the
  queue is a step relation that keeps the list of posts made. Times are milliseconds; one instant
  stands for the handling of one row.
\<close>

section \<open>The guarded request\<close>

text \<open>An address with its family, as \<open>dns.lookup\<close> gives it.\<close>

type_synonym lookup_address = "nat \<times> string"

record net =
  nt_parse :: "string \<Rightarrow> parsed_url option"
  nt_literal :: "string \<Rightarrow> nat"
  nt_dns :: "string \<Rightarrow> string + lookup_address list"

definition blocked_message :: "string \<Rightarrow> string" where
  "blocked_message host =
     ''BlockedAddressError: Blocked: '' @ host @ '' is, or resolves to, a private, loopback or link-local address''"

definition is_denied_address :: "lookup_address \<Rightarrow> bool" where
  "is_denied_address a = (if fst a = 6 then is_denied_ipv6 (snd a) else is_denied_ipv4 (snd a))"

definition guarded_lookup :: "(string \<Rightarrow> string + lookup_address list) \<Rightarrow> string \<Rightarrow> bool
    \<Rightarrow> string + lookup_address list" where
  "guarded_lookup dns host all_wanted =
     (case dns host of
        Inl e \<Rightarrow> Inl e
      | Inr addresses \<Rightarrow>
          if addresses = [] \<or> list_ex is_denied_address addresses then Inl (blocked_message host)
          else if all_wanted then Inr addresses else Inr [hd addresses])"

text \<open>
  The addresses a socket may connect to: a literal address is used as it is and never looked up, any
  other name goes through the lookup it was given.
\<close>

definition socket_addresses :: "net \<Rightarrow> string \<Rightarrow> bool \<Rightarrow> string + lookup_address list" where
  "socket_addresses net host all_wanted =
     (if nt_literal net (strip_brackets host) \<noteq> 0
      then Inr [(nt_literal net (strip_brackets host), strip_brackets host)]
      else guarded_lookup (nt_dns net) host all_wanted)"

text \<open>The checks of \<open>safePost\<close> before it opens a socket; \<open>Inr\<close> the addresses it may connect to.\<close>

definition safe_post_targets :: "net \<Rightarrow> bool \<Rightarrow> string \<Rightarrow> string + lookup_address list" where
  "safe_post_targets net all_wanted url =
     (case nt_parse net url of
        None \<Rightarrow> Inl (''Error: Not a valid URL: '' @ url)
      | Some u \<Rightarrow>
          if pu_protocol u \<noteq> ''https:'' \<and> pu_protocol u \<noteq> ''http:''
          then Inl (''Error: Only http and https endpoints are allowed: '' @ url)
          else if is_denied_host (pu_hostname u) then Inl (blocked_message (pu_hostname u))
          else socket_addresses net (pu_hostname u) all_wanted)"

record request_made =
  rm_headers :: "(string \<times> string) list"
  rm_body :: string

text \<open>\<open>exchange\<close> is the socket: a transport error, the timeout included, or the response's status.\<close>

definition safe_post :: "net \<Rightarrow> bool \<Rightarrow> (lookup_address list \<Rightarrow> request_made \<Rightarrow> string + nat)
    \<Rightarrow> string \<Rightarrow> (string \<times> string) list \<Rightarrow> string \<Rightarrow> string + nat" where
  "safe_post net all_wanted exchange url headers body =
     (case safe_post_targets net all_wanted url of
        Inl e \<Rightarrow> Inl e
      | Inr addresses \<Rightarrow>
          exchange addresses
            \<lparr> rm_headers = headers @ [(''Content-Length'', show_nat (length body))], rm_body = body \<rparr>)"

text \<open>
  What is documented of the platform: the host of a parsed http or https URL is in lower case, and has
  brackets only around a version 6 address; \<open>net.isIP\<close> is 4, 6 or 0, and of the literal addresses
  exactly those of version 6 have a colon, and none has a bracket.
\<close>

definition net_ok :: "net \<Rightarrow> bool" where
  "net_ok net =
     ((\<forall>url u. nt_parse net url = Some u \<longrightarrow> pu_protocol u \<in> {''http:'', ''https:''} \<longrightarrow>
         js_lower (pu_hostname u) = pu_hostname u
         \<and> (strip_brackets (pu_hostname u) \<noteq> pu_hostname u \<longrightarrow> CHR '':'' \<in> set (strip_brackets (pu_hostname u))))
      \<and> (\<forall>h. nt_literal net h \<in> {0, 4, 6}
           \<and> (nt_literal net h \<noteq> 0 \<longrightarrow> (nt_literal net h = 6) = (CHR '':'' \<in> set h) \<and> strip_brackets h = h)))"

section \<open>Deliveries\<close>

datatype delivery_status = Waiting | Delivered | GivenUp

datatype hook_health = Healthy | Retrying | Failing

record webhook =
  wh_id :: string
  wh_workspace :: string
  wh_endpoint :: string
  wh_events :: "string list"
  wh_secret :: string
  wh_health :: hook_health
  wh_failures :: nat
  wh_last_delivery :: "int option"
  wh_last_error :: "string option"
  wh_disabled :: "int option"

record 'p delivery =
  dl_id :: string
  dl_webhook :: string
  dl_event :: string
  dl_payload :: 'p
  dl_created :: int
  dl_status :: delivery_status
  dl_attempts :: nat
  dl_code :: "nat option"
  dl_error :: "string option"
  dl_next_retry :: "int option"
  dl_delivered :: "int option"

text \<open>What a run reads of a delivery and its webhook.\<close>

record 'p pending_delivery =
  pd_id :: string
  pd_webhook :: string
  pd_event :: string
  pd_payload :: 'p
  pd_attempts :: nat
  pd_endpoint :: string
  pd_secret :: string

record 'p hook_tables =
  ht_hooks :: "webhook list"
  ht_deliveries :: "'p delivery list"

definition backoff_minutes :: "int list" where
  "backoff_minutes = [1, 5, 25, 120, 600]"

definition delivery_attempts :: nat where
  "delivery_attempts = length backoff_minutes"

definition minute_ms :: int where
  "minute_ms = 60 * 1000"

record 'p webhook_env =
  we_hmac :: "string \<Rightarrow> string \<Rightarrow> string"
  we_stringify :: "string \<Rightarrow> 'p \<Rightarrow> string"
  we_range_error :: string
  we_post :: "int \<Rightarrow> string \<Rightarrow> (string \<times> string) list \<Rightarrow> string \<Rightarrow> string + nat"

definition signed_material :: "int \<Rightarrow> string \<Rightarrow> string" where
  "signed_material timestamp body = show_int timestamp @ ''.'' @ body"

definition sign_payload :: "(string \<Rightarrow> string \<Rightarrow> string) \<Rightarrow> string \<Rightarrow> int \<Rightarrow> string \<Rightarrow> string" where
  "sign_payload hmac secret timestamp body = hmac secret (signed_material timestamp body)"

text \<open>The select of a run: due deliveries of enabled webhooks, oldest first.\<close>

definition hook_of :: "'p hook_tables \<Rightarrow> string \<Rightarrow> webhook option" where
  "hook_of tb w = List.find (\<lambda>h. wh_id h = w) (ht_hooks tb)"

definition is_due :: "int \<Rightarrow> 'p hook_tables \<Rightarrow> 'p delivery \<Rightarrow> bool" where
  "is_due now tb d =
     (dl_status d = Waiting
      \<and> (case dl_next_retry d of None \<Rightarrow> True | Some t \<Rightarrow> t \<le> now)
      \<and> (case hook_of tb (dl_webhook d) of None \<Rightarrow> False | Some h \<Rightarrow> wh_disabled h = None))"

definition pending_row :: "'p hook_tables \<Rightarrow> 'p delivery \<Rightarrow> 'p pending_delivery" where
  "pending_row tb d =
     (let h = the (hook_of tb (dl_webhook d)) in
      \<lparr> pd_id = dl_id d, pd_webhook = dl_webhook d, pd_event = dl_event d, pd_payload = dl_payload d,
         pd_attempts = dl_attempts d, pd_endpoint = wh_endpoint h, pd_secret = wh_secret h \<rparr>)"

definition due_rows :: "int \<Rightarrow> nat \<Rightarrow> 'p hook_tables \<Rightarrow> 'p pending_delivery list" where
  "due_rows now batch tb =
     map (pending_row tb) (take batch (sort_key dl_created (List.filter (is_due now tb) (ht_deliveries tb))))"

definition update_delivery :: "string \<Rightarrow> ('p delivery \<Rightarrow> 'p delivery) \<Rightarrow> 'p hook_tables \<Rightarrow> 'p hook_tables" where
  "update_delivery i g tb =
     tb\<lparr>ht_deliveries := map (\<lambda>d. if dl_id d = i then g d else d) (ht_deliveries tb)\<rparr>"

definition update_hook :: "string \<Rightarrow> (webhook \<Rightarrow> webhook) \<Rightarrow> 'p hook_tables \<Rightarrow> 'p hook_tables" where
  "update_hook i g tb = tb\<lparr>ht_hooks := map (\<lambda>h. if wh_id h = i then g h else h) (ht_hooks tb)\<rparr>"

definition retry_delay :: "nat \<Rightarrow> int" where
  "retry_delay attempts = backoff_minutes ! min attempts (length backoff_minutes - 1)"

text \<open>
  The failure counter is a \<open>smallint\<close>: past its maximum the update of the webhook raises and changes
  nothing, after the update of the delivery has been made. \<open>Some e\<close> is the error thrown.
\<close>

definition max_smallint :: nat where
  "max_smallint = 32767"

definition fail_delivery :: "int \<Rightarrow> nat \<Rightarrow> string \<Rightarrow> nat option \<Rightarrow> 'p delivery \<Rightarrow> 'p delivery" where
  "fail_delivery now attempts err code d =
     (let exhausted = (delivery_attempts \<le> attempts) in
      d\<lparr>dl_attempts := attempts, dl_status := (if exhausted then GivenUp else Waiting), dl_error := Some err,
         dl_code := code,
         dl_next_retry := (if exhausted then None else Some (now + retry_delay attempts * minute_ms))\<rparr>)"

definition fail_hook :: "int \<Rightarrow> string \<Rightarrow> webhook \<Rightarrow> webhook" where
  "fail_hook now err h =
     (if max_smallint \<le> wh_failures h then h
      else h\<lparr>wh_failures := wh_failures h + 1, wh_last_delivery := Some now, wh_last_error := Some err,
             wh_health := (if delivery_attempts \<le> wh_failures h + 1 then Failing else Retrying)\<rparr>)"

definition out_of_range :: "string \<Rightarrow> 'p hook_tables \<Rightarrow> bool" where
  "out_of_range w tb = list_ex (\<lambda>h. wh_id h = w \<and> max_smallint \<le> wh_failures h) (ht_hooks tb)"

definition record_failure :: "'p webhook_env \<Rightarrow> int \<Rightarrow> 'p pending_delivery \<Rightarrow> string \<Rightarrow> nat option
    \<Rightarrow> 'p hook_tables \<Rightarrow> 'p hook_tables \<times> string option" where
  "record_failure env now r err code tb =
     (update_hook (pd_webhook r) (fail_hook now err)
        (update_delivery (pd_id r) (fail_delivery now (pd_attempts r + 1) err code) tb),
      if out_of_range (pd_webhook r) tb then Some (we_range_error env) else None)"

definition record_success :: "int \<Rightarrow> 'p pending_delivery \<Rightarrow> nat \<Rightarrow> 'p hook_tables \<Rightarrow> 'p hook_tables" where
  "record_success now r status tb =
     update_hook (pd_webhook r)
       (\<lambda>h. h\<lparr>wh_health := Healthy, wh_failures := 0, wh_last_delivery := Some now, wh_last_error := None\<rparr>)
       (update_delivery (pd_id r)
         (\<lambda>d. d\<lparr>dl_status := Delivered, dl_delivered := Some now, dl_attempts := dl_attempts d + 1,
                 dl_code := Some status, dl_next_retry := None\<rparr>)
         tb)"

definition post_delivery :: "'p webhook_env \<Rightarrow> int \<Rightarrow> 'p pending_delivery \<Rightarrow> string + nat" where
  "post_delivery env now r =
     (let body = we_stringify env (pd_event r) (pd_payload r); timestamp = now div 1000
      in we_post env now (pd_endpoint r)
           [(''Content-Type'', ''application/json''), (''X-SnapURL-Event'', pd_event r),
            (''X-SnapURL-Timestamp'', show_int timestamp),
            (''X-SnapURL-Signature'', sign_payload (we_hmac env) (pd_secret r) timestamp body)]
           body)"

definition accepted :: "string + nat \<Rightarrow> bool" where
  "accepted answer = (case answer of Inl e \<Rightarrow> False | Inr status \<Rightarrow> 200 \<le> status \<and> status < 300)"

text \<open>
  One row: the post, then its bookkeeping. An error of the bookkeeping of a refused post is caught once
  and booked as the failure, which throws again; an error of the handler itself leaves the run.
\<close>

definition deliver_one :: "'p webhook_env \<Rightarrow> int \<Rightarrow> 'p pending_delivery \<Rightarrow> 'p hook_tables
    \<Rightarrow> 'p hook_tables \<times> string option" where
  "deliver_one env now r tb =
     (case post_delivery env now r of
        Inr status \<Rightarrow>
          if 200 \<le> status \<and> status < 300 then (record_success now r status tb, None)
          else (case record_failure env now r (''HTTP '' @ show_nat status) (Some status) tb of
                  (tb', None) \<Rightarrow> (tb', None)
                | (tb', Some e) \<Rightarrow> record_failure env now r (take 300 e) None tb')
      | Inl err \<Rightarrow> record_failure env now r (take 300 err) None tb)"

fun deliver_rows :: "'p webhook_env \<Rightarrow> (nat \<Rightarrow> int) \<Rightarrow> nat \<Rightarrow> 'p pending_delivery list \<Rightarrow> 'p hook_tables
    \<Rightarrow> nat \<Rightarrow> nat \<Rightarrow> 'p hook_tables \<times> (string + nat \<times> nat)" where
  "deliver_rows env clock k [] tb sent failed = (tb, Inr (sent, failed))"
| "deliver_rows env clock k (r # rs) tb sent failed =
     (case deliver_one env (clock k) r tb of
        (tb', Some e) \<Rightarrow> (tb', Inl e)
      | (tb', None) \<Rightarrow>
          if accepted (post_delivery env (clock k) r) then deliver_rows env clock (Suc k) rs tb' (sent + 1) failed
          else deliver_rows env clock (Suc k) rs tb' sent (failed + 1))"

definition deliver_webhooks :: "'p webhook_env \<Rightarrow> (nat \<Rightarrow> int) \<Rightarrow> int \<Rightarrow> nat \<Rightarrow> 'p hook_tables
    \<Rightarrow> 'p hook_tables \<times> (string + nat \<times> nat)" where
  "deliver_webhooks env clock now batch tb = deliver_rows env clock 0 (due_rows now batch tb) tb 0 0"

definition week_ms :: int where
  "week_ms = 7 * 24 * 60 * minute_ms"

definition prune_deliveries :: "int \<Rightarrow> 'p hook_tables \<Rightarrow> 'p hook_tables \<times> nat" where
  "prune_deliveries now tb =
     (let old = (\<lambda>d. dl_status d = Delivered \<and> (case dl_delivered d of None \<Rightarrow> False | Some t \<Rightarrow> t < now - week_ms))
      in (tb\<lparr>ht_deliveries := List.filter (\<lambda>d. \<not> old d) (ht_deliveries tb)\<rparr>,
          length (List.filter old (ht_deliveries tb))))"

section \<open>Queueing an event\<close>

text \<open>\<open>new_id\<close> gives the id column's default for the webhook a row is for.\<close>

definition subscribed :: "string \<Rightarrow> string \<Rightarrow> webhook \<Rightarrow> bool" where
  "subscribed workspace event h = (wh_workspace h = workspace \<and> wh_disabled h = None \<and> event \<in> set (wh_events h))"

definition queued_delivery :: "string \<Rightarrow> int \<Rightarrow> string \<Rightarrow> 'p \<Rightarrow> webhook \<Rightarrow> 'p delivery" where
  "queued_delivery i now event payload h =
     \<lparr> dl_id = i, dl_webhook = wh_id h, dl_event = event, dl_payload = payload, dl_created = now,
        dl_status = Waiting, dl_attempts = 0, dl_code = None, dl_error = None, dl_next_retry = None,
        dl_delivered = None \<rparr>"

definition enqueue_webhook_event :: "(string \<Rightarrow> string) \<Rightarrow> int \<Rightarrow> string \<Rightarrow> string \<Rightarrow> 'p \<Rightarrow> 'p hook_tables
    \<Rightarrow> 'p hook_tables \<times> nat" where
  "enqueue_webhook_event new_id now workspace event payload tb =
     (let hooks = List.filter (subscribed workspace event) (ht_hooks tb)
      in (tb\<lparr>ht_deliveries := ht_deliveries tb
                 @ map (\<lambda>h. queued_delivery (new_id (wh_id h)) now event payload h) hooks\<rparr>,
          length hooks))"

definition new_webhook :: "string \<Rightarrow> string \<Rightarrow> string \<Rightarrow> string list \<Rightarrow> string \<Rightarrow> webhook" where
  "new_webhook i workspace endpoint events secret =
     \<lparr> wh_id = i, wh_workspace = workspace, wh_endpoint = endpoint, wh_events = events, wh_secret = secret,
        wh_health = Healthy, wh_failures = 0, wh_last_delivery = None, wh_last_error = None, wh_disabled = None \<rparr>"

text \<open>Deleting a webhook takes its deliveries with it, the foreign key's cascade.\<close>

definition remove_webhook :: "string \<Rightarrow> string \<Rightarrow> 'p hook_tables \<Rightarrow> string + 'p hook_tables" where
  "remove_webhook workspace i tb =
     (if \<exists>h \<in> set (ht_hooks tb). wh_id h = i \<and> wh_workspace h = workspace
      then Inr (tb\<lparr>ht_hooks := List.filter (\<lambda>h. \<not> (wh_id h = i \<and> wh_workspace h = workspace)) (ht_hooks tb),
                   ht_deliveries := List.filter (\<lambda>d. dl_webhook d \<noteq> i) (ht_deliveries tb)\<rparr>)
      else Inl ''That webhook doesn't exist in this workspace.'')"

section \<open>The life of the queue\<close>

text \<open>Each post made: the delivery, its webhook, and whether the receiver accepted it.\<close>

type_synonym post_made = "string \<times> string \<times> bool"

fun run_posts :: "'p webhook_env \<Rightarrow> (nat \<Rightarrow> int) \<Rightarrow> nat \<Rightarrow> 'p pending_delivery list \<Rightarrow> 'p hook_tables \<Rightarrow> post_made list" where
  "run_posts env clock k [] tb = []"
| "run_posts env clock k (r # rs) tb =
     (pd_id r, pd_webhook r, accepted (post_delivery env (clock k) r))
       # (case deliver_one env (clock k) r tb of
            (tb', Some e) \<Rightarrow> [] | (tb', None) \<Rightarrow> run_posts env clock (Suc k) rs tb')"

record 'p hook_system =
  hs_tables :: "'p hook_tables"
  hs_posts :: "post_made list"

definition outcomes_of :: "string \<Rightarrow> post_made list \<Rightarrow> bool list" where
  "outcomes_of i posts = map (snd \<circ> snd) (List.filter (\<lambda>q. fst q = i) posts)"

definition hook_outcomes :: "string \<Rightarrow> post_made list \<Rightarrow> bool list" where
  "hook_outcomes w posts = map (snd \<circ> snd) (List.filter (\<lambda>q. fst (snd q) = w) posts)"

definition unused :: "'p hook_system \<Rightarrow> string \<Rightarrow> bool" where
  "unused st i =
     (i \<notin> dl_id ` set (ht_deliveries (hs_tables st)) \<and> i \<notin> fst ` set (hs_posts st)
      \<and> i \<notin> wh_id ` set (ht_hooks (hs_tables st)) \<and> i \<notin> (fst \<circ> snd) ` set (hs_posts st))"

inductive hook_step :: "'p webhook_env \<Rightarrow> 'p hook_system \<Rightarrow> 'p hook_system \<Rightarrow> bool" for env where
  Register: "unused st i \<Longrightarrow>
    hook_step env st (st\<lparr>hs_tables := (hs_tables st)\<lparr>ht_hooks := ht_hooks (hs_tables st)
                                          @ [new_webhook i workspace endpoint events secret]\<rparr>\<rparr>)"
| Remove: "remove_webhook workspace i (hs_tables st) = Inr tb \<Longrightarrow> hook_step env st (st\<lparr>hs_tables := tb\<rparr>)"
| Queue: "inj new_id \<Longrightarrow> \<forall>w. unused st (new_id w) \<Longrightarrow>
    hook_step env st (st\<lparr>hs_tables := fst (enqueue_webhook_event new_id now workspace event payload (hs_tables st))\<rparr>)"
| Run: "deliver_webhooks env clock now batch (hs_tables st) = (tb, answer) \<Longrightarrow>
    hook_step env st (st\<lparr>hs_tables := tb,
        hs_posts := hs_posts st @ run_posts env clock 0 (due_rows now batch (hs_tables st)) (hs_tables st)\<rparr>)"
| Prune: "hook_step env st (st\<lparr>hs_tables := fst (prune_deliveries now (hs_tables st))\<rparr>)"

inductive_cases hook_stepE: "hook_step env st st'"

inductive hook_reach :: "'p webhook_env \<Rightarrow> 'p hook_system \<Rightarrow> bool" for env where
  Start: "hook_reach env \<lparr> hs_tables = \<lparr> ht_hooks = [], ht_deliveries = [] \<rparr>, hs_posts = [] \<rparr>"
| Step: "hook_reach env st \<Longrightarrow> hook_step env st st' \<Longrightarrow> hook_reach env st'"

definition delivery_life :: "'p delivery \<Rightarrow> bool list \<Rightarrow> bool" where
  "delivery_life d os =
     (dl_attempts d = length os
      \<and> (case dl_status d of
           Waiting \<Rightarrow> length os < 5 \<and> os = replicate (length os) False
         | Delivered \<Rightarrow> \<exists>n < 5. os = replicate n False @ [True]
         | GivenUp \<Rightarrow> os = replicate 5 False \<and> dl_next_retry d = None))"

definition health_of :: "nat \<Rightarrow> hook_health" where
  "health_of n = (if n = 0 then Healthy else if n < 5 then Retrying else Failing)"

definition failure_run :: "bool list \<Rightarrow> nat" where
  "failure_run os = length (takeWhile Not (rev os))"

definition hook_life :: "webhook \<Rightarrow> bool list \<Rightarrow> bool" where
  "hook_life h os = (wh_failures h = min max_smallint (failure_run os) \<and> wh_health h = health_of (failure_run os))"

definition tables_ok :: "'p hook_tables \<Rightarrow> post_made list \<Rightarrow> bool" where
  "tables_ok tb posts =
     (distinct (map dl_id (ht_deliveries tb)) \<and> distinct (map wh_id (ht_hooks tb))
      \<and> (\<forall>d \<in> set (ht_deliveries tb). delivery_life d (outcomes_of (dl_id d) posts))
      \<and> (\<forall>h \<in> set (ht_hooks tb). hook_life h (hook_outcomes (wh_id h) posts)))"

definition fits :: "'p hook_tables \<Rightarrow> 'p pending_delivery \<Rightarrow> bool" where
  "fits tb r = (\<exists>d \<in> set (ht_deliveries tb). dl_id d = pd_id r \<and> dl_status d = Waiting \<and> dl_attempts d = pd_attempts r)"

lemma delivery_attempts_5 [simp]: "delivery_attempts = 5"
  by (simp add: delivery_attempts_def backoff_minutes_def)

lemma failure_run_simps [simp]:
  "failure_run [] = 0" "failure_run (os @ [True]) = 0" "failure_run (os @ [False]) = Suc (failure_run os)"
  by (simp_all add: failure_run_def)

lemma outcomes_append [simp]:
  "outcomes_of i (posts @ qs) = outcomes_of i posts @ outcomes_of i qs"
  "outcomes_of i [(j, w, ok)] = (if j = i then [ok] else [])"
  by (simp_all add: outcomes_of_def)

lemma hook_outcomes_append [simp]:
  "hook_outcomes i (posts @ qs) = hook_outcomes i posts @ hook_outcomes i qs"
  "hook_outcomes i [(d, w, ok)] = (if w = i then [ok] else [])"
  by (simp_all add: hook_outcomes_def)

lemma update_fields [simp]:
  "ht_hooks (update_delivery i g tb) = ht_hooks tb"
  "ht_deliveries (update_hook i f tb) = ht_deliveries tb"
  "ht_deliveries (update_delivery i g tb) = map (\<lambda>d. if dl_id d = i then g d else d) (ht_deliveries tb)"
  "ht_hooks (update_hook i f tb) = map (\<lambda>h. if wh_id h = i then f h else h) (ht_hooks tb)"
  by (simp_all add: update_delivery_def update_hook_def)

text \<open>The bookkeeping of one row is an update of the delivery and one of its webhook that agree with the post.\<close>

definition books :: "'p pending_delivery \<Rightarrow> bool \<Rightarrow> 'p hook_tables \<Rightarrow> 'p hook_tables \<Rightarrow> bool" where
  "books r ok tb tb' =
     (\<exists>g f. tb' = update_hook (pd_webhook r) f (update_delivery (pd_id r) g tb)
        \<and> (\<forall>d. dl_id (g d) = dl_id d) \<and> (\<forall>h. wh_id (f h) = wh_id h)
        \<and> (\<forall>d os. dl_status d = Waiting \<longrightarrow> dl_attempts d = pd_attempts r \<longrightarrow> delivery_life d os
             \<longrightarrow> delivery_life (g d) (os @ [ok]))
        \<and> (\<forall>h os. hook_life h os \<longrightarrow> hook_life (f h) (os @ [ok])))"

lemma replicate_snoc: "replicate n x @ [x] = replicate (Suc n) x"
  by (simp add: replicate_append_same)

lemma fail_delivery_life:
  assumes "dl_status d = Waiting" "dl_attempts d = attempts" "delivery_life d os"
  shows "delivery_life (fail_delivery now (Suc attempts) e c d) (os @ [False])"
proof -
  obtain n where n: "os = replicate n False" "n < 5" "attempts = n"
    using assms unfolding delivery_life_def by force
  show ?thesis
    using n by (auto simp: delivery_life_def fail_delivery_def Let_def replicate_snoc le_Suc_eq simp flip: replicate.simps)
qed

lemma fail_hook_life: "hook_life h os \<Longrightarrow> hook_life (fail_hook now e h) (os @ [False])"
  by (cases "failure_run os < 32767") (auto simp: hook_life_def health_of_def fail_hook_def max_smallint_def)

lemma fail_ids [simp]:
  "dl_id (fail_delivery now n e c d) = dl_id d" "dl_attempts (fail_delivery now n e c d) = n" "wh_id (fail_hook now e h) = wh_id h"
  "fail_delivery now n e c (fail_delivery now' n e' c' d) = fail_delivery now n e c d"
  by (simp_all add: fail_delivery_def Let_def fail_hook_def)

lemma out_of_range_same:
  assumes "out_of_range w tb" "distinct (map wh_id (ht_hooks tb))"
  shows "ht_hooks (update_hook w (fail_hook now e) tb) = ht_hooks tb"
proof -
  obtain h where h: "h \<in> set (ht_hooks tb)" "wh_id h = w" "max_smallint \<le> wh_failures h"
    using assms(1) by (auto simp: out_of_range_def list_ex_iff)
  have "(if wh_id x = w then fail_hook now e x else x) = x" if "x \<in> set (ht_hooks tb)" for x
  proof (cases "wh_id x = w")
    case True
    then have "x = h" using that h assms(2) by (metis distinct_map inj_onD)
    then show ?thesis using h(3) by (simp add: fail_hook_def)
  qed simp
  then show ?thesis unfolding update_fields by (intro map_idI)
qed

lemma books_failure: "books r False tb (fst (record_failure env now r e c tb))"
  unfolding books_def record_failure_def fst_conv
  by (intro exI [of _ "fail_delivery now (pd_attempts r + 1) e c"] exI [of _ "fail_hook now e"])
     (auto intro: fail_delivery_life fail_hook_life)

text \<open>A failure booked twice is booked once, since the webhook is at its maximum.\<close>

lemma books_failure_twice:
  assumes "record_failure env now r e c tb = (tb', Some e')" "distinct (map wh_id (ht_hooks tb))"
  shows "books r False tb (fst (record_failure env now r e2 c2 tb'))"
proof -
  have o: "out_of_range (pd_webhook r) tb" and tb': "tb' = update_hook (pd_webhook r) (fail_hook now e)
      (update_delivery (pd_id r) (fail_delivery now (pd_attempts r + 1) e c) tb)"
    using assms(1) by (auto simp: record_failure_def split: if_splits)
  have hooks: "ht_hooks tb' = ht_hooks tb"
    using out_of_range_same [OF o assms(2), of now e] by (simp add: tb' update_hook_def update_delivery_def)
  have "fst (record_failure env now r e2 c2 tb') = fst (record_failure env now r e2 c2 tb)"
    using hooks by (simp add: record_failure_def tb' update_hook_def update_delivery_def)
  then show ?thesis using books_failure by metis
qed

lemma books_success: "books r True tb (record_success now r status tb)"
  unfolding books_def record_success_def
proof (intro exI conjI allI impI)
  fix d :: "'a delivery" and os
  assume a: "dl_status d = Waiting" "dl_attempts d = pd_attempts r" "delivery_life d os"
  obtain n where n: "os = replicate n False" "n < 5" "dl_attempts d = n"
    using a unfolding delivery_life_def by force
  show "delivery_life (d\<lparr>dl_status := Delivered, dl_delivered := Some now, dl_attempts := dl_attempts d + 1,
      dl_code := Some status, dl_next_retry := None\<rparr>) (os @ [True])"
    using n by (auto simp: delivery_life_def)
next
  fix h os assume "hook_life h os"
  then show "hook_life (h\<lparr>wh_health := Healthy, wh_failures := 0, wh_last_delivery := Some now, wh_last_error := None\<rparr>)
      (os @ [True])"
    by (simp add: hook_life_def health_of_def)
qed (rule refl, simp_all)

lemma deliver_one_books:
  assumes "distinct (map wh_id (ht_hooks tb))"
  shows "books r (accepted (post_delivery env now r)) tb (fst (deliver_one env now r tb))"
proof (cases "post_delivery env now r")
  case (Inl e)
  then show ?thesis using books_failure by (simp add: deliver_one_def accepted_def)
next
  case (Inr status)
  show ?thesis
  proof (cases "200 \<le> status \<and> status < 300")
    case True
    then show ?thesis using Inr books_success by (simp add: deliver_one_def accepted_def)
  next
    case False
    obtain tb' e where f: "record_failure env now r (''HTTP '' @ show_nat status) (Some status) tb = (tb', e)" by fastforce
    show ?thesis
    proof (cases e)
      case None
      then show ?thesis
        using f books_failure [of r tb env now "''HTTP '' @ show_nat status" "Some status"]
        unfolding deliver_one_def accepted_def Inr sum.case if_not_P [OF False] by (simp add: False del: not_less)
    next
      case (Some e')
      then show ?thesis
        using f books_failure_twice [OF _ assms]
        unfolding deliver_one_def accepted_def Inr sum.case if_not_P [OF False] by (simp add: False del: not_less)
    qed
  qed
qed

lemma deliver_one_ok:
  assumes "tables_ok tb posts" "fits tb r"
  shows "tables_ok (fst (deliver_one env now r tb)) (posts @ [(pd_id r, pd_webhook r, accepted (post_delivery env now r))])"
proof -
  let ?ok = "accepted (post_delivery env now r)"
  obtain g f where gf: "fst (deliver_one env now r tb) = update_hook (pd_webhook r) f (update_delivery (pd_id r) g tb)"
    "\<And>d. dl_id (g d) = dl_id d" "\<And>h. wh_id (f h) = wh_id h"
    "\<And>d os. dl_status d = Waiting \<Longrightarrow> dl_attempts d = pd_attempts r \<Longrightarrow> delivery_life d os \<Longrightarrow> delivery_life (g d) (os @ [?ok])"
    "\<And>h os. hook_life h os \<Longrightarrow> hook_life (f h) (os @ [?ok])"
    using deliver_one_books [of tb r env now] assms(1) unfolding books_def tables_ok_def by blast
  obtain d0 where d0: "d0 \<in> set (ht_deliveries tb)" "dl_id d0 = pd_id r" "dl_status d0 = Waiting" "dl_attempts d0 = pd_attempts r"
    using assms(2) by (auto simp: fits_def)
  have same: "d = d0" if "d \<in> set (ht_deliveries tb)" "dl_id d = pd_id r" for d
    using that d0 assms(1) by (auto simp: tables_ok_def distinct_map inj_on_def)
  have deliveries: "delivery_life (if dl_id d = pd_id r then g d else d)
      (outcomes_of (dl_id d) posts @ (if pd_id r = dl_id d then [?ok] else []))" if "d \<in> set (ht_deliveries tb)" for d
    using that same [OF that] d0 gf(4) assms(1) by (auto simp: tables_ok_def)
  have hooks: "hook_life (if wh_id h = pd_webhook r then f h else h)
      (hook_outcomes (wh_id h) posts @ (if pd_webhook r = wh_id h then [?ok] else []))" if "h \<in> set (ht_hooks tb)" for h
    using that gf(5) assms(1) by (auto simp: tables_ok_def)
  have ids: "map (\<lambda>d. dl_id (if dl_id d = pd_id r then g d else d)) ds = map dl_id ds"
    "map (\<lambda>h. wh_id (if wh_id h = pd_webhook r then f h else h)) hs = map wh_id hs" for ds hs
    using gf(2,3) by simp_all
  show ?thesis
    unfolding gf(1) tables_ok_def update_fields map_map comp_def ids set_map
  proof (intro conjI ballI)
    show "distinct (map dl_id (ht_deliveries tb))" "distinct (map wh_id (ht_hooks tb))"
      using assms(1) by (simp_all add: tables_ok_def)
  next
    fix x assume "x \<in> (\<lambda>d. if dl_id d = pd_id r then g d else d) ` set (ht_deliveries tb)"
    then obtain d where d: "d \<in> set (ht_deliveries tb)" "x = (if dl_id d = pd_id r then g d else d)" by blast
    then have "dl_id x = dl_id d" using gf(2) by simp
    then show "delivery_life x (outcomes_of (dl_id x) (posts @ [(pd_id r, pd_webhook r, ?ok)]))"
      using deliveries [OF d(1)] d(2) by simp
  next
    fix x assume "x \<in> (\<lambda>h. if wh_id h = pd_webhook r then f h else h) ` set (ht_hooks tb)"
    then obtain h where h: "h \<in> set (ht_hooks tb)" "x = (if wh_id h = pd_webhook r then f h else h)" by blast
    then have "wh_id x = wh_id h" using gf(3) by simp
    then show "hook_life x (hook_outcomes (wh_id x) (posts @ [(pd_id r, pd_webhook r, ?ok)]))"
      using hooks [OF h(1)] h(2) by simp
  qed
qed

lemma deliver_one_fits:
  assumes "fits tb r'" "pd_id r' \<noteq> pd_id r" "distinct (map wh_id (ht_hooks tb))"
  shows "fits (fst (deliver_one env now r tb)) r'"
proof -
  obtain g f where gf: "fst (deliver_one env now r tb) = update_hook (pd_webhook r) f (update_delivery (pd_id r) g tb)"
    using deliver_one_books [OF assms(3), of r env now] unfolding books_def by blast
  obtain d where d: "d \<in> set (ht_deliveries tb)" "dl_id d = pd_id r'" "dl_status d = Waiting" "dl_attempts d = pd_attempts r'"
    using assms(1) by (auto simp: fits_def)
  then have "d \<in> set (ht_deliveries (fst (deliver_one env now r tb)))"
    unfolding gf update_fields set_map using assms(2) by (intro image_eqI [of _ _ d]) auto
  then show ?thesis using d by (auto simp: fits_def)
qed

lemma deliver_rows_ok:
  assumes "tables_ok tb posts" "\<forall>r \<in> set rs. fits tb r" "distinct (map pd_id rs)"
  shows "tables_ok (fst (deliver_rows env clock k rs tb a b)) (posts @ run_posts env clock k rs tb)"
  using assms
proof (induction rs arbitrary: tb posts k a b)
  case (Cons r rs)
  let ?tb = "fst (deliver_one env (clock k) r tb)"
  let ?post = "(pd_id r, pd_webhook r, accepted (post_delivery env (clock k) r))"
  have ok: "tables_ok ?tb (posts @ [?post])" using Cons.prems by (intro deliver_one_ok) auto
  have "pd_id r' \<noteq> pd_id r" if "r' \<in> set rs" for r'
    using Cons.prems(3) that by (auto simp: image_iff)
  moreover have "distinct (map wh_id (ht_hooks tb))" using Cons.prems(1) by (simp add: tables_ok_def)
  ultimately have fit: "\<forall>r' \<in> set rs. fits ?tb r'" using Cons.prems(2) by (auto intro!: deliver_one_fits)
  obtain tb1 e where one: "deliver_one env (clock k) r tb = (tb1, e)" by fastforce
  then show ?case
    using ok fit Cons.IH [of tb1 "posts @ [?post]" "Suc k"] Cons.prems(3)
    by (cases e; cases "accepted (post_delivery env (clock k) r)") simp_all
qed simp

lemma due_rows_fit: "r \<in> set (due_rows now batch tb) \<Longrightarrow> fits tb r"
  by (force simp: due_rows_def fits_def pending_row_def is_due_def Let_def dest!: in_set_takeD)

lemma due_rows_distinct: "distinct (map dl_id (ht_deliveries tb)) \<Longrightarrow> distinct (map pd_id (due_rows now batch tb))"
proof -
  assume d: "distinct (map dl_id (ht_deliveries tb))"
  have eq: "map pd_id (due_rows now batch tb)
      = map dl_id (take batch (sort_key dl_created (List.filter (is_due now tb) (ht_deliveries tb))))"
    by (simp add: due_rows_def pending_row_def Let_def comp_def)
  have "distinct (map dl_id (sort_key dl_created (List.filter (is_due now tb) (ht_deliveries tb))))"
    using d by (simp add: distinct_map inj_on_def)
  then show ?thesis unfolding eq by (simp flip: take_map)
qed

definition hook_ok :: "'p hook_system \<Rightarrow> bool" where
  "hook_ok st = tables_ok (hs_tables st) (hs_posts st)"

lemma unused_outcomes:
  "unused st i \<Longrightarrow> outcomes_of i (hs_posts st) = [] \<and> hook_outcomes i (hs_posts st) = []"
  by (force simp: unused_def outcomes_of_def hook_outcomes_def filter_empty_conv)

lemma fresh_delivery: "delivery_life (queued_delivery i now event payload h) []"
  by (simp add: delivery_life_def queued_delivery_def)

lemma hook_step_ok:
  assumes "hook_step env st st'" "hook_ok st"
  shows "hook_ok st'"
  using assms(1)
proof (cases rule: hook_step.cases)
  case (Register i workspace endpoint events secret)
  then show ?thesis
    using assms(2) unused_outcomes [of st i]
    by (auto simp: hook_ok_def tables_ok_def new_webhook_def hook_life_def health_of_def unused_def)
next
  case (Remove workspace i tb)
  then show ?thesis
    using assms(2) by (auto simp: hook_ok_def tables_ok_def remove_webhook_def distinct_map_filter split: if_splits)
next
  case (Queue new_id now workspace event payload)
  let ?hs = "List.filter (subscribed workspace event) (ht_hooks (hs_tables st))"
  have "distinct (map wh_id ?hs)" using assms(2) by (simp add: hook_ok_def tables_ok_def distinct_map_filter)
  then have "distinct (map (new_id \<circ> wh_id) ?hs)"
    using Queue(2) by (metis (no_types) distinct_map inj_on_subset list.map_comp subset_UNIV)
  then have ids: "distinct (map (\<lambda>h. new_id (wh_id h)) ?hs)" by (simp add: comp_def)
  have new: "outcomes_of (new_id w) (hs_posts st) = []" "new_id w \<notin> dl_id ` set (ht_deliveries (hs_tables st))" for w
    using Queue(3) unused_outcomes [of st "new_id w"] by (simp_all add: unused_def)
  have other: "dl_id d \<noteq> new_id w" if "d \<in> set (ht_deliveries (hs_tables st))" for d w
    using new(2) that by (metis image_eqI)
  have field: "dl_id (queued_delivery i now event payload h) = i" for i h by (simp add: queued_delivery_def)
  show ?thesis
    using assms(2) ids new(1) fresh_delivery other
    unfolding Queue(1) hook_ok_def tables_ok_def enqueue_webhook_event_def Let_def
    by (auto simp: field comp_def)
next
  case (Run clock now batch tb answer)
  let ?rs = "due_rows now batch (hs_tables st)"
  have "tables_ok (fst (deliver_rows env clock 0 ?rs (hs_tables st) 0 0))
      (hs_posts st @ run_posts env clock 0 ?rs (hs_tables st))"
    using assms(2) due_rows_fit due_rows_distinct unfolding hook_ok_def
    by (intro deliver_rows_ok) (auto simp: tables_ok_def)
  then show ?thesis using Run by (simp add: hook_ok_def deliver_webhooks_def)
next
  case (Prune now)
  then show ?thesis
    using assms(2) by (auto simp: hook_ok_def tables_ok_def prune_deliveries_def Let_def distinct_map_filter)
qed

lemma hook_reach_ok: "hook_reach env st \<Longrightarrow> hook_ok st"
proof (induction rule: hook_reach.induct)
  case Start
  then show ?case by (simp add: hook_ok_def tables_ok_def)
next
  case (Step st st')
  then show ?case by (blast intro: hook_step_ok)
qed

text \<open>
  C16. A delivery's row tells what happened to it: after any sequence of registrations, events, runs and
  prunings, its attempt count is the number of posts made for it, at most five; it is delivered exactly
  when one of them was accepted, which was then the last, so a delivered event is never posted again;
  and it is given up exactly when five posts were made and none was accepted.
\<close>

theorem delivery_row_tells_posts:
  assumes "hook_reach env st" "d \<in> set (ht_deliveries (hs_tables st))"
    and "os = outcomes_of (dl_id d) (hs_posts st)"
  shows "dl_attempts d = length os \<and> length os \<le> 5
    \<and> (dl_status d = Delivered) = (True \<in> set os) \<and> True \<notin> set (butlast os)
    \<and> (dl_status d = GivenUp) = (length os = 5 \<and> True \<notin> set os)"
proof -
  have life: "delivery_life d os"
    using hook_reach_ok [OF assms(1)] assms(2,3) by (simp add: hook_ok_def tables_ok_def)
  show ?thesis
  proof (cases "dl_status d")
    case Waiting
    then obtain n where "os = replicate n False" "n < 5" "dl_attempts d = n" using life unfolding delivery_life_def by force
    then show ?thesis using Waiting by (auto dest: in_set_butlastD)
  next
    case Delivered
    then obtain n where "os = replicate n False @ [True]" "n < 5" "dl_attempts d = length os"
      using life unfolding delivery_life_def by force
    then show ?thesis using Delivered by auto
  next
    case GivenUp
    then have "os = replicate 5 False" "dl_attempts d = length os" using life unfolding delivery_life_def by simp_all
    then show ?thesis using GivenUp by (auto dest: in_set_butlastD)
  qed
qed


text \<open>A webhook whose receiver is down for the first run and back for the second.\<close>

definition flaky_env :: "unit webhook_env" where
  "flaky_env = \<lparr> we_hmac = (\<lambda>k m. m), we_stringify = (\<lambda>e q. e),
     we_range_error = ''PostgresError: smallint out of range'', we_post = (\<lambda>t url hs b. if t < 1000 then Inr 503 else Inr 204) \<rparr>"

definition one_hook :: "unit hook_system" where
  "one_hook = \<lparr> hs_tables = \<lparr> ht_hooks = [new_webhook ''h'' ''w'' ''https://r.test/'' [''link.created''] ''s''],
     ht_deliveries = [] \<rparr>, hs_posts = [] \<rparr>"

definition one_queued :: "unit hook_system" where
  "one_queued = one_hook\<lparr>hs_tables := fst (enqueue_webhook_event (\<lambda>h. ''d'' @ h) 0 ''w'' ''link.created'' () (hs_tables one_hook))\<rparr>"

definition one_failed :: "unit hook_system" where
  "one_failed = one_queued\<lparr>hs_tables := fst (deliver_webhooks flaky_env (\<lambda>k. 500) 500 50 (hs_tables one_queued)),
     hs_posts := run_posts flaky_env (\<lambda>k. 500) 0 (due_rows 500 50 (hs_tables one_queued)) (hs_tables one_queued)\<rparr>"

lemma one_failed_reach: "hook_reach flaky_env one_failed"
proof -
  let ?none = "\<lparr> hs_tables = \<lparr> ht_hooks = [], ht_deliveries = [] \<rparr>, hs_posts = [] \<rparr> :: unit hook_system"
  have "hook_step flaky_env ?none one_hook"
    using hook_step.Register [of ?none "''h''" flaky_env "''w''" "''https://r.test/''" "[''link.created'']" "''s''"]
    by (simp add: one_hook_def unused_def)
  then have "hook_reach flaky_env one_hook" by (rule hook_reach.Step [OF hook_reach.Start])
  moreover have "hook_step flaky_env one_hook one_queued"
    unfolding one_queued_def
    by (rule hook_step.Queue) (auto simp: inj_def unused_def one_hook_def new_webhook_def)
  moreover have "hook_step flaky_env one_queued one_failed"
    using hook_step.Run [of flaky_env "\<lambda>k. 500" 500 50 one_queued]
    by (simp add: one_failed_def one_queued_def one_hook_def prod_eq_iff)
  ultimately show ?thesis by (blast intro: hook_reach.Step)
qed

lemma one_failed_rows:
  "map (\<lambda>d. (dl_id d, dl_attempts d, dl_status d, dl_next_retry d)) (ht_deliveries (hs_tables one_failed))
     = [(''dh'', 1, Waiting, Some 300500)]"
  "map (\<lambda>h. (wh_id h, wh_failures h, wh_health h)) (ht_hooks (hs_tables one_failed)) = [(''h'', 1, Retrying)]"
  "hs_posts one_failed = [(''dh'', ''h'', False)]"
  by (simp_all add: one_failed_def one_queued_def one_hook_def flaky_env_def new_webhook_def queued_delivery_def
      enqueue_webhook_event_def subscribed_def deliver_webhooks_def due_rows_def is_due_def pending_row_def hook_of_def
      deliver_one_def post_delivery_def accepted_def record_failure_def out_of_range_def max_smallint_def
      update_hook_def update_delivery_def fail_delivery_def fail_hook_def retry_delay_def backoff_minutes_def
      minute_ms_def Let_def)

theorem delivery_row_tells_posts_witness:
  "\<exists>d \<in> set (ht_deliveries (hs_tables one_failed)). dl_attempts d = 1 \<and> dl_status d \<noteq> Delivered \<and> dl_status d \<noteq> GivenUp"
proof -
  obtain d where d: "d \<in> set (ht_deliveries (hs_tables one_failed))" "dl_id d = ''dh''"
    using one_failed_rows(1) by auto
  have "outcomes_of (dl_id d) (hs_posts one_failed) = [False]"
    by (simp add: d(2) one_failed_rows(3) outcomes_of_def)
  then show ?thesis using delivery_row_tells_posts [OF one_failed_reach d(1) refl] d(1) by auto
qed


section \<open>The schedule\<close>

text \<open>
  The waits between the five posts are 5, 25, 120 and 600 minutes: the table is indexed with the count
  after the failed attempt, so its first entry is never used.
\<close>

lemma retry_delays: "map retry_delay [1, 2, 3, 4] = [5, 25, 120, 600]"
  by (simp add: retry_delay_def backoff_minutes_def)

lemma first_retry_after_five_minutes:
  "dl_next_retry (fail_delivery now 1 e c d) = Some (now + 5 * minute_ms)"
proof -
  have "retry_delay 1 = 5" by (simp add: retry_delay_def backoff_minutes_def)
  then show ?thesis by (simp add: fail_delivery_def)
qed

text \<open>
  Two runs that overlap: the row locks of the select end with it, so both read the same due row before
  either has settled it. The receiver gets the event twice, both failures count against the webhook's
  health, and one against the delivery.
\<close>

lemma failure_attempts:
  assumes "d \<in> set (ht_deliveries (fst (record_failure env u r e c tb)))" "dl_id d = pd_id r"
  shows "dl_attempts d = pd_attempts r + 1"
proof -
  have "d \<in> (\<lambda>d. if dl_id d = pd_id r then fail_delivery u (pd_attempts r + 1) e c d else d) ` set (ht_deliveries tb)"
    using assms(1) by (simp add: record_failure_def)
  then obtain x where "d = (if dl_id x = pd_id r then fail_delivery u (pd_attempts r + 1) e c x else x)" by blast
  then show ?thesis using assms(2) by (cases "dl_id x = pd_id r") simp_all
qed

text \<open>A refused post ends in one or two bookings of the failure.\<close>

lemma refused_post:
  assumes "\<not> accepted (post_delivery env u r)"
  obtains e c where "deliver_one env u r tb = record_failure env u r e c tb"
  | e c e' where "deliver_one env u r tb = record_failure env u r e' None (fst (record_failure env u r e c tb))"
      "snd (record_failure env u r e c tb) \<noteq> None"
proof (cases "post_delivery env u r")
  case (Inl e)
  then show thesis by (intro that(1)) (simp add: deliver_one_def)
next
  case (Inr status)
  then have bad: "\<not> (200 \<le> status \<and> status < 300)" using assms by (simp add: accepted_def)
  let ?f = "record_failure env u r (''HTTP '' @ show_nat status) (Some status) tb"
  have one: "deliver_one env u r tb = (case ?f of (tb', None) \<Rightarrow> (tb', None)
      | (tb', Some e) \<Rightarrow> record_failure env u r (take 300 e) None tb')"
    unfolding deliver_one_def Inr sum.case if_not_P [OF bad] ..
  obtain tb' e where f: "?f = (tb', e)" by fastforce
  show thesis
  proof (cases e)
    case None
    then have "deliver_one env u r tb = ?f" using one by (simp only: f prod.case option.case)
    then show thesis by (rule that(1))
  next
    case (Some e1)
    then have "deliver_one env u r tb = record_failure env u r (take 300 e1) None (fst ?f)"
      using one by (simp only: f prod.case option.case fst_conv)
    moreover have "snd ?f \<noteq> None" using Some f by simp
    ultimately show thesis by (rule that(2))
  qed
qed

lemma failed_post:
  assumes "\<not> accepted (post_delivery env u r)" "d \<in> set (ht_deliveries (fst (deliver_one env u r tb)))" "dl_id d = pd_id r"
  shows "dl_attempts d = pd_attempts r + 1"
  using assms(1)
proof (cases rule: refused_post [where tb = tb])
  case (1 e c)
  then show ?thesis using assms(2,3) failure_attempts by metis
next
  case (2 e c e')
  then show ?thesis using assms(2,3) failure_attempts by metis
qed

lemma overlapping_runs_count_once:
  assumes "\<not> accepted (post_delivery env t r)"
    and "d \<in> set (ht_deliveries (fst (deliver_one env t r (fst (deliver_one env s r tb)))))" "dl_id d = pd_id r"
  shows "dl_attempts d = pd_attempts r + 1"
  using failed_post [OF assms] .

text \<open>
  A receiver that stays down stops everybody's deliveries: once a webhook's counter is at the maximum
  of its column, a failed post to it ends the run with an error, and no row after it is posted.
\<close>

theorem saturated_webhook_ends_run:
  assumes "out_of_range (pd_webhook r) tb" "\<not> accepted (post_delivery env (clock k) r)"
    and "distinct (map wh_id (ht_hooks tb))"
  shows "\<exists>tb'. deliver_rows env clock k (r # rs) tb sent failed = (tb', Inl (we_range_error env))
    \<and> run_posts env clock k (r # rs) tb = [(pd_id r, pd_webhook r, False)]
    \<and> (\<forall>d \<in> set (ht_deliveries tb). dl_id d \<noteq> pd_id r \<longrightarrow> d \<in> set (ht_deliveries tb'))"
proof -
  have again: "snd (record_failure env now r e c (fst (record_failure env now r e' c' tb))) = Some (we_range_error env)"
    for now e c e' c'
  proof -
    have "ht_hooks (update_hook (pd_webhook r) (fail_hook now e') tb) = ht_hooks tb"
      by (rule out_of_range_same [OF assms(1,3)])
    then show ?thesis using assms(1) by (simp add: record_failure_def out_of_range_def)
  qed
  have once: "snd (record_failure env now r e c tb) = Some (we_range_error env)" for now e c
    using assms(1) by (simp add: record_failure_def)
  have res: "snd (deliver_one env (clock k) r tb) = Some (we_range_error env)"
    using assms(2) by (cases rule: refused_post [where tb = tb]) (simp_all only: once again)
  obtain g f where gf: "fst (deliver_one env (clock k) r tb) = update_hook (pd_webhook r) f (update_delivery (pd_id r) g tb)"
    using deliver_one_books [OF assms(3), of r env "clock k"] unfolding books_def by blast
  obtain tb' where tb': "deliver_one env (clock k) r tb = (tb', Some (we_range_error env))"
    using res by (metis prod.collapse)
  have "\<forall>d \<in> set (ht_deliveries tb). dl_id d \<noteq> pd_id r \<longrightarrow> d \<in> set (ht_deliveries tb')"
    using gf tb' by (auto intro!: image_eqI)
  then show ?thesis using tb' assms(2) by simp
qed

definition dead_hook :: webhook where
  "dead_hook = (new_webhook ''h'' ''w'' ''https://r.test/'' [''link.clicked''] ''s'')\<lparr>wh_failures := 32767, wh_health := Failing\<rparr>"

theorem saturated_webhook_ends_run_witness:
  "run_posts flaky_env (\<lambda>k. 500) 0
     [pending_row \<lparr> ht_hooks = [dead_hook], ht_deliveries = [] \<rparr> (queued_delivery ''d'' 0 ''link.clicked'' () dead_hook),
      pending_row \<lparr> ht_hooks = [dead_hook], ht_deliveries = [] \<rparr> (queued_delivery ''e'' 0 ''link.clicked'' () dead_hook)]
     \<lparr> ht_hooks = [dead_hook], ht_deliveries = [] \<rparr> = [(''d'', ''h'', False)]"
proof -
  let ?tb = "\<lparr> ht_hooks = [dead_hook], ht_deliveries = [] \<rparr> :: unit hook_tables"
  let ?r = "pending_row ?tb (queued_delivery ''d'' 0 ''link.clicked'' () dead_hook)"
  have r: "pd_webhook ?r = ''h''" "pd_id ?r = ''d''"
    by (simp_all add: pending_row_def queued_delivery_def dead_hook_def new_webhook_def Let_def)
  have "out_of_range (pd_webhook ?r) ?tb" unfolding r
    by (simp add: out_of_range_def dead_hook_def new_webhook_def max_smallint_def)
  moreover have "\<not> accepted (post_delivery flaky_env 500 ?r)"
    by (simp add: accepted_def post_delivery_def flaky_env_def Let_def)
  moreover have "distinct (map wh_id (ht_hooks ?tb))" by simp
  ultimately show ?thesis
    using saturated_webhook_ends_run [of ?r ?tb flaky_env "\<lambda>k. 500" 0] unfolding r by blast
qed

section \<open>The request stays outside\<close>

lemma denied_host_lower:
  assumes "js_lower h = h" "\<not> is_denied_host h"
  shows "if CHR '':'' \<in> set h then \<not> is_denied_ipv6 h else \<not> is_denied_ipv4 h"
  using assms by (auto simp: is_denied_host_def Let_def split: if_splits)

lemma denied_ipv6_strip: "strip_brackets (strip_brackets h) = strip_brackets h \<Longrightarrow> is_denied_ipv6 (strip_brackets h) = is_denied_ipv6 h"
  by (simp add: is_denied_ipv6_def)

lemma strip_brackets_subset: "set (strip_brackets h) \<subseteq> set h"
  by (auto simp: strip_brackets_def Let_def dest: in_set_butlastD in_set_dropD split: if_splits)


text \<open>A name that answers with a public address, and then, rebound, with the metadata service.\<close>

definition rebinding_net :: "string \<Rightarrow> net" where
  "rebinding_net a = \<lparr>
     nt_parse = (\<lambda>url. Some \<lparr> pu_protocol = ''https:'', pu_username = [], pu_password = [], pu_hostname = ''hook.test'' \<rparr>),
     nt_literal = (\<lambda>h. 0), nt_dns = (\<lambda>h. Inr [(4, a)]) \<rparr>"


section \<open>The signature\<close>

text \<open>
  The signed text determines the timestamp and the body: no delivery can be passed off with another
  timestamp or another body under the signature it was sent with, unless the HMAC itself collides.
\<close>

lemma signed_material_inject: "signed_material t body = signed_material t' body' \<longleftrightarrow> t = t' \<and> body = body'"
proof
  have no_dot: "CHR ''.'' \<notin> set (show_int i)" for i
    by (rule show_int_no_sep) (simp_all add: is_digit_def cu_def)
  assume "signed_material t body = signed_material t' body'"
  then have "show_int t @ CHR ''.'' # body = show_int t' @ CHR ''.'' # body'"
    by (simp add: signed_material_def)
  then show "t = t' \<and> body = body'"
    using no_dot by (simp add: split_first_sep show_int_inject)
qed simp

end
