(* ===== verification/Lease.thy ===== *)
theory Lease
  imports Prelude
begin

text \<open>
  Running a job at most once at a time (\<open>apps/worker/src/jobs/lease.ts\<close>): the lease table, the one
  statement that takes a lease, the guarded release and \<open>withLease\<close> around a job. Several passes, in
  one process or many, are a step relation in which a pass may overrun its time or crash; each pass has
  a token of its own. Times are milliseconds.
\<close>

record lease_row =
  ls_name :: string
  ls_until :: int
  ls_holder :: "string option"
  ls_acquired :: int

text \<open>The insert with its conflict clause; \<open>True\<close> when a row is returned.\<close>

definition take_lease :: "int \<Rightarrow> string \<Rightarrow> int \<Rightarrow> string \<Rightarrow> lease_row list \<Rightarrow> lease_row list \<times> bool" where
  "take_lease now name ttl_seconds holder rows =
     (let mine = \<lparr> ls_name = name, ls_until = now + ttl_seconds * 1000, ls_holder = Some holder, ls_acquired = now \<rparr> in
      if list_ex (\<lambda>r. ls_name r = name) rows then
        (map (\<lambda>r. if ls_name r = name \<and> ls_until r < now then mine else r) rows,
         list_ex (\<lambda>r. ls_name r = name \<and> ls_until r < now) rows)
      else (rows @ [mine], True))"

definition release_lease :: "int \<Rightarrow> string \<Rightarrow> string \<Rightarrow> lease_row list \<Rightarrow> lease_row list" where
  "release_lease now name holder rows =
     map (\<lambda>r. if ls_name r = name \<and> ls_holder r = Some holder then r\<lparr>ls_until := now, ls_holder := None\<rparr> else r) rows"

record 'a lease_result =
  lr_acquired :: bool
  lr_value :: "'a option"

text \<open>
  \<open>withLease\<close>: \<open>now\<close> and \<open>done_at\<close> are the times of the two statements, \<open>released\<close> says whether the
  release reached the table, the left side is the error the job threw.
\<close>

definition with_lease :: "int \<Rightarrow> int \<Rightarrow> bool \<Rightarrow> string \<Rightarrow> string \<Rightarrow> int \<Rightarrow> ('s \<Rightarrow> ('e + 'a) \<times> 's)
    \<Rightarrow> lease_row list \<times> 's \<Rightarrow> ('e + 'a lease_result) \<times> lease_row list \<times> 's" where
  "with_lease now done_at released holder name ttl_seconds job db =
     (case db of (rows, s) \<Rightarrow>
        (case take_lease now name ttl_seconds holder rows of
           (rows', False) \<Rightarrow> (Inr \<lparr> lr_acquired = False, lr_value = None \<rparr>, rows', s)
         | (rows', True) \<Rightarrow>
             (case job s of
                (answer, s') \<Rightarrow>
                  (map_sum (\<lambda>e. e) (\<lambda>v. \<lparr> lr_acquired = True, lr_value = Some v \<rparr>) answer,
                   (if released then release_lease done_at name holder rows' else rows'), s'))))"

section \<open>One statement\<close>

lemma take_lease_names:
  "map ls_name (fst (take_lease now name ttl h rows)) =
     map ls_name rows @ (if name \<in> ls_name ` set rows then [] else [name])"
  by (induction rows) (auto simp: take_lease_def Let_def list_ex_iff)

lemma release_lease_names [simp]: "map ls_name (release_lease now name h rows) = map ls_name rows"
  by (simp add: release_lease_def)

lemma take_lease_other:
  "ls_name r \<noteq> name \<Longrightarrow> r \<in> set (fst (take_lease now name ttl h rows)) \<longleftrightarrow> r \<in> set rows"
  by (auto simp: take_lease_def Let_def)

lemma release_lease_other: "ls_name r \<noteq> name \<Longrightarrow> r \<in> set (release_lease now name h rows) \<longleftrightarrow> r \<in> set rows"
  by (auto simp: release_lease_def)

text \<open>A lease that has not lapsed is never overwritten.\<close>

lemma take_lease_keeps:
  "r \<in> set rows \<Longrightarrow> now \<le> ls_until r \<Longrightarrow> r \<in> set (fst (take_lease now name ttl h rows))"
  by (auto simp: take_lease_def Let_def intro!: image_eqI [of _ _ r])

lemma release_lease_keeps:
  "r \<in> set rows \<Longrightarrow> ls_holder r \<noteq> Some h \<Longrightarrow> r \<in> set (release_lease now name h rows)"
  by (auto simp: release_lease_def intro!: image_eqI [of _ _ r])

lemma take_lease_mine:
  assumes "snd (take_lease now name ttl h rows)"
  shows "\<lparr> ls_name = name, ls_until = now + ttl * 1000, ls_holder = Some h, ls_acquired = now \<rparr>
    \<in> set (fst (take_lease now name ttl h rows))"
  using assms by (force simp: take_lease_def Let_def list_ex_iff split: if_splits)

text \<open>A refused attempt changes nothing.\<close>

lemma take_lease_refused: "\<not> snd (take_lease now name ttl h rows) \<Longrightarrow> fst (take_lease now name ttl h rows) = rows"
  by (auto simp: take_lease_def Let_def list_ex_iff intro!: map_idI split: if_splits)

section \<open>Many passes\<close>

text \<open>A running pass: its lease's name, when it took it, and for how many seconds.\<close>

record lease_pass =
  ps_name :: string
  ps_since :: int
  ps_ttl :: int

record lease_system =
  lss_clock :: int
  lss_rows :: "lease_row list"
  lss_running :: "string \<Rightarrow> lease_pass option"
  lss_used :: "string set"

inductive lease_step :: "lease_system \<Rightarrow> lease_system \<Rightarrow> bool" where
  Tick: "lss_clock st \<le> t \<Longrightarrow> lease_step st (st\<lparr>lss_clock := t\<rparr>)"
| Begin: "token \<notin> lss_used st \<Longrightarrow> take_lease (lss_clock st) name ttl token (lss_rows st) = (rows, True) \<Longrightarrow>
    lease_step st (st\<lparr>lss_rows := rows, lss_used := insert token (lss_used st),
      lss_running := (lss_running st)(token \<mapsto> \<lparr> ps_name = name, ps_since = lss_clock st, ps_ttl = ttl \<rparr>)\<rparr>)"
| Skip: "token \<notin> lss_used st \<Longrightarrow> take_lease (lss_clock st) name ttl token (lss_rows st) = (rows, False) \<Longrightarrow>
    lease_step st (st\<lparr>lss_rows := rows, lss_used := insert token (lss_used st)\<rparr>)"
| Finish: "lss_running st token = Some q \<Longrightarrow>
    lease_step st (st\<lparr>lss_rows := release_lease (lss_clock st) (ps_name q) token (lss_rows st),
      lss_running := (lss_running st)(token := None)\<rparr>)"
| Crash: "lease_step st (st\<lparr>lss_running := (lss_running st)(token := None)\<rparr>)"

inductive_cases lease_stepE: "lease_step st st'"

inductive lease_reach :: "lease_system \<Rightarrow> bool" where
  Start: "lease_reach \<lparr> lss_clock = t, lss_rows = [], lss_running = (\<lambda>_. None), lss_used = {} \<rparr>"
| Step: "lease_reach st \<Longrightarrow> lease_step st st' \<Longrightarrow> lease_reach st'"

text \<open>A pass within its time owns the row of its name.\<close>

definition in_time :: "lease_system \<Rightarrow> lease_pass \<Rightarrow> bool" where
  "in_time st q = (lss_clock st \<le> ps_since q + ps_ttl q * 1000)"

definition owned_row :: "string \<Rightarrow> lease_pass \<Rightarrow> lease_row" where
  "owned_row token q =
     \<lparr> ls_name = ps_name q, ls_until = ps_since q + ps_ttl q * 1000, ls_holder = Some token, ls_acquired = ps_since q \<rparr>"

definition lease_ok :: "lease_system \<Rightarrow> bool" where
  "lease_ok st =
     (distinct (map ls_name (lss_rows st))
      \<and> (\<forall>token q. lss_running st token = Some q \<longrightarrow> token \<in> lss_used st
           \<and> (in_time st q \<longrightarrow> owned_row token q \<in> set (lss_rows st))))"

lemma lease_okD:
  "lease_ok st \<Longrightarrow> lss_running st token = Some q \<Longrightarrow> in_time st q \<Longrightarrow> owned_row token q \<in> set (lss_rows st)"
  "lease_ok st \<Longrightarrow> lss_running st token = Some q \<Longrightarrow> token \<in> lss_used st"
  "lease_ok st \<Longrightarrow> distinct (map ls_name (lss_rows st))"
  by (auto simp: lease_ok_def)

lemma owned_row_simps [simp]:
  "ls_name (owned_row token q) = ps_name q" "ls_holder (owned_row token q) = Some token"
  "ls_until (owned_row token q) = ps_since q + ps_ttl q * 1000"
  by (simp_all add: owned_row_def)

lemma lease_step_ok:
  assumes "lease_step st st'" "lease_ok st"
  shows "lease_ok st'"
  using assms(1)
proof (cases rule: lease_step.cases)
  case (Tick t)
  then show ?thesis using assms(2) by (auto simp: lease_ok_def in_time_def)
next
  case (Begin token name ttl rows)
  have rows: "rows = fst (take_lease (lss_clock st) name ttl token (lss_rows st))"
    "snd (take_lease (lss_clock st) name ttl token (lss_rows st))" using Begin(3) by simp_all
  let ?mine = "\<lparr> ps_name = name, ps_since = lss_clock st, ps_ttl = ttl \<rparr>"
  have d: "distinct (map ls_name rows)"
    unfolding rows(1) take_lease_names using lease_okD(3) [OF assms(2)] by auto
  have mine: "owned_row token ?mine \<in> set rows"
    using take_lease_mine [OF rows(2)] rows(1) by (simp add: owned_row_def)
  have old: "owned_row t q \<in> set rows" if "lss_running st t = Some q" "in_time st q" for t q
    using take_lease_keeps [of "owned_row t q" "lss_rows st" "lss_clock st"] lease_okD(1) [OF assms(2) that] that(2) rows(1)
    by (simp add: in_time_def)
  show ?thesis
    unfolding lease_ok_def Begin(1)
    using d mine old lease_okD(2) [OF assms(2)] by (auto simp: in_time_def)
next
  case (Skip token name ttl rows)
  then have "rows = lss_rows st" using take_lease_refused by (metis fst_conv snd_conv)
  then show ?thesis using assms(2) Skip(1) by (auto simp: lease_ok_def in_time_def)
next
  case (Finish token q)
  have "owned_row t p \<in> set (release_lease (lss_clock st) (ps_name q) token (lss_rows st))"
    if "lss_running st t = Some p" "in_time st p" "t \<noteq> token" for t p
    using release_lease_keeps [OF lease_okD(1) [OF assms(2) that(1,2)]] that(3) by simp
  then show ?thesis
    using assms(2) Finish(1) by (auto simp: lease_ok_def in_time_def split: if_splits)
next
  case (Crash token)
  then show ?thesis using assms(2) by (auto simp: lease_ok_def in_time_def split: if_splits)
qed

lemma lease_reach_ok: "lease_reach st \<Longrightarrow> lease_ok st"
proof (induction rule: lease_reach.induct)
  case (Start t)
  then show ?case by (simp add: lease_ok_def)
next
  case (Step st st')
  then show ?case by (blast intro: lease_step_ok)
qed

text \<open>
  C18. At most one pass of a job runs at a time: of the passes running under a lease of the same name,
  whatever was begun, skipped, finished late or crashed before, at most one is within the time it asked
  for, and the table holds its lease; a pass that overruns and then releases cannot hand away the lease
  somebody else has taken since.
\<close>

theorem lease_exclusive:
  assumes "lease_reach st"
    and "lss_running st a = Some p" "lss_running st b = Some q" "ps_name p = ps_name q"
    and "lss_clock st \<le> ps_since p + ps_ttl p * 1000" "lss_clock st \<le> ps_since q + ps_ttl q * 1000"
  shows "a = b \<and> (\<exists>r \<in> set (lss_rows st). ls_name r = ps_name p \<and> ls_holder r = Some a
    \<and> ls_until r = ps_since p + ps_ttl p * 1000)"
proof -
  have ok: "lease_ok st" by (rule lease_reach_ok [OF assms(1)])
  have rows: "owned_row a p \<in> set (lss_rows st)" "owned_row b q \<in> set (lss_rows st)"
    using lease_okD(1) [OF ok] assms(2,3,5,6) by (simp_all add: in_time_def)
  then have "owned_row a p = owned_row b q"
    using lease_okD(3) [OF ok] assms(4) by (metis distinct_map inj_onD owned_row_simps(1))
  then have "a = b" by (metis option.inject owned_row_simps(2))
  then show ?thesis using rows(1) by (auto intro!: bexI [of _ "owned_row a p"])
qed

text \<open>
  Two passes of a job: the first overruns its second, the second takes the lapsed lease, and the first
  then finishes.
\<close>

definition overrun :: lease_system where
  "overrun = \<lparr> lss_clock = 1500, lss_rows = [\<lparr> ls_name = ''rollup'', ls_until = 2500, ls_holder = Some ''b'', ls_acquired = 1500 \<rparr>],
     lss_running = [''b'' \<mapsto> \<lparr> ps_name = ''rollup'', ps_since = 1500, ps_ttl = 1 \<rparr>], lss_used = {''a'', ''b''} \<rparr>"

lemma overrun_reach: "lease_reach overrun"
proof -
  let ?s0 = "\<lparr> lss_clock = 0, lss_rows = [], lss_running = (\<lambda>_. None), lss_used = {} \<rparr>"
  let ?p = "\<lparr> ps_name = ''rollup'', ps_since = 0, ps_ttl = 1 \<rparr>"
  let ?q = "\<lparr> ps_name = ''rollup'', ps_since = 1500, ps_ttl = 1 \<rparr>"
  let ?r1 = "[\<lparr> ls_name = ''rollup'', ls_until = 1000, ls_holder = Some ''a'', ls_acquired = 0 \<rparr>]"
  let ?r2 = "[\<lparr> ls_name = ''rollup'', ls_until = 2500, ls_holder = Some ''b'', ls_acquired = 1500 \<rparr>]"
  let ?s1 = "\<lparr> lss_clock = 0, lss_rows = ?r1, lss_running = [''a'' \<mapsto> ?p], lss_used = {''a''} \<rparr>"
  let ?s2 = "?s1\<lparr>lss_clock := 1500\<rparr>"
  let ?s3 = "\<lparr> lss_clock = 1500, lss_rows = ?r2, lss_running = [''a'' \<mapsto> ?p, ''b'' \<mapsto> ?q], lss_used = {''b'', ''a''} \<rparr>"
  have a: "lease_step ?s0 ?s1"
    using lease_step.Begin [of "''a''" ?s0 "''rollup''" 1 ?r1] by (simp add: take_lease_def)
  have b: "lease_step ?s1 ?s2" by (rule lease_step.Tick) simp
  have c: "lease_step ?s2 ?s3"
    using lease_step.Begin [of "''b''" ?s2 "''rollup''" 1 ?r2] by (simp add: take_lease_def)
  have d: "lease_step ?s3 overrun"
  proof -
    have "lease_step ?s3 (?s3\<lparr>lss_rows := release_lease 1500 (ps_name ?p) ''a'' ?r2, lss_running := (lss_running ?s3)(''a'' := None)\<rparr>)"
      using lease_step.Finish [of ?s3 "''a''" ?p] by simp
    moreover have "([''a'' \<mapsto> ?p, ''b'' \<mapsto> ?q])(''a'' := None) = [''b'' \<mapsto> ?q]" by (rule ext) simp
    moreover have "{''b'', ''a''} = {''a'', ''b''}" by blast
    ultimately show ?thesis by (simp add: overrun_def release_lease_def del: fun_upd_apply)
  qed
  show ?thesis
    by (rule lease_reach.Step [OF lease_reach.Step [OF lease_reach.Step [OF lease_reach.Step [OF lease_reach.Start a] b] c] d])
qed

theorem lease_exclusive_witness:
  "\<exists>r \<in> set (lss_rows overrun). ls_name r = ''rollup'' \<and> ls_holder r = Some ''b'' \<and> ls_until r = 2500"
  using lease_exclusive [OF overrun_reach, of "''b''" "\<lparr> ps_name = ''rollup'', ps_since = 1500, ps_ttl = 1 \<rparr>" "''b''"
      "\<lparr> ps_name = ''rollup'', ps_since = 1500, ps_ttl = 1 \<rparr>"]
  by (simp add: overrun_def)

text \<open>The job runs exactly when the lease was free, and a refused call touches neither table nor state.\<close>

lemma with_lease_runs:
  "fst (with_lease now t rel h name ttl job (rows, s)) = Inr \<lparr> lr_acquired = False, lr_value = None \<rparr>
     \<and> snd (with_lease now t rel h name ttl job (rows, s)) = (rows, s)"
  if "r \<in> set rows" "ls_name r = name" "now \<le> ls_until r" "distinct (map ls_name rows)"
proof -
  have "\<not> snd (take_lease now name ttl h rows)"
    using that by (auto simp: take_lease_def Let_def list_ex_iff distinct_map inj_on_def)
  then obtain rows' where "take_lease now name ttl h rows = (rows', False)" by (metis prod.collapse)
  moreover from this have "rows' = rows" using take_lease_refused by (metis fst_conv snd_conv)
  ultimately show ?thesis by (simp add: with_lease_def)
qed

end
