(* ===== verification/Kill_Switches.thy ===== *)
theory Kill_Switches
  imports Complex_Main Prelude
begin

text \<open>
  The kill switches: the typed set, its stored form and its folds
  (\<open>packages/contract/src/kill-switches.ts\<close>), how the API loads and caches it
  (\<open>apps/api/src/admin/platform-settings.service.ts\<close>) and the worker reads it
  (\<open>apps/worker/src/main.ts\<close>), the enforcement
  (\<open>apps/api/src/admin/kill-switch.service.ts\<close>), the refusal ledger
  (\<open>packages/database/src/events.ts\<close>) and the ledger of sent mail
  (\<open>packages/database/src/kill-switches.ts\<close>, \<open>apps/api/src/mail/mail.service.ts\<close>). A failing query is
  the left side of a sum or a flag. Times are milliseconds.
\<close>

section \<open>The set\<close>

datatype switch_key = BillingCheckout | BillingPlanChanges | BillingCoupons | BillingTrials | BillingRefunds
  | CustomDomainsCreate | EmailOutbound | ErrorTracking | LinkScanningRescans

definition kill_switch_keys :: "switch_key list" where
  "kill_switch_keys = [BillingCheckout, BillingPlanChanges, BillingCoupons, BillingTrials, BillingRefunds,
     CustomDomainsCreate, EmailOutbound, ErrorTracking, LinkScanningRescans]"

definition paid_kill_switch_keys :: "switch_key list" where
  "paid_kill_switch_keys = [BillingCheckout, BillingPlanChanges, BillingCoupons, BillingTrials, BillingRefunds,
     CustomDomainsCreate]"

text \<open>The closed union is a finite type, so that a statement about every switch computes.\<close>

instantiation switch_key :: enum
begin

definition enum_switch_key :: "switch_key list" where
  "enum_switch_key = kill_switch_keys"

definition enum_all_switch_key :: "(switch_key \<Rightarrow> bool) \<Rightarrow> bool" where
  "enum_all_switch_key P = list_all P kill_switch_keys"

definition enum_ex_switch_key :: "(switch_key \<Rightarrow> bool) \<Rightarrow> bool" where
  "enum_ex_switch_key P = list_ex P kill_switch_keys"

instance
proof
  have all_keys: "set kill_switch_keys = (UNIV :: switch_key set)"
    using switch_key.exhaust by (auto simp: kill_switch_keys_def)
  show "(UNIV :: switch_key set) = set enum_class.enum"
    by (simp add: enum_switch_key_def all_keys)
  show "distinct (enum_class.enum :: switch_key list)"
    by (simp add: enum_switch_key_def kill_switch_keys_def)
  show "enum_class.enum_all P \<longleftrightarrow> Ball (UNIV :: switch_key set) P" for P
    by (simp add: enum_all_switch_key_def list_all_iff all_keys)
  show "enum_class.enum_ex P \<longleftrightarrow> Bex (UNIV :: switch_key set) P" for P
    by (simp add: enum_ex_switch_key_def list_ex_iff all_keys)
qed

end

lemma kill_switch_keys_UNIV [simp]: "set kill_switch_keys = UNIV"
  using switch_key.exhaust by (auto simp: kill_switch_keys_def)

fun key_name :: "switch_key \<Rightarrow> string" where
  "key_name BillingCheckout = ''billing.checkout''"
| "key_name BillingPlanChanges = ''billing.planChanges''"
| "key_name BillingCoupons = ''billing.coupons''"
| "key_name BillingTrials = ''billing.trials''"
| "key_name BillingRefunds = ''billing.refunds''"
| "key_name CustomDomainsCreate = ''customDomains.create''"
| "key_name EmailOutbound = ''email.outbound''"
| "key_name ErrorTracking = ''errorTracking''"
| "key_name LinkScanningRescans = ''linkScanning.rescans''"

record domains_caps =
  cap_total_max :: int
  cap_domains_per_day :: int

record email_caps =
  cap_per_hour :: int
  cap_emails_per_day :: int

record switch_state =
  sw_on :: bool
  sw_domain_caps :: "domains_caps option"
  sw_email_caps :: "email_caps option"
  sw_error_caps :: "rat option"

type_synonym kill_switches = "switch_key \<Rightarrow> switch_state"

definition plain_state :: "bool \<Rightarrow> switch_state" where
  "plain_state on = \<lparr> sw_on = on, sw_domain_caps = None, sw_email_caps = None, sw_error_caps = None \<rparr>"

definition default_domains_caps :: domains_caps where
  "default_domains_caps = \<lparr> cap_total_max = 25, cap_domains_per_day = 5 \<rparr>"

definition default_email_caps :: email_caps where
  "default_email_caps = \<lparr> cap_per_hour = 200, cap_emails_per_day = 2000 \<rparr>"

fun default_kill_switches :: kill_switches where
  "default_kill_switches CustomDomainsCreate = (plain_state False)\<lparr>sw_domain_caps := Some default_domains_caps\<rparr>"
| "default_kill_switches EmailOutbound = (plain_state True)\<lparr>sw_email_caps := Some default_email_caps\<rparr>"
| "default_kill_switches ErrorTracking = (plain_state True)\<lparr>sw_error_caps := Some 1\<rparr>"
| "default_kill_switches LinkScanningRescans = plain_state True"
| "default_kill_switches k = plain_state False"

section \<open>The stored form\<close>

datatype json = JNull | JBool bool | JNum rat | JStr string | JArr "json list" | JObj "(string \<times> json) list"

text \<open>A property of a value; \<open>None\<close> is \<open>undefined\<close>.\<close>

fun json_field :: "string \<Rightarrow> json \<Rightarrow> json option" where
  "json_field k (JObj props) = map_of props k"
| "json_field k j = None"

text \<open>
  The schemas: \<open>Some\<close> the parsed value, \<open>None\<close> a failure. An optional field may be absent, but not null.
\<close>

definition max_cap :: int where
  "max_cap = 10000000"

fun parse_cap :: "json option \<Rightarrow> int option" where
  "parse_cap (Some (JNum q)) = (if of_int \<lfloor>q\<rfloor> = q \<and> 0 \<le> q \<and> q \<le> of_int max_cap then Some \<lfloor>q\<rfloor> else None)"
| "parse_cap j = None"

definition parse_domains_caps :: "json \<Rightarrow> domains_caps option" where
  "parse_domains_caps j =
     (case (parse_cap (json_field ''totalMax'' j), parse_cap (json_field ''perDay'' j)) of
        (Some t, Some d) \<Rightarrow> Some \<lparr> cap_total_max = t, cap_domains_per_day = d \<rparr>
      | _ \<Rightarrow> None)"

definition parse_email_caps :: "json \<Rightarrow> email_caps option" where
  "parse_email_caps j =
     (case (parse_cap (json_field ''perHour'' j), parse_cap (json_field ''perDay'' j)) of
        (Some h, Some d) \<Rightarrow> Some \<lparr> cap_per_hour = h, cap_emails_per_day = d \<rparr>
      | _ \<Rightarrow> None)"

definition parse_error_caps :: "json \<Rightarrow> rat option" where
  "parse_error_caps j =
     (case json_field ''sampleRate'' j of Some (JNum q) \<Rightarrow> if 0 \<le> q \<and> q \<le> 1 then Some q else None | _ \<Rightarrow> None)"

definition optional :: "(json \<Rightarrow> 'a option) \<Rightarrow> json option \<Rightarrow> 'a option option" where
  "optional parse j = (case j of None \<Rightarrow> Some None | Some v \<Rightarrow> map_option Some (parse v))"

definition parse_state :: "json option \<Rightarrow> switch_state option" where
  "parse_state j =
     (case j of
        Some (JObj props) \<Rightarrow>
          (case (json_field ''on'' (JObj props), optional parse_domains_caps (json_field ''domainCaps'' (JObj props)),
                 optional parse_email_caps (json_field ''emailCaps'' (JObj props)),
                 optional parse_error_caps (json_field ''errorCaps'' (JObj props))) of
             (Some (JBool on), Some d, Some e, Some r) \<Rightarrow>
               Some \<lparr> sw_on = on, sw_domain_caps = d, sw_email_caps = e, sw_error_caps = r \<rparr>
           | _ \<Rightarrow> None)
      | _ \<Rightarrow> None)"

text \<open>\<open>KillSwitchesSetting\<close>: an object in which every key parses.\<close>

definition parse_setting :: "json \<Rightarrow> kill_switches option" where
  "parse_setting j =
     (if list_all (\<lambda>k. parse_state (json_field (key_name k) j) \<noteq> None) kill_switch_keys
      then Some (\<lambda>k. the (parse_state (json_field (key_name k) j))) else None)"

text \<open>What is written: the JSON of a set, an absent cap left out.\<close>

definition state_json :: "switch_state \<Rightarrow> json" where
  "state_json s = JObj
     ((''on'', JBool (sw_on s))
      # (case sw_domain_caps s of None \<Rightarrow> []
         | Some c \<Rightarrow> [(''domainCaps'', JObj [(''totalMax'', JNum (of_int (cap_total_max c))),
                                            (''perDay'', JNum (of_int (cap_domains_per_day c)))])])
      @ (case sw_email_caps s of None \<Rightarrow> []
         | Some c \<Rightarrow> [(''emailCaps'', JObj [(''perHour'', JNum (of_int (cap_per_hour c))),
                                           (''perDay'', JNum (of_int (cap_emails_per_day c)))])])
      @ (case sw_error_caps s of None \<Rightarrow> [] | Some q \<Rightarrow> [(''errorCaps'', JObj [(''sampleRate'', JNum q)])]))"

definition setting_json :: "kill_switches \<Rightarrow> json" where
  "setting_json s = JObj (map (\<lambda>k. (key_name k, state_json (s k))) kill_switch_keys)"

section \<open>Folds\<close>

record switch_patch =
  sp_on :: "bool option"
  sp_domain_caps :: "domains_caps option"
  sp_email_caps :: "email_caps option"
  sp_error_caps :: "rat option"

definition apply_patch :: "switch_patch \<Rightarrow> switch_state \<Rightarrow> switch_state" where
  "apply_patch q s =
     (let s1 = (case sp_on q of None \<Rightarrow> s | Some b \<Rightarrow> s\<lparr>sw_on := b\<rparr>);
          s2 = (case sp_domain_caps q of None \<Rightarrow> s1 | Some c \<Rightarrow> s1\<lparr>sw_domain_caps := Some c\<rparr>);
          s3 = (case sp_email_caps q of None \<Rightarrow> s2 | Some c \<Rightarrow> s2\<lparr>sw_email_caps := Some c\<rparr>)
      in (case sp_error_caps q of None \<Rightarrow> s3 | Some c \<Rightarrow> s3\<lparr>sw_error_caps := Some c\<rparr>))"

definition fold_kill_switch_changes :: "kill_switches \<Rightarrow> (switch_key \<Rightarrow> switch_patch option) \<Rightarrow> kill_switches" where
  "fold_kill_switch_changes current changes =
     fold (\<lambda>k next. case changes k of None \<Rightarrow> next | Some q \<Rightarrow> next(k := apply_patch q (next k))) kill_switch_keys current"

definition fold_kill_switches :: "json \<Rightarrow> kill_switches" where
  "fold_kill_switches stored =
     fold (\<lambda>k base. case parse_state (json_field (key_name k) stored) of None \<Rightarrow> base | Some s \<Rightarrow> base(k := s))
       kill_switch_keys default_kill_switches"

definition fail_closed_kill_switches :: kill_switches where
  "fail_closed_kill_switches =
     fold (\<lambda>k safe. safe(k := (safe k)\<lparr>sw_on := False\<rparr>)) paid_kill_switch_keys default_kill_switches"

section \<open>Loading\<close>

text \<open>The API's load: the stored row replaces the defaults when the whole of it parses.\<close>

definition api_load :: "string + json option \<Rightarrow> string + kill_switches" where
  "api_load stored =
     (case stored of
        Inl e \<Rightarrow> Inl e
      | Inr None \<Rightarrow> Inr default_kill_switches
      | Inr (Some j) \<Rightarrow> Inr (case parse_setting j of None \<Rightarrow> default_kill_switches | Some s \<Rightarrow> s))"

definition settings_cache_ttl_ms :: int where
  "settings_cache_ttl_ms = 60000"

record settings_cache =
  sc_values :: kill_switches
  sc_loaded :: int

definition settings_snapshot :: "int \<Rightarrow> string + json option \<Rightarrow> settings_cache option
    \<Rightarrow> (string + kill_switches) \<times> settings_cache option" where
  "settings_snapshot now stored cache =
     (let reload = (case api_load stored of Inl e \<Rightarrow> (Inl e, cache)
                    | Inr s \<Rightarrow> (Inr s, Some \<lparr> sc_values = s, sc_loaded = now \<rparr>))
      in case cache of
           None \<Rightarrow> reload
         | Some c \<Rightarrow> if now - sc_loaded c < settings_cache_ttl_ms then (Inr (sc_values c), cache) else reload)"

text \<open>The service's read, which fails closed, and the worker's.\<close>

definition current_switches :: "int \<Rightarrow> string + json option \<Rightarrow> settings_cache option
    \<Rightarrow> kill_switches \<times> settings_cache option" where
  "current_switches now stored cache =
     (case settings_snapshot now stored cache of
        (Inl e, cache') \<Rightarrow> (fail_closed_kill_switches, cache')
      | (Inr s, cache') \<Rightarrow> (s, cache'))"

definition worker_switches :: "string + json option \<Rightarrow> kill_switches" where
  "worker_switches stored =
     (case stored of Inl e \<Rightarrow> fail_closed_kill_switches | Inr None \<Rightarrow> fold_kill_switches JNull | Inr (Some j) \<Rightarrow> fold_kill_switches j)"

section \<open>What the folds give\<close>

lemmas key_list_simps = kill_switch_keys_def paid_kill_switch_keys_def

lemma fold_changes_at:
  "fold_kill_switch_changes current changes k =
     (case changes k of None \<Rightarrow> current k | Some q \<Rightarrow> apply_patch q (current k))"
proof -
  have gen: "fold (\<lambda>k st. case changes k of None \<Rightarrow> st | Some q \<Rightarrow> st(k := apply_patch q (st k))) ks st k =
      (if k \<in> set ks then case changes k of None \<Rightarrow> st k | Some q \<Rightarrow> apply_patch q (st k) else st k)"
    if "distinct ks" for ks st
    using that
    by (induction ks arbitrary: st) (auto split: option.split)
  have "distinct kill_switch_keys" by (simp add: kill_switch_keys_def)
  from gen [OF this] show ?thesis by (simp add: fold_kill_switch_changes_def)
qed

lemma fold_kill_switches_at:
  "fold_kill_switches j k =
     (case parse_state (json_field (key_name k) j) of None \<Rightarrow> default_kill_switches k | Some s \<Rightarrow> s)"
proof -
  let ?g = "\<lambda>k. parse_state (json_field (key_name k) j)"
  have gen: "fold (\<lambda>k base. case ?g k of None \<Rightarrow> base | Some s \<Rightarrow> base(k := s)) ks st k =
      (if k \<in> set ks then case ?g k of None \<Rightarrow> st k | Some s \<Rightarrow> s else st k)" for ks and st :: kill_switches
    by (induction ks arbitrary: st) (auto split: option.split)
  from gen [of kill_switch_keys] show ?thesis by (simp add: fold_kill_switches_def)
qed

lemma fail_closed_at:
  "fail_closed_kill_switches k =
     (if k \<in> set paid_kill_switch_keys then (default_kill_switches k)\<lparr>sw_on := False\<rparr> else default_kill_switches k)"
  by (cases k) (simp_all add: fail_closed_kill_switches_def paid_kill_switch_keys_def)

definition valid_cap :: "int \<Rightarrow> bool" where
  "valid_cap n = (0 \<le> n \<and> n \<le> max_cap)"

definition valid_state :: "switch_state \<Rightarrow> bool" where
  "valid_state s =
     ((\<forall>c \<in> set_option (sw_domain_caps s). valid_cap (cap_total_max c) \<and> valid_cap (cap_domains_per_day c))
      \<and> (\<forall>c \<in> set_option (sw_email_caps s). valid_cap (cap_per_hour c) \<and> valid_cap (cap_emails_per_day c))
      \<and> (\<forall>q \<in> set_option (sw_error_caps s). 0 \<le> q \<and> q \<le> 1))"

lemma parse_cap_show: "valid_cap n \<Longrightarrow> parse_cap (Some (JNum (of_int n))) = Some n"
  by (simp add: valid_cap_def)

lemma parse_state_show:
  assumes "valid_state s"
  shows "parse_state (Some (state_json s)) = Some s"
proof -
  obtain on d e r where s: "s = \<lparr> sw_on = on, sw_domain_caps = d, sw_email_caps = e, sw_error_caps = r \<rparr>" by (cases s)
  show ?thesis
    using assms unfolding s
    by (cases d; cases e; cases r)
       (auto simp: valid_state_def state_json_def parse_state_def optional_def parse_domains_caps_def parse_email_caps_def
          parse_error_caps_def parse_cap_show simp del: parse_cap.simps)
qed

lemma setting_json_field: "json_field (key_name k) (setting_json s) = Some (state_json (s k))"
  by (cases k) (simp_all add: setting_json_def kill_switch_keys_def)

lemma parse_cap_valid: "parse_cap j = Some n \<Longrightarrow> valid_cap n"
  by (induction j rule: parse_cap.induct) (auto simp: valid_cap_def le_floor_iff floor_le_iff split: if_splits)

lemma optional_SomeD: "optional f j = Some (Some v) \<Longrightarrow> \<exists>x. j = Some x \<and> f x = Some v"
  by (auto simp: optional_def split: option.splits)

lemma caps_valid:
  "parse_domains_caps j = Some c \<Longrightarrow> valid_cap (cap_total_max c) \<and> valid_cap (cap_domains_per_day c)"
  "parse_email_caps j = Some m \<Longrightarrow> valid_cap (cap_per_hour m) \<and> valid_cap (cap_emails_per_day m)"
  "parse_error_caps j = Some q \<Longrightarrow> 0 \<le> q \<and> q \<le> 1"
  by (auto simp: parse_domains_caps_def parse_email_caps_def parse_error_caps_def
      dest: parse_cap_valid split: option.splits json.splits if_splits)

lemma parse_state_valid: "parse_state j = Some s \<Longrightarrow> valid_state s"
  by (auto simp: parse_state_def valid_state_def dest!: optional_SomeD dest: caps_valid
      split: option.splits json.splits)

lemma default_valid: "valid_state (default_kill_switches k)"
  by (cases k) (simp_all add: valid_state_def plain_state_def default_domains_caps_def default_email_caps_def
      valid_cap_def max_cap_def)

text \<open>
  C21. What an operator saves is what every process reads back: the stored form of a valid set, loaded by
  the API or folded by the worker, is that set, switch by switch and cap by cap.
\<close>

theorem stored_switches_roundtrip:
  assumes "\<And>k. valid_state (s k)"
  shows "api_load (Inr (Some (setting_json s))) = Inr s \<and> worker_switches (Inr (Some (setting_json s))) = s"
proof -
  have field: "parse_state (json_field (key_name k) (setting_json s)) = Some (s k)" for k
    by (simp add: setting_json_field parse_state_show assms)
  have "parse_setting (setting_json s) = Some s"
    by (simp add: parse_setting_def field list_all_iff)
  moreover have "fold_kill_switches (setting_json s) = s"
    by (rule ext) (simp add: fold_kill_switches_at field)
  ultimately show ?thesis by (simp add: api_load_def worker_switches_def)
qed

definition mail_paused :: kill_switches where
  "mail_paused = default_kill_switches(EmailOutbound := (default_kill_switches EmailOutbound)\<lparr>sw_on := False\<rparr>)"

lemma mail_paused_valid: "valid_state (mail_paused k)"
  using default_valid [of k] by (simp add: mail_paused_def valid_state_def)

theorem stored_switches_roundtrip_witness:
  "worker_switches (Inr (Some (setting_json mail_paused))) EmailOutbound = mail_paused EmailOutbound"
  using stored_switches_roundtrip [OF mail_paused_valid] by simp

text \<open>
  A row in which one switch does not parse, a row from before the switch existed for instance: the worker
  replaces that switch by its default, the API all of them. A switch the operator turned off is off in
  the worker and on in the API.
\<close>

lemma partial_row_disagreement:
  assumes "parse_state (json_field (key_name k) j) = Some s" "parse_state (json_field (key_name k') j) = None"
  shows "worker_switches (Inr (Some j)) k = s \<and> api_load (Inr (Some j)) = Inr default_kill_switches"
proof -
  have "parse_setting j = None"
    using assms(2) by (auto simp: parse_setting_def list_all_iff)
  then show ?thesis by (simp add: api_load_def worker_switches_def fold_kill_switches_at assms(1))
qed

definition older_row :: json where
  "older_row = (case setting_json mail_paused of JObj ps \<Rightarrow> JObj (butlast ps) | j \<Rightarrow> j)"

text \<open>
  A pause can be lost: with the row written before the last switch was added, outbound mail that the
  operator switched off is off for the worker and on for the API, which sends it.
\<close>

theorem older_row_loses_pause:
  "\<not> sw_on (worker_switches (Inr (Some older_row)) EmailOutbound)
   \<and> (\<exists>s. api_load (Inr (Some older_row)) = Inr s \<and> sw_on (s EmailOutbound))"
proof -
  have fields: "json_field (key_name EmailOutbound) older_row = Some (state_json (mail_paused EmailOutbound))"
    "json_field (key_name LinkScanningRescans) older_row = None"
    by (simp_all add: older_row_def setting_json_def kill_switch_keys_def)
  have "parse_state (json_field (key_name EmailOutbound) older_row) = Some (mail_paused EmailOutbound)"
    "parse_state (json_field (key_name LinkScanningRescans) older_row) = None"
    using fields by (simp_all add: parse_state_show mail_paused_valid) (simp add: parse_state_def)
  from partial_row_disagreement [OF this] show ?thesis by (simp add: mail_paused_def plain_state_def)
qed

text \<open>
  A change moves what it names and nothing else: of each switch, the fields the change states take the
  stated values and the others keep theirs, a switch it does not mention is untouched, and a valid set
  stays valid.
\<close>

theorem changes_touch_only_named:
  assumes "\<And>k. valid_state (current k)"
    and "\<And>k q. changes k = Some q \<Longrightarrow> valid_state \<lparr> sw_on = False, sw_domain_caps = sp_domain_caps q,
           sw_email_caps = sp_email_caps q, sw_error_caps = sp_error_caps q \<rparr>"
    and "after = fold_kill_switch_changes current changes"
  shows "valid_state (after k) \<and> (changes k = None \<longrightarrow> after k = current k)
    \<and> (\<forall>q. changes k = Some q \<longrightarrow>
         sw_on (after k) = or_else (sp_on q) (sw_on (current k))
         \<and> sw_domain_caps (after k) = (case sp_domain_caps q of None \<Rightarrow> sw_domain_caps (current k) | c \<Rightarrow> c)
         \<and> sw_email_caps (after k) = (case sp_email_caps q of None \<Rightarrow> sw_email_caps (current k) | c \<Rightarrow> c)
         \<and> sw_error_caps (after k) = (case sp_error_caps q of None \<Rightarrow> sw_error_caps (current k) | c \<Rightarrow> c))"
proof (cases "changes k")
  case None
  then show ?thesis using assms(1) by (simp add: assms(3) fold_changes_at)
next
  case (Some q)
  have after: "after k = apply_patch q (current k)" using Some by (simp add: assms(3) fold_changes_at)
  have parts: "sw_on (apply_patch q s) = or_else (sp_on q) (sw_on s)"
    "sw_domain_caps (apply_patch q s) = (case sp_domain_caps q of None \<Rightarrow> sw_domain_caps s | c \<Rightarrow> c)"
    "sw_email_caps (apply_patch q s) = (case sp_email_caps q of None \<Rightarrow> sw_email_caps s | c \<Rightarrow> c)"
    "sw_error_caps (apply_patch q s) = (case sp_error_caps q of None \<Rightarrow> sw_error_caps s | c \<Rightarrow> c)" for s
    by (auto simp: apply_patch_def Let_def split: option.split)
  have "valid_state (apply_patch q (current k))"
    using assms(1) [of k] assms(2) [OF Some] unfolding valid_state_def parts
    by (auto split: option.split)
  then show ?thesis using Some by (simp add: after parts)
qed

section \<open>The refusal ledger\<close>

datatype refusal_reason = FeatureOff | CapReached

fun reason_name :: "refusal_reason \<Rightarrow> string" where
  "reason_name FeatureOff = ''feature_off''"
| "reason_name CapReached = ''cap_reached''"

record refusal_subject =
  rs_actor :: "string option"
  rs_label :: "string option"
  rs_workspace :: "string option"

definition no_subject :: refusal_subject where
  "no_subject = \<lparr> rs_actor = None, rs_label = None, rs_workspace = None \<rparr>"

definition refusal_window_ms :: int where
  "refusal_window_ms = 60000"

definition refusal_window_start :: "int \<Rightarrow> int" where
  "refusal_window_start now = now div refusal_window_ms * refusal_window_ms"

definition subject_id :: "refusal_subject \<Rightarrow> string" where
  "subject_id s = (case rs_workspace s of Some w \<Rightarrow> w | None \<Rightarrow> or_else (rs_actor s) ''anon'')"

definition refusal_dedupe_key :: "switch_key \<Rightarrow> refusal_reason \<Rightarrow> refusal_subject \<Rightarrow> int \<Rightarrow> string" where
  "refusal_dedupe_key k r s now =
     key_name k @ ''|'' @ reason_name r @ ''|'' @ subject_id s @ ''|'' @ show_int (refusal_window_start now)"

record refusal_entry =
  re_dedupe :: string
  re_switch :: string
  re_reason :: string
  re_actor :: "string option"
  re_label :: "string option"
  re_workspace :: "string option"

record refusal_window =
  rw_dedupe :: string
  rw_switch :: string
  rw_reason :: string
  rw_workspace :: "string option"
  rw_actor :: "string option"
  rw_count :: nat
  rw_first :: int
  rw_last :: int

record admin_audit =
  aa_actor :: "string option"
  aa_label :: string
  aa_action :: string
  aa_target_type :: "string option"
  aa_target :: "string option"
  aa_reason :: string
  aa_workspace :: "string option"

record refusal_db =
  rd_windows :: "refusal_window list"
  rd_audits :: "admin_audit list"

definition write_admin_audit_entry :: "admin_audit \<Rightarrow> refusal_db \<Rightarrow> refusal_db" where
  "write_admin_audit_entry a db = db\<lparr>rd_audits := rd_audits db @ [a]\<rparr>"

text \<open>The upsert of the window row, which returns the count it leaves.\<close>

definition upsert_window :: "int \<Rightarrow> refusal_entry \<Rightarrow> refusal_window list \<Rightarrow> refusal_window list \<times> nat" where
  "upsert_window now e ws =
     (case List.find (\<lambda>w. rw_dedupe w = re_dedupe e) ws of
        Some w \<Rightarrow>
          (map (\<lambda>v. if rw_dedupe v = re_dedupe e then v\<lparr>rw_count := rw_count v + 1, rw_last := now\<rparr> else v) ws,
           rw_count w + 1)
      | None \<Rightarrow>
          (ws @ [\<lparr> rw_dedupe = re_dedupe e, rw_switch = re_switch e, rw_reason = re_reason e,
                    rw_workspace = re_workspace e, rw_actor = re_actor e, rw_count = 1, rw_first = now, rw_last = now \<rparr>],
           1))"

definition record_kill_switch_refusal :: "int \<Rightarrow> refusal_entry \<Rightarrow> refusal_db \<Rightarrow> (nat \<times> bool) \<times> refusal_db" where
  "record_kill_switch_refusal now e db =
     (case upsert_window now e (rd_windows db) of
        (ws, count) \<Rightarrow>
          let db' = db\<lparr>rd_windows := ws\<rparr>; audit_written = (count = 1) in
          ((count, audit_written),
           if audit_written then
             write_admin_audit_entry
               \<lparr> aa_actor = re_actor e, aa_label = or_else (re_label e) (''kill-switch:'' @ re_switch e),
                  aa_action = ''admin.killswitch.refused'', aa_target_type = Some ''kill_switch'',
                  aa_target = Some (re_switch e), aa_reason = re_reason e, aa_workspace = re_workspace e \<rparr> db'
           else db'))"

definition prune_refusal_windows :: "int \<Rightarrow> int \<Rightarrow> refusal_db \<Rightarrow> refusal_db \<times> nat" where
  "prune_refusal_windows now older_than db =
     (let old = (\<lambda>w. rw_first w < now - older_than)
      in (db\<lparr>rd_windows := List.filter (\<lambda>w. \<not> old w) (rd_windows db)\<rparr>, length (List.filter old (rd_windows db))))"

definition refusal_of :: "switch_key \<Rightarrow> refusal_reason \<Rightarrow> refusal_subject \<Rightarrow> int \<Rightarrow> refusal_entry" where
  "refusal_of k r s now =
     \<lparr> re_dedupe = refusal_dedupe_key k r s now, re_switch = key_name k, re_reason = reason_name r,
        re_actor = rs_actor s, re_label = rs_label s, re_workspace = rs_workspace s \<rparr>"

text \<open>The service's audit: a failing write (\<open>ok\<close> false) is swallowed and leaves the tables as they were.\<close>

definition audit_refusal :: "int \<Rightarrow> bool \<Rightarrow> switch_key \<Rightarrow> refusal_reason \<Rightarrow> refusal_subject \<Rightarrow> refusal_db \<Rightarrow> refusal_db" where
  "audit_refusal now ok k r s db =
     (if ok then snd (record_kill_switch_refusal now (refusal_of k r s now) db) else db)"

section \<open>Enforcement\<close>

datatype kill_switch_error = SwitchOff switch_key | CapError switch_key int string

definition assert_on :: "int \<Rightarrow> bool \<Rightarrow> kill_switches \<Rightarrow> switch_key \<Rightarrow> refusal_subject \<Rightarrow> refusal_db
    \<Rightarrow> kill_switch_error option \<times> refusal_db" where
  "assert_on now ok switches k s db =
     (if \<not> sw_on (switches k) then (Some (SwitchOff k), audit_refusal now ok k FeatureOff s db) else (None, db))"

definition assert_custom_domain_under_caps :: "int \<Rightarrow> bool \<Rightarrow> kill_switches \<Rightarrow> int \<Rightarrow> int \<Rightarrow> refusal_subject
    \<Rightarrow> refusal_db \<Rightarrow> kill_switch_error option \<times> refusal_db" where
  "assert_custom_domain_under_caps now ok switches existing today s db =
     (let caps = or_else (sw_domain_caps (switches CustomDomainsCreate)) default_domains_caps;
          refuse = (\<lambda>cap d. (Some (CapError CustomDomainsCreate cap d), audit_refusal now ok CustomDomainsCreate CapReached s db))
      in if cap_total_max caps \<le> existing then refuse (cap_total_max caps) ''total''
         else if cap_domains_per_day caps \<le> today then refuse (cap_domains_per_day caps) ''per-day''
         else (None, db))"

text \<open>The ledger of sent mail: the time of a send and whether it was authentication mail.\<close>

type_synonym email_log = "(int \<times> bool) list"

definition hour_ms :: int where
  "hour_ms = 60 * 60000"

definition day_ms :: int where
  "day_ms = 24 * 60 * 60000"

definition count_emails_since :: "int \<Rightarrow> int \<Rightarrow> email_log \<Rightarrow> int" where
  "count_emails_since window now sent_log = int (length (List.filter (\<lambda>m. now - window \<le> fst m) sent_log))"

definition record_email_sent :: "bool \<Rightarrow> int \<Rightarrow> email_log \<Rightarrow> email_log" where
  "record_email_sent auth_critical now sent_log = sent_log @ [(now, auth_critical)]"

definition prune_email_send_log :: "int \<Rightarrow> int \<Rightarrow> email_log \<Rightarrow> email_log \<times> nat" where
  "prune_email_send_log keep now sent_log =
     (List.filter (\<lambda>m. \<not> fst m < now - keep) sent_log, length (List.filter (\<lambda>m. fst m < now - keep) sent_log))"

text \<open>\<open>counts_ok\<close> says whether the two count queries answered.\<close>

definition assert_email_allowed :: "int \<Rightarrow> bool \<Rightarrow> bool \<Rightarrow> kill_switches \<Rightarrow> bool \<Rightarrow> refusal_subject \<Rightarrow> email_log
    \<Rightarrow> refusal_db \<Rightarrow> kill_switch_error option \<times> refusal_db" where
  "assert_email_allowed now ok counts_ok switches auth_critical s sent_log db =
     (let state = switches EmailOutbound;
          caps = or_else (sw_email_caps state) default_email_caps;
          refuse = (\<lambda>cap d. (Some (CapError EmailOutbound cap d), audit_refusal now ok EmailOutbound CapReached s db))
      in if \<not> sw_on state \<and> \<not> auth_critical
         then (Some (SwitchOff EmailOutbound), audit_refusal now ok EmailOutbound FeatureOff s db)
         else if \<not> counts_ok then refuse (cap_per_hour caps) ''per-hour''
         else if cap_per_hour caps \<le> count_emails_since hour_ms now sent_log then refuse (cap_per_hour caps) ''per-hour''
         else if cap_emails_per_day caps \<le> count_emails_since day_ms now sent_log then refuse (cap_emails_per_day caps) ''per-day''
         else (None, db))"

text \<open>
  \<open>MailService.send\<close>: the gate, the transport (\<open>delivered\<close> the error it throws), then the record, whose
  failure (\<open>recorded\<close> false) is swallowed. The result is what the caller sees, and whether a message left.
\<close>

datatype mail_outcome = Refused kill_switch_error | TransportFailed string | Sent

definition mail_send :: "int \<Rightarrow> bool \<Rightarrow> bool \<Rightarrow> kill_switches \<Rightarrow> string option \<Rightarrow> bool \<Rightarrow> bool \<Rightarrow> email_log \<times> refusal_db
    \<Rightarrow> mail_outcome \<times> email_log \<times> refusal_db" where
  "mail_send now ok counts_ok switches delivered recorded auth_critical st =
     (case assert_email_allowed now ok counts_ok switches auth_critical no_subject (fst st) (snd st) of
        (Some e, db) \<Rightarrow> (Refused e, fst st, db)
      | (None, db) \<Rightarrow>
          (case delivered of
             Some e \<Rightarrow> (TransportFailed e, fst st, db)
           | None \<Rightarrow> (Sent, if recorded then record_email_sent auth_critical now (fst st) else fst st, db)))"

section \<open>Failing closed\<close>

text \<open>
  When the settings cannot be read, nothing that costs money happens: with no running snapshot, every
  paid switch refuses, whether or not the refusal can be audited, no custom domain and no paid action
  passes; mail, error reporting and rescans keep their shipped setting.
\<close>

theorem unreadable_settings_refuse:
  assumes "\<forall>c. cache = Some c \<longrightarrow> settings_cache_ttl_ms \<le> now - sc_loaded c"
    and "current_switches now (Inl err) cache = (switches, cache')"
  shows "(k \<in> set paid_kill_switch_keys \<longrightarrow> fst (assert_on now ok switches k s db) = Some (SwitchOff k))
    \<and> (k \<notin> set paid_kill_switch_keys \<longrightarrow> fst (assert_on now ok switches k s db) = None)
    \<and> cache' = cache"
proof -
  have snap: "settings_snapshot now (Inl err) cache = (Inl err, cache)"
    using assms(1) by (cases cache) (auto simp: settings_snapshot_def api_load_def Let_def)
  then have sw: "switches = fail_closed_kill_switches" "cache' = cache"
    using assms(2) by (simp_all add: current_switches_def)
  show ?thesis
    unfolding sw assert_on_def
    by (cases k) (simp_all add: fail_closed_at paid_kill_switch_keys_def plain_state_def)
qed

definition no_refusals :: refusal_db where
  "no_refusals = \<lparr> rd_windows = [], rd_audits = [] \<rparr>"

theorem unreadable_settings_refuse_witness:
  "fst (assert_on 100000 False (fst (current_switches 100000 (Inl ''down'')
      (Some \<lparr> sc_values = (\<lambda>k. plain_state True), sc_loaded = 40000 \<rparr>))) BillingCheckout no_subject no_refusals)
   = Some (SwitchOff BillingCheckout)"
proof -
  let ?c = "Some \<lparr> sc_values = (\<lambda>k. plain_state True), sc_loaded = 40000 \<rparr>"
  have old: "\<forall>c. ?c = Some c \<longrightarrow> settings_cache_ttl_ms \<le> 100000 - sc_loaded c"
    by (simp add: settings_cache_ttl_ms_def)
  obtain sw c' where cur: "current_switches 100000 (Inl ''down'') ?c = (sw, c')" by fastforce
  show ?thesis
    using unreadable_settings_refuse [OF old cur, of BillingCheckout False no_subject no_refusals] cur
    by (simp add: paid_kill_switch_keys_def)
qed

section \<open>One audit row per window\<close>

lemma key_name_no_bar: "CHR ''|'' \<notin> set (key_name k)"
  by (cases k) simp_all

lemma reason_name_no_bar: "CHR ''|'' \<notin> set (reason_name r)"
  by (cases r) simp_all

lemma key_name_inject [simp]: "key_name k = key_name k' \<longleftrightarrow> k = k'"
  by (cases k; cases k') simp_all

lemma reason_name_inject [simp]: "reason_name r = reason_name r' \<longleftrightarrow> r = r'"
  by (cases r; cases r') simp_all

text \<open>
  The key of a refusal is equal exactly for refusals of the same switch, reason and subject in the same
  minute, whatever characters a subject holds.
\<close>

lemma dedupe_key_inject:
  "refusal_dedupe_key k r s t = refusal_dedupe_key k' r' s' t' \<longleftrightarrow>
     k = k' \<and> r = r' \<and> subject_id s = subject_id s' \<and> refusal_window_start t = refusal_window_start t'"
proof -
  have bar: "CHR ''|'' \<notin> set (show_int i)" for i by (rule show_int_no_sep) (simp_all add: is_digit_def cu_def)
  show ?thesis
    by (simp add: refusal_dedupe_key_def split_first_sep key_name_no_bar reason_name_no_bar split_last_sep bar show_int_inject)
qed

lemma window_start_le: "refusal_window_start t \<le> t"
  unfolding refusal_window_start_def refusal_window_ms_def by presburger

lemma window_start_gt: "t < refusal_window_start t + 60000"
  unfolding refusal_window_start_def refusal_window_ms_def by presburger

datatype ledger_op = Refuse int switch_key refusal_reason refusal_subject | PruneRefusals int int

fun op_time :: "ledger_op \<Rightarrow> int" where
  "op_time (Refuse t k r s) = t"
| "op_time (PruneRefusals t older) = t"

text \<open>A run of the ledger: for each refusal its key and whether it wrote the audit row.\<close>

fun run_ledger :: "ledger_op list \<Rightarrow> refusal_db \<Rightarrow> (string \<times> bool) list \<times> refusal_db" where
  "run_ledger [] db = ([], db)"
| "run_ledger (Refuse t k r s # ops) db =
     (case record_kill_switch_refusal t (refusal_of k r s t) db of
        ((count, written), db') \<Rightarrow>
          (case run_ledger ops db' of (os, db'') \<Rightarrow> ((refusal_dedupe_key k r s t, written) # os, db'')))"
| "run_ledger (PruneRefusals t older # ops) db = run_ledger ops (fst (prune_refusal_windows t older db))"

text \<open>Every key seen is in the table, with its count, or its minute is over.\<close>

definition ledger_ok :: "int \<Rightarrow> (string \<times> int) set \<Rightarrow> refusal_db \<Rightarrow> bool" where
  "ledger_ok now seen db =
     (finite seen
      \<and> (\<forall>p \<in> seen. \<exists>k r s t. p = (refusal_dedupe_key k r s t, refusal_window_start t))
      \<and> (\<forall>w \<in> set (rd_windows db). 1 \<le> rw_count w \<and> rw_dedupe w \<in> fst ` seen)
      \<and> (\<forall>p \<in> seen. (\<exists>w \<in> set (rd_windows db). rw_dedupe w = fst p \<and> snd p \<le> rw_first w) \<or> snd p + 60000 \<le> now))"

lemma upsert_window_seen:
  assumes "w \<in> set ws" "rw_dedupe w = re_dedupe e" "\<forall>w \<in> set ws. 1 \<le> rw_count w"
  shows "snd (upsert_window now e ws) \<noteq> 1"
    "fst (upsert_window now e ws) = map (\<lambda>v. if rw_dedupe v = re_dedupe e then v\<lparr>rw_count := rw_count v + 1, rw_last := now\<rparr> else v) ws"
proof -
  obtain v where v: "List.find (\<lambda>w. rw_dedupe w = re_dedupe e) ws = Some v" "v \<in> set ws"
    using assms(1,2) by (metis (mono_tags, lifting) find_None_iff find_Some_iff not_None_eq nth_mem)
  then have "1 \<le> rw_count v" using assms(3) by blast
  then show "snd (upsert_window now e ws) \<noteq> 1"
    "fst (upsert_window now e ws) = map (\<lambda>v. if rw_dedupe v = re_dedupe e then v\<lparr>rw_count := rw_count v + 1, rw_last := now\<rparr> else v) ws"
    using v(1) by (simp_all add: upsert_window_def)
qed

lemma upsert_window_new:
  assumes "\<forall>w \<in> set ws. rw_dedupe w \<noteq> re_dedupe e"
  shows "snd (upsert_window now e ws) = 1"
    "\<exists>w. fst (upsert_window now e ws) = ws @ [w] \<and> rw_dedupe w = re_dedupe e \<and> rw_count w = 1 \<and> rw_first w = now"
proof -
  have "List.find (\<lambda>w. rw_dedupe w = re_dedupe e) ws = None" using assms by (simp add: find_None_iff)
  then show "snd (upsert_window now e ws) = 1"
    "\<exists>w. fst (upsert_window now e ws) = ws @ [w] \<and> rw_dedupe w = re_dedupe e \<and> rw_count w = 1 \<and> rw_first w = now"
    by (simp_all add: upsert_window_def)
qed

lemma ledger_ok_later: "ledger_ok now seen db \<Longrightarrow> now \<le> t \<Longrightarrow> ledger_ok t seen db"
  unfolding ledger_ok_def by fastforce

lemma ledger_key_seen:
  assumes "ledger_ok now seen db" "now \<le> t"
  shows "refusal_dedupe_key k r s t \<in> fst ` seen \<longleftrightarrow> (\<exists>w \<in> set (rd_windows db). rw_dedupe w = refusal_dedupe_key k r s t)"
proof
  assume "refusal_dedupe_key k r s t \<in> fst ` seen"
  then obtain p where p: "p \<in> seen" "fst p = refusal_dedupe_key k r s t" by force
  then obtain k' r' s' t' where "p = (refusal_dedupe_key k' r' s' t', refusal_window_start t')"
    using assms(1) unfolding ledger_ok_def by blast
  then have "snd p = refusal_window_start t" using p(2) by (simp add: dedupe_key_inject)
  then have "\<not> snd p + 60000 \<le> now" using window_start_gt [of t] assms(2) by simp
  then show "\<exists>w \<in> set (rd_windows db). rw_dedupe w = refusal_dedupe_key k r s t"
    using assms(1) p unfolding ledger_ok_def by metis
next
  assume "\<exists>w \<in> set (rd_windows db). rw_dedupe w = refusal_dedupe_key k r s t"
  then show "refusal_dedupe_key k r s t \<in> fst ` seen" using assms(1) unfolding ledger_ok_def by metis
qed

lemma record_refusal_parts:
  assumes "record_kill_switch_refusal t e db = ((c, w), db')"
  shows "w = (snd (upsert_window t e (rd_windows db)) = 1)" "rd_windows db' = fst (upsert_window t e (rd_windows db))"
    "length (rd_audits db') = length (rd_audits db) + (if w then 1 else 0)"
  using assms
  by (auto simp: record_kill_switch_refusal_def write_admin_audit_entry_def Let_def split: prod.splits if_splits)

lemma ledger_refuse_step:
  fixes k r s t
  defines "e \<equiv> refusal_of k r s t" and "p \<equiv> (refusal_dedupe_key k r s t, refusal_window_start t)"
  assumes ok: "ledger_ok now seen db" and later: "now \<le> t"
    and rec: "record_kill_switch_refusal t e db = ((c, w), db')"
  shows "w = (fst p \<notin> fst ` seen)" "ledger_ok t (insert p seen) db'"
proof -
  have key: "re_dedupe e = fst p" by (simp add: e_def p_def refusal_of_def)
  have ok': "ledger_ok t seen db" by (rule ledger_ok_later [OF ok later])
  note parts = record_refusal_parts [OF rec]
  have seen: "fst p \<in> fst ` seen \<longleftrightarrow> (\<exists>w \<in> set (rd_windows db). rw_dedupe w = fst p)"
    unfolding p_def fst_conv by (rule ledger_key_seen [OF ok later])
  have counts: "\<forall>w \<in> set (rd_windows db). 1 \<le> rw_count w" using ok by (simp add: ledger_ok_def)
  show wr: "w = (fst p \<notin> fst ` seen)"
    using upsert_window_seen(1) [OF _ _ counts, of _ e t] upsert_window_new(1) [of "rd_windows db" e t] seen parts(1) key
    by metis
  show "ledger_ok t (insert p seen) db'"
  proof (cases "fst p \<in> fst ` seen")
    case True
    then obtain w0 where w0: "w0 \<in> set (rd_windows db)" "rw_dedupe w0 = re_dedupe e" using seen key by auto
    define bump where "bump = (\<lambda>v :: refusal_window. if rw_dedupe v = re_dedupe e then v\<lparr>rw_count := rw_count v + 1, rw_last := t\<rparr> else v)"
    have ws: "rd_windows db' = map bump (rd_windows db)"
      using upsert_window_seen(2) [OF w0 counts] parts(2) by (simp add: bump_def)
    have same: "rw_dedupe (bump v) = rw_dedupe v" "rw_first (bump v) = rw_first v" "1 \<le> rw_count v \<longrightarrow> 1 \<le> rw_count (bump v)" for v
      by (simp_all add: bump_def)
    obtain p' where p': "p' \<in> seen" "fst p' = fst p" using True by force
    then have "p' = p"
      using ok unfolding ledger_ok_def p_def by (metis dedupe_key_inject fst_conv)
    then have "insert p seen = seen" using p'(1) by blast
    moreover have "ledger_ok t seen db'"
      unfolding ledger_ok_def
    proof (intro conjI ballI)
      show "finite seen" using ok' by (simp add: ledger_ok_def)
      show "\<exists>k r s u. q = (refusal_dedupe_key k r s u, refusal_window_start u)" if "q \<in> seen" for q
        using ok' that unfolding ledger_ok_def by blast
    next
      fix w assume "w \<in> set (rd_windows db')"
      then obtain v where v: "v \<in> set (rd_windows db)" "w = bump v" unfolding ws set_map by blast
      then have "1 \<le> rw_count v" "rw_dedupe v \<in> fst ` seen" using ok' unfolding ledger_ok_def by blast+
      then show "1 \<le> rw_count w" "rw_dedupe w \<in> fst ` seen" unfolding v(2) same(1) using same(3) by blast+
    next
      fix q assume "q \<in> seen"
      then consider v where "v \<in> set (rd_windows db)" "rw_dedupe v = fst q" "snd q \<le> rw_first v" | "snd q + 60000 \<le> t"
        using ok' unfolding ledger_ok_def by blast
      then show "(\<exists>w \<in> set (rd_windows db'). rw_dedupe w = fst q \<and> snd q \<le> rw_first w) \<or> snd q + 60000 \<le> t"
      proof cases
        case (1 v)
        then have "bump v \<in> set (rd_windows db')" unfolding ws set_map by blast
        then show ?thesis using 1 same by metis
      qed simp
    qed
    ultimately show ?thesis by simp
  next
    case False
    then have none: "\<forall>w \<in> set (rd_windows db). rw_dedupe w \<noteq> re_dedupe e" using seen key by auto
    obtain v where v: "rd_windows db' = rd_windows db @ [v]" "rw_dedupe v = fst p" "rw_count v = 1" "rw_first v = t"
      using upsert_window_new(2) [OF none, of t] parts(2) key by metis
    have "snd p \<le> t" by (simp add: p_def window_start_le)
    moreover have "\<exists>k r s u. p = (refusal_dedupe_key k r s u, refusal_window_start u)" unfolding p_def by blast
    ultimately show ?thesis
      using ok' v unfolding ledger_ok_def by auto
  qed
qed

lemma ledger_prune_step:
  assumes "ledger_ok now seen db" "now \<le> t" "60000 \<le> older"
  shows "ledger_ok t seen (fst (prune_refusal_windows t older db))"
proof -
  have "(\<exists>w \<in> set (rd_windows (fst (prune_refusal_windows t older db))). rw_dedupe w = fst p \<and> snd p \<le> rw_first w) \<or> snd p + 60000 \<le> t"
    if "p \<in> seen" for p
  proof (cases "snd p + 60000 \<le> t")
    case False
    then obtain w where w: "w \<in> set (rd_windows db)" "rw_dedupe w = fst p" "snd p \<le> rw_first w"
      using assms(1,2) \<open>p \<in> seen\<close> unfolding ledger_ok_def by force
    then have "\<not> rw_first w < t - older" using False assms(3) by simp
    then show ?thesis using w by (auto simp: prune_refusal_windows_def Let_def)
  qed simp
  then show ?thesis using assms(1) by (simp add: ledger_ok_def prune_refusal_windows_def Let_def)
qed

lemma run_ledger_once:
  assumes "ledger_ok now seen db" "sorted (map op_time ops)" "\<forall>q \<in> set ops. now \<le> op_time q"
    and "\<forall>t older. PruneRefusals t older \<in> set ops \<longrightarrow> 60000 \<le> older"
    and "run_ledger ops db = (os, db')"
  shows "(\<forall>key. length (List.filter (\<lambda>x. x = (key, True)) os) = (if key \<in> fst ` set os \<and> key \<notin> fst ` seen then 1 else 0))
    \<and> length (rd_audits db') = length (rd_audits db) + card (fst ` set os - fst ` seen)"
  using assms
proof (induction ops arbitrary: now seen db os)
  case (Cons q ops)
  show ?case
  proof (cases q)
    case (Refuse t k r s)
    let ?p = "(refusal_dedupe_key k r s t, refusal_window_start t)"
    obtain c w db1 where rec: "record_kill_switch_refusal t (refusal_of k r s t) db = ((c, w), db1)" by (metis prod.collapse)
    obtain os1 where run: "run_ledger ops db1 = (os1, db')" "os = (fst ?p, w) # os1"
      using Cons.prems(5) Refuse rec by (auto split: prod.splits)
    have later: "now \<le> t" using Cons.prems(3) Refuse by simp
    note step = ledger_refuse_step [OF Cons.prems(1) later rec]
    have ih: "(\<forall>key. length (List.filter (\<lambda>x. x = (key, True)) os1)
          = (if key \<in> fst ` set os1 \<and> key \<notin> fst ` insert ?p seen then 1 else 0))
        \<and> length (rd_audits db') = length (rd_audits db1) + card (fst ` set os1 - fst ` insert ?p seen)"
      using Cons.IH [OF step(2) _ _ _ run(1)] Cons.prems(2-4) Refuse by force
    have audits: "length (rd_audits db1) = length (rd_audits db) + (if w then 1 else 0)"
      by (rule record_refusal_parts(3) [OF rec])
    have card: "card (fst ` set os - fst ` seen) = (if w then 1 else 0) + card (fst ` set os1 - fst ` insert ?p seen)"
    proof (cases w)
      case True
      then have "fst ` set os - fst ` seen = insert (fst ?p) (fst ` set os1 - fst ` insert ?p seen)"
        using step(1) run(2) by auto
      then show ?thesis using True by simp
    next
      case False
      then have "fst ?p \<in> fst ` seen" using step(1) by simp
      then have "fst ` set os - fst ` seen = fst ` set os1 - fst ` insert ?p seen"
        unfolding run(2) list.set image_insert fst_conv by blast
      then show ?thesis using False by simp
    qed
    have "length (List.filter (\<lambda>x. x = (key, True)) os) = (if key \<in> fst ` set os \<and> key \<notin> fst ` seen then 1 else 0)" for key
    proof (cases "key = fst ?p")
      case True
      then show ?thesis using ih step(1) run(2) by auto
    next
      case False
      then show ?thesis using ih run(2) by auto
    qed
    then show ?thesis using ih audits card by simp
  next
    case (PruneRefusals t older)
    then have "ledger_ok t seen (fst (prune_refusal_windows t older db))"
      using Cons.prems(1,3,4) by (intro ledger_prune_step) auto
    moreover have "rd_audits (fst (prune_refusal_windows t older db)) = rd_audits db"
      by (simp add: prune_refusal_windows_def Let_def)
    ultimately show ?thesis
      using Cons.IH [of t seen "fst (prune_refusal_windows t older db)" os] Cons.prems(2-5) PruneRefusals by force
  qed
qed simp

text \<open>
  A flood of refusals cannot flood the audit trail: over any run of refusals in time order, with the
  hourly pruning in between, each refused switch, reason and subject writes exactly one audit row in a
  minute, however often it is refused, and the first refusal of the minute does write it.
\<close>

theorem one_audit_row_per_window:
  assumes "sorted (map op_time ops)" "\<forall>t older. PruneRefusals t older \<in> set ops \<longrightarrow> 60000 \<le> older"
    and "run_ledger ops \<lparr> rd_windows = [], rd_audits = [] \<rparr> = (os, db)"
  shows "(\<forall>key \<in> fst ` set os. length (List.filter (\<lambda>x. x = (key, True)) os) = 1)
    \<and> length (rd_audits db) = card (fst ` set os)"
proof (cases ops)
  case Nil
  then show ?thesis using assms(3) by auto
next
  case (Cons q rest)
  have a: "ledger_ok (op_time q) {} \<lparr> rd_windows = [], rd_audits = [] \<rparr>" by (simp add: ledger_ok_def)
  have b: "\<forall>q' \<in> set ops. op_time q \<le> op_time q'" using assms(1) Cons by auto
  show ?thesis using run_ledger_once [OF a assms(1) b assms(2,3)] by simp
qed

theorem one_audit_row_per_window_witness:
  "length (rd_audits (snd (run_ledger
      [Refuse 1000 BillingCheckout FeatureOff no_subject, Refuse 2000 BillingCheckout FeatureOff no_subject,
       PruneRefusals 3600000 3600000, Refuse 3600000 BillingCheckout FeatureOff no_subject]
      \<lparr> rd_windows = [], rd_audits = [] \<rparr>))) = 2"
proof -
  let ?ops = "[Refuse 1000 BillingCheckout FeatureOff no_subject, Refuse 2000 BillingCheckout FeatureOff no_subject,
       PruneRefusals 3600000 3600000, Refuse 3600000 BillingCheckout FeatureOff no_subject]"
  obtain os db where run: "run_ledger ?ops \<lparr> rd_windows = [], rd_audits = [] \<rparr> = (os, db)" by fastforce
  have keys: "map fst os = map (refusal_dedupe_key BillingCheckout FeatureOff no_subject) [1000, 2000, 3600000]"
    using run by (auto split: prod.splits)
  have same: "refusal_dedupe_key BillingCheckout FeatureOff no_subject 2000 = refusal_dedupe_key BillingCheckout FeatureOff no_subject 1000"
    by (simp add: dedupe_key_inject refusal_window_start_def refusal_window_ms_def)
  have "fst ` set os = set (map fst os)" by simp
  also have "\<dots> = {refusal_dedupe_key BillingCheckout FeatureOff no_subject 1000,
      refusal_dedupe_key BillingCheckout FeatureOff no_subject 3600000}"
    unfolding keys by (simp add: same)
  finally have "card (fst ` set os) = 2"
    by (simp add: dedupe_key_inject refusal_window_start_def refusal_window_ms_def)
  then show ?thesis
    using one_audit_row_per_window [OF _ _ run] run by simp
qed

section \<open>The mail caps\<close>

record mail_attempt =
  ma_time :: int
  ma_audit_ok :: bool
  ma_counts_ok :: bool
  ma_delivered :: "string option"
  ma_auth :: bool

text \<open>Attempts one after another, each send recorded.\<close>

fun run_mail :: "kill_switches \<Rightarrow> mail_attempt list \<Rightarrow> email_log \<times> refusal_db \<Rightarrow> email_log \<times> refusal_db" where
  "run_mail switches [] st = st"
| "run_mail switches (a # as) st =
     run_mail switches as
       (snd (mail_send (ma_time a) (ma_audit_ok a) (ma_counts_ok a) switches (ma_delivered a) True (ma_auth a) st))"

definition sent_between :: "int \<Rightarrow> int \<Rightarrow> email_log \<Rightarrow> int" where
  "sent_between a b sent_log = int (length (List.filter (\<lambda>m. a \<le> fst m \<and> fst m \<le> b) sent_log))"

definition rate_ok :: "int \<Rightarrow> int \<Rightarrow> email_log \<Rightarrow> bool" where
  "rate_ok window cap sent_log = (\<forall>a. sent_between a (a + window) sent_log \<le> cap)"

lemma rate_ok_send:
  assumes "rate_ok window cap sent_log" "count_emails_since window t sent_log < cap" "\<forall>m \<in> set sent_log. fst m \<le> t"
  shows "rate_ok window cap (record_email_sent b t sent_log)"
  unfolding rate_ok_def
proof
  fix a
  show "sent_between a (a + window) (record_email_sent b t sent_log) \<le> cap"
  proof (cases "a \<le> t \<and> t \<le> a + window")
    case True
    have "length (List.filter (\<lambda>m. a \<le> fst m \<and> fst m \<le> a + window) sent_log)
        \<le> length (List.filter (\<lambda>m. t - window \<le> fst m) sent_log)"
      using True by (induction sent_log) auto
    then show ?thesis using assms(2) True by (simp add: sent_between_def record_email_sent_def count_emails_since_def)
  next
    case False
    then show ?thesis using assms(1) by (auto simp: rate_ok_def sent_between_def record_email_sent_def)
  qed
qed

lemma allowed_under_caps:
  assumes "fst (assert_email_allowed t ok cok switches auth s sent_log db) = None"
    and "caps = or_else (sw_email_caps (switches EmailOutbound)) default_email_caps"
  shows "count_emails_since hour_ms t sent_log < cap_per_hour caps"
    "count_emails_since day_ms t sent_log < cap_emails_per_day caps"
  using assms by (auto simp: assert_email_allowed_def Let_def split: if_splits)

lemma run_mail_rate:
  assumes "sorted (map ma_time as)" "\<forall>a \<in> set as. \<forall>m \<in> set (fst st). fst m \<le> ma_time a"
    and "caps = or_else (sw_email_caps (switches EmailOutbound)) default_email_caps"
    and "rate_ok hour_ms (cap_per_hour caps) (fst st)" "rate_ok day_ms (cap_emails_per_day caps) (fst st)"
  shows "rate_ok hour_ms (cap_per_hour caps) (fst (run_mail switches as st))
    \<and> rate_ok day_ms (cap_emails_per_day caps) (fst (run_mail switches as st))"
  using assms
proof (induction as arbitrary: st)
  case (Cons a as)
  obtain sent_log db where st: "st = (sent_log, db)" by fastforce
  let ?chk = "assert_email_allowed (ma_time a) (ma_audit_ok a) (ma_counts_ok a) switches (ma_auth a) no_subject sent_log db"
  obtain e db' where chk: "?chk = (e, db')" by fastforce
  let ?st' = "snd (mail_send (ma_time a) (ma_audit_ok a) (ma_counts_ok a) switches (ma_delivered a) True (ma_auth a) st)"
  have cases: "fst ?st' = sent_log \<or> e = None \<and> fst ?st' = record_email_sent (ma_auth a) (ma_time a) sent_log"
    using chk by (cases e; cases "ma_delivered a") (simp_all add: mail_send_def st)
  have "rate_ok hour_ms (cap_per_hour caps) (fst ?st') \<and> rate_ok day_ms (cap_emails_per_day caps) (fst ?st')"
  proof (cases "e = None")
    case True
    then have "fst ?chk = None" using chk by simp
    from allowed_under_caps [OF this Cons.prems(3)] show ?thesis
      using cases Cons.prems(2,4,5) st by (auto intro!: rate_ok_send)
  next
    case False
    then have "fst ?st' = sent_log" using cases by blast
    then show ?thesis using Cons.prems(4,5) by (simp only: st fst_conv)
  qed
  moreover have "\<forall>a' \<in> set as. \<forall>m \<in> set (fst ?st'). fst m \<le> ma_time a'"
  proof (intro ballI)
    fix a' m assume a: "a' \<in> set as" "m \<in> set (fst ?st')"
    have le: "ma_time a \<le> ma_time a'" using Cons.prems(1) a(1) by simp
    have "m \<in> set sent_log \<or> fst m = ma_time a" using cases a(2) by (auto simp: record_email_sent_def)
    then show "fst m \<le> ma_time a'"
      using Cons.prems(2) a(1) le st by (metis fst_conv list.set_intros(2))
  qed
  ultimately show ?case using Cons.IH [of ?st'] Cons.prems(1,3) by simp
qed simp


definition reset_storm :: "mail_attempt list" where
  "reset_storm = map (\<lambda>t. \<lparr> ma_time = t, ma_audit_ok = False, ma_counts_ok = True, ma_delivered = None, ma_auth = True \<rparr>)
     [0, 1000, 2000, 3000, 4000]"

definition two_per_hour :: kill_switches where
  "two_per_hour = default_kill_switches(EmailOutbound := (plain_state False)\<lparr>sw_email_caps := Some \<lparr> cap_per_hour = 2, cap_emails_per_day = 10 \<rparr>\<rparr>)"


text \<open>The gate reads before it sends: two sends at once both pass on the last place.\<close>

lemma sends_at_once_overshoot:
  assumes "fst (assert_email_allowed t ok True switches auth s sent_log db) = None"
    and "caps = or_else (sw_email_caps (switches EmailOutbound)) default_email_caps"
    and "count_emails_since hour_ms t sent_log = cap_per_hour caps - 1"
  shows "cap_per_hour caps < count_emails_since hour_ms t (record_email_sent auth t (record_email_sent auth t sent_log))"
  using assms(3) by (simp add: count_emails_since_def record_email_sent_def hour_ms_def)

end
