(* ===== verification/Plans.thy ===== *)
theory Plans
  imports Js_Number "HOL-Library.AList"
begin

text \<open>
  Plans, entitlements and usage: the matrices, the resolver and the usage bands
  (\<open>packages/contract/src/plans.ts\<close>), the seed catalogue (\<open>apps/api/src/plans/plan-seed.ts\<close>), the loaded
  catalogue and what a workspace resolves to (\<open>plans.service.ts\<close>), the enforcement check
  (\<open>entitlements.service.ts\<close>) and the usage warnings (\<open>usage.service.ts\<close>). Rows read from Postgres are
  arguments; a refused action is the left side of a sum.
\<close>

section \<open>Names and matrices\<close>

datatype feature_name = FCustomDomains | FPasswordProtectedLinks | FLinkExpiry | FRoutingRules | FConversions
  | FBioPages | FForms | FApiKeys | FWebhooks | FCsvExport | FCookielessAnalytics | FQrCustomisation

datatype limit_name = LLinks | LClicksPerMonth | LCustomDomains | LTeamMembers | LApiKeys | LBioPages | LForms
  | LRetentionYears

definition feature_names :: "(string \<times> feature_name) list" where
  "feature_names = [(''customDomains'', FCustomDomains), (''passwordProtectedLinks'', FPasswordProtectedLinks),
     (''linkExpiry'', FLinkExpiry), (''routingRules'', FRoutingRules), (''conversions'', FConversions),
     (''bioPages'', FBioPages), (''forms'', FForms), (''apiKeys'', FApiKeys), (''webhooks'', FWebhooks),
     (''csvExport'', FCsvExport), (''cookielessAnalytics'', FCookielessAnalytics),
     (''qrCustomisation'', FQrCustomisation)]"

definition limit_names :: "(string \<times> limit_name) list" where
  "limit_names = [(''links'', LLinks), (''clicksPerMonth'', LClicksPerMonth), (''customDomains'', LCustomDomains),
     (''teamMembers'', LTeamMembers), (''apiKeys'', LApiKeys), (''bioPages'', LBioPages), (''forms'', LForms),
     (''retentionYears'', LRetentionYears)]"

fun feature_label :: "feature_name \<Rightarrow> string" where
  "feature_label FCustomDomains = ''custom domains''"
| "feature_label FPasswordProtectedLinks = ''password-protected links''"
| "feature_label FLinkExpiry = ''link expiry''"
| "feature_label FRoutingRules = ''routing rules''"
| "feature_label FConversions = ''conversion tracking''"
| "feature_label FBioPages = ''bio pages''"
| "feature_label FForms = ''forms''"
| "feature_label FApiKeys = ''API keys''"
| "feature_label FWebhooks = ''webhooks''"
| "feature_label FCsvExport = ''CSV export''"
| "feature_label FCookielessAnalytics = ''cookieless analytics''"
| "feature_label FQrCustomisation = ''QR customisation''"

fun limit_label :: "limit_name \<Rightarrow> string" where
  "limit_label LLinks = ''links''"
| "limit_label LClicksPerMonth = ''clicks tracked per month''"
| "limit_label LCustomDomains = ''custom domains''"
| "limit_label LTeamMembers = ''team members''"
| "limit_label LApiKeys = ''API keys''"
| "limit_label LBioPages = ''bio pages''"
| "limit_label LForms = ''forms''"
| "limit_label LRetentionYears = ''years of data retention''"

text \<open>A value of a matrix or an override.\<close>

datatype plan_value = Flag bool | Count int | Unlimited

record resolvable_version =
  rv_features :: "(string \<times> plan_value) list"
  rv_limits :: "(string \<times> plan_value) list"

datatype override_kind = FeatureOverride | LimitOverride

record resolvable_override =
  ro_kind :: override_kind
  ro_name :: string
  ro_value :: plan_value

record resolved_entitlements =
  re_features :: "feature_name \<Rightarrow> bool"
  re_limits :: "limit_name \<Rightarrow> int option"

definition baseline_entitlements :: resolved_entitlements where
  "baseline_entitlements = \<lparr> re_features = (\<lambda>f. False), re_limits = (\<lambda>l. Some 0) \<rparr>"

text \<open>What an entry grants: a known name with a value of the right type.\<close>

definition feature_entry :: "string \<Rightarrow> plan_value \<Rightarrow> (feature_name \<times> bool) option" where
  "feature_entry name v =
     (case (map_of feature_names name, v) of (Some f, Flag on) \<Rightarrow> Some (f, on) | _ \<Rightarrow> None)"

definition limit_entry :: "string \<Rightarrow> plan_value \<Rightarrow> (limit_name \<times> int option) option" where
  "limit_entry name v =
     (case (map_of limit_names name, v) of
        (Some l, Count n) \<Rightarrow> Some (l, Some n) | (Some l, Unlimited) \<Rightarrow> Some (l, None) | _ \<Rightarrow> None)"

definition set_feature :: "(feature_name \<times> bool) option \<Rightarrow> resolved_entitlements \<Rightarrow> resolved_entitlements" where
  "set_feature e r = (case e of None \<Rightarrow> r | Some (f, on) \<Rightarrow> r\<lparr>re_features := (re_features r)(f := on)\<rparr>)"

definition set_limit :: "(limit_name \<times> int option) option \<Rightarrow> resolved_entitlements \<Rightarrow> resolved_entitlements" where
  "set_limit e r = (case e of None \<Rightarrow> r | Some (l, cap) \<Rightarrow> r\<lparr>re_limits := (re_limits r)(l := cap)\<rparr>)"

definition apply_version :: "resolvable_version \<Rightarrow> resolved_entitlements \<Rightarrow> resolved_entitlements" where
  "apply_version v r =
     fold (\<lambda>(n, x). set_limit (limit_entry n x)) (rv_limits v) (fold (\<lambda>(n, x). set_feature (feature_entry n x)) (rv_features v) r)"

definition apply_override :: "resolvable_override \<Rightarrow> resolved_entitlements \<Rightarrow> resolved_entitlements" where
  "apply_override ov =
     (case ro_kind ov of
        FeatureOverride \<Rightarrow> set_feature (feature_entry (ro_name ov) (ro_value ov))
      | LimitOverride \<Rightarrow> set_limit (limit_entry (ro_name ov) (ro_value ov)))"

definition resolve_entitlements :: "resolvable_version option \<Rightarrow> resolvable_override list \<Rightarrow> resolved_entitlements" where
  "resolve_entitlements version overrides =
     fold apply_override overrides
       (case version of None \<Rightarrow> baseline_entitlements | Some v \<Rightarrow> apply_version v baseline_entitlements)"

definition exceeds_limit :: "int option \<Rightarrow> int \<Rightarrow> bool" where
  "exceeds_limit limit count = (case limit of None \<Rightarrow> False | Some n \<Rightarrow> n \<le> count)"

text \<open>The issues an override input raises.\<close>

definition override_issues :: "override_kind \<Rightarrow> string \<Rightarrow> plan_value \<Rightarrow> string list" where
  "override_issues kind name v =
     (if kind = FeatureOverride \<and> (\<forall>b. v \<noteq> Flag b) then [''A feature override's value must be true or false.''] else [])
     @ (if kind = LimitOverride \<and> (v = Flag True \<or> v = Flag False)
        then [''A limit override's value must be a number or null.''] else [])
     @ (if kind = FeatureOverride \<and> map_of feature_names name = None then [''Unknown feature '' @ [CHR 0x22] @ name @ [CHR 0x22] @ ''.''] else [])
     @ (if kind = LimitOverride \<and> map_of limit_names name = None then [''Unknown limit '' @ [CHR 0x22] @ name @ [CHR 0x22] @ ''.''] else [])"

section \<open>Prices\<close>

datatype price_currency = PriceINR | PriceUSD

datatype price_interval = PriceMonthly | PriceYearly

record plan_prices =
  pp_primary :: price_currency
  pp_amounts :: "(price_interval \<times> (price_currency \<times> int) list) list"

definition empty_plan_prices :: plan_prices where
  "empty_plan_prices = \<lparr> pp_primary = PriceINR, pp_amounts = [] \<rparr>"

definition price_for :: "plan_prices option \<Rightarrow> price_interval \<Rightarrow> price_currency option \<Rightarrow> int option" where
  "price_for prices interval currency =
     (case prices of None \<Rightarrow> None
      | Some p \<Rightarrow>
          (case map_of (pp_amounts p) interval of None \<Rightarrow> None
           | Some amounts \<Rightarrow> map_of amounts (or_else currency (pp_primary p))))"

section \<open>Usage\<close>

datatype usage_band = NoBand | WarnBand | FullBand

definition usage_percent :: "int \<Rightarrow> int option \<Rightarrow> int option" where
  "usage_percent used limit =
     (case limit of None \<Rightarrow> None
      | Some n \<Rightarrow> if n = 0 then Some (if 0 < used then 100 else 0)
                else Some (js_round (dbl (dbl (of_int used / of_int n) * 100))))"

definition usage_warn_percent :: int where
  "usage_warn_percent = 80"

definition usage_full_percent :: int where
  "usage_full_percent = 100"

definition usage_band_of :: "int \<Rightarrow> int option \<Rightarrow> usage_band" where
  "usage_band_of used limit =
     (case usage_percent used limit of None \<Rightarrow> NoBand
      | Some pct \<Rightarrow> if usage_full_percent \<le> pct then FullBand else if usage_warn_percent \<le> pct then WarnBand else NoBand)"

text \<open>The two thresholds, after both roundings, are reached exactly from 79.5 and 99.5 percent on.\<close>

lemma dbl_thresholds:
  "dbl (159 / 200) = 7160723407519089 / 9007199254740992"
  "dbl (199 / 200) = 8962163258467287 / 9007199254740992"
  "dbl (179018085187977225 / 2251799813685248) = 159 / 2"
  "dbl (224054081461682175 / 2251799813685248) = 199 / 2"
  using dbl_eqI [of "159 / 200" "-1" 7160723407519089] dbl_eqI [of "199 / 200" "-1" 8962163258467287]
    dbl_eqI [of "179018085187977225 / 2251799813685248" 6 5594315162124288]
    dbl_eqI [of "224054081461682175 / 2251799813685248" 6 7001690045677568]
  by (simp_all add: power_int_def field_simps)

lemma threshold_exact:
  assumes "0 \<le> u" "0 < n" "n \<le> 10 ^ 12" "c = 159 \<or> c = 199"
  shows "of_int c / 2 \<le> dbl (dbl (of_int u / of_int n) * 100) \<longleftrightarrow> c * n \<le> 200 * u"
proof
  let ?x = "of_int u / of_int n :: rat"
  have n: "0 < (of_int n :: rat)" "(of_int n :: rat) \<le> 10 ^ 12" using assms(2,3) by (simp, metis of_int_le_iff of_int_numeral of_int_power)
  have x0: "0 \<le> ?x" using assms(1) n by simp
  assume le: "c * n \<le> 200 * u"
  then have "(of_int c :: rat) * of_int n \<le> 200 * of_int u" by (metis of_int_le_iff of_int_mult of_int_numeral)
  then have "of_int c / 200 \<le> ?x" using n by (simp add: field_simps)
  then have "dbl (of_int c / 200) \<le> dbl ?x" using assms(4) by (intro dbl_mono) auto
  then have "dbl (dbl (of_int c / 200) * 100) \<le> dbl (dbl ?x * 100)"
    using assms(4) by (intro dbl_mono) (auto intro!: dbl_nonneg)
  moreover have "dbl (dbl (of_int c / 200) * 100) = of_int c / 2"
  proof -
    have "dbl (dbl (159 / 200) * 100) = 159 / 2" "dbl (dbl (199 / 200) * 100) = 199 / 2"
      unfolding dbl_thresholds(1,2) using dbl_thresholds(3,4) by simp_all
    then show ?thesis using assms(4) by (elim disjE) (simp_all only: of_int_numeral)
  qed
  ultimately show "of_int c / 2 \<le> dbl (dbl ?x * 100)" by simp
next
  let ?x = "of_int u / of_int n :: rat"
  have n: "0 < (of_int n :: rat)" "(of_int n :: rat) \<le> 10 ^ 12" using assms(2,3) by (simp, metis of_int_le_iff of_int_numeral of_int_power)
  have x0: "0 \<le> ?x" using assms(1) n by simp
  assume le: "of_int c / 2 \<le> dbl (dbl ?x * 100)"
  show "c * n \<le> 200 * u"
  proof (rule ccontr)
    assume "\<not> c * n \<le> 200 * u"
    then have "200 * u + 1 \<le> c * n" by simp
    then have "200 * (of_int u :: rat) + 1 \<le> of_int c * of_int n"
      by (metis (mono_tags, lifting) of_int_1 of_int_add of_int_le_iff of_int_mult of_int_numeral)
    then have small: "?x * 100 \<le> of_int c / 2 - 1 / (2 * of_int n)" using n by (simp add: field_simps)
    have gap: "1 / (2 * 10 ^ 12) \<le> 1 / (2 * (of_int n :: rat))" using n by (simp add: frac_le)
    let ?r = "1 + 1 / 2 ^ 53 :: rat"
    have "dbl (dbl ?x * 100) \<le> dbl ?x * 100 * ?r" using dbl_nonneg [OF x0] by (intro dbl_upper) simp
    also have "\<dots> \<le> ?x * ?r * 100 * ?r" using dbl_upper [OF x0] by (intro mult_right_mono) simp_all
    also have "\<dots> = (?x * 100) * (?r * ?r)" by simp
    also have "\<dots> \<le> (of_int c / 2 - 1 / (2 * 10 ^ 12)) * (?r * ?r)"
      using small gap by (intro mult_right_mono) simp_all
    also have "\<dots> < of_int c / 2" using assms(4) by auto
    finally show False using le by simp
  qed
qed

text \<open>
  The band of a usage is what its thresholds say, in whole numbers and through two roundings of
  doubles: for a limit up to a million million, full is reached from 99.5 percent of it on and the
  warning from 79.5 percent on, a usage at its limit is always full, and an unlimited one never warns.
\<close>

theorem usage_band_exact:
  assumes "0 \<le> used" "0 < n" "n \<le> 10 ^ 12"
  shows "usage_band_of used (Some n) =
      (if 199 * n \<le> 200 * used then FullBand else if 159 * n \<le> 200 * used then WarnBand else NoBand)
    \<and> (n \<le> used \<longrightarrow> usage_band_of used (Some n) = FullBand) \<and> usage_band_of used None = NoBand"
proof -
  let ?y = "dbl (dbl (of_int used / of_int n) * 100)"
  have round: "k \<le> js_round ?y \<longleftrightarrow> of_int (2 * k - 1) / 2 \<le> ?y" for k
    unfolding js_round_def le_floor_iff by (simp add: field_simps)
  have "usage_band_of used (Some n) =
      (if 199 * n \<le> 200 * used then FullBand else if 159 * n \<le> 200 * used then WarnBand else NoBand)"
    using assms(2) round [of 100] round [of 80] threshold_exact [OF assms, of 159] threshold_exact [OF assms, of 199]
    by (simp add: usage_band_of_def usage_percent_def usage_full_percent_def usage_warn_percent_def)
  then show ?thesis using assms(2) by (simp add: usage_band_of_def usage_percent_def)
qed

theorem usage_band_exact_witness: "usage_band_of 199 (Some 200) = FullBand \<and> usage_band_of 198 (Some 200) = WarnBand"
  using usage_band_exact [of 199 200] usage_band_exact [of 198 200] by simp

section \<open>What wins\<close>

definition last_entry :: "('a \<Rightarrow> ('k \<times> 'v) option) \<Rightarrow> 'k \<Rightarrow> 'a list \<Rightarrow> 'v option" where
  "last_entry g k xs =
     fold (\<lambda>x found. case g x of Some (k', v) \<Rightarrow> if k' = k then Some v else found | None \<Rightarrow> found) xs None"

lemma last_entry_simps:
  "last_entry g k [] = None"
  "last_entry g k (xs @ [x]) = (case g x of Some (k', v) \<Rightarrow> if k' = k then Some v else last_entry g k xs | None \<Rightarrow> last_entry g k xs)"
  by (auto simp: last_entry_def split: option.split)

lemma set_feature_fields [simp]:
  "re_limits (set_feature e r) = re_limits r"
  "re_features (set_feature e r) f = (case e of Some (f', on) \<Rightarrow> if f' = f then on else re_features r f | None \<Rightarrow> re_features r f)"
  by (auto simp: set_feature_def split: option.split)

lemma set_limit_fields [simp]:
  "re_features (set_limit e r) = re_features r"
  "re_limits (set_limit e r) l = (case e of Some (l', cap) \<Rightarrow> if l' = l then cap else re_limits r l | None \<Rightarrow> re_limits r l)"
  by (auto simp: set_limit_def split: option.split)

definition override_feature :: "resolvable_override \<Rightarrow> (feature_name \<times> bool) option" where
  "override_feature ov = (if ro_kind ov = FeatureOverride then feature_entry (ro_name ov) (ro_value ov) else None)"

definition override_limit :: "resolvable_override \<Rightarrow> (limit_name \<times> int option) option" where
  "override_limit ov = (if ro_kind ov = LimitOverride then limit_entry (ro_name ov) (ro_value ov) else None)"

lemma fold_features:
  "re_features (fold (\<lambda>(n, x). set_feature (feature_entry n x)) xs r) f
     = or_else (last_entry (\<lambda>(n, x). feature_entry n x) f xs) (re_features r f)"
  "re_limits (fold (\<lambda>(n, x). set_feature (feature_entry n x)) xs r) = re_limits r"
  by (induction xs rule: rev_induct) (auto simp: last_entry_simps split: option.split)

lemma fold_limits:
  "re_limits (fold (\<lambda>(n, x). set_limit (limit_entry n x)) xs r) l
     = or_else (last_entry (\<lambda>(n, x). limit_entry n x) l xs) (re_limits r l)"
  "re_features (fold (\<lambda>(n, x). set_limit (limit_entry n x)) xs r) = re_features r"
  by (induction xs rule: rev_induct) (auto simp: last_entry_simps split: option.split)

lemma fold_overrides:
  "re_features (fold apply_override ovs r) f = or_else (last_entry override_feature f ovs) (re_features r f)"
  "re_limits (fold apply_override ovs r) l = or_else (last_entry override_limit l ovs) (re_limits r l)"
  by (induction ovs rule: rev_induct)
     (auto simp: last_entry_simps apply_override_def override_feature_def override_limit_def
        split: option.split override_kind.split)

text \<open>
  What a workspace may do is decided by the last override that names it, and without one by the last
  entry of the plan's version, and without either it is off, or zero: a feature or a limit nobody granted
  is refused, an unknown name or a value of the wrong type grants nothing, and an override always beats
  the plan.
\<close>

theorem entitlement_precedence:
  "re_features (resolve_entitlements version overrides) f =
      or_else (last_entry override_feature f overrides)
        (case version of None \<Rightarrow> False
         | Some v \<Rightarrow> or_else (last_entry (\<lambda>(n, x). feature_entry n x) f (rv_features v)) False)
   \<and> re_limits (resolve_entitlements version overrides) l =
      or_else (last_entry override_limit l overrides)
        (case version of None \<Rightarrow> Some 0
         | Some v \<Rightarrow> or_else (last_entry (\<lambda>(n, x). limit_entry n x) l (rv_limits v)) (Some 0))"
  by (cases version)
     (simp_all add: resolve_entitlements_def fold_overrides apply_version_def fold_features fold_limits baseline_entitlements_def)

section \<open>The catalogue\<close>

datatype plan_visibility = Public | Hidden | Archived

record catalog_plan =
  cp_id :: string
  cp_key :: string
  cp_name :: string
  cp_sort :: int
  cp_visibility :: plan_visibility
  cp_version_id :: "string option"
  cp_version :: int
  cp_matrices :: resolvable_version
  cp_prices :: plan_prices
  cp_trial_days :: int
  cp_trial_card :: bool

definition all_features :: "bool list \<Rightarrow> (string \<times> plan_value) list" where
  "all_features bs = zip (map fst feature_names) (map Flag bs)"

definition all_limits :: "plan_value list \<Rightarrow> (string \<times> plan_value) list" where
  "all_limits ns = zip (map fst limit_names) ns"

definition inr_prices :: "int \<Rightarrow> int \<Rightarrow> plan_prices" where
  "inr_prices monthly yearly =
     \<lparr> pp_primary = PriceINR,
        pp_amounts = [(PriceMonthly, [(PriceINR, monthly * 100)]), (PriceYearly, [(PriceINR, yearly * 100)])] \<rparr>"

definition seed_plan :: "string \<Rightarrow> string \<Rightarrow> int \<Rightarrow> plan_visibility \<Rightarrow> bool list \<Rightarrow> plan_value list \<Rightarrow> plan_prices \<Rightarrow> catalog_plan" where
  "seed_plan key name pos vis fs ns prices =
     \<lparr> cp_id = ''seed:'' @ key, cp_key = key, cp_name = name, cp_sort = pos, cp_visibility = vis, cp_version_id = None,
        cp_version = 1, cp_matrices = \<lparr> rv_features = all_features fs, rv_limits = all_limits ns \<rparr>,
        cp_prices = prices, cp_trial_days = 0, cp_trial_card = True \<rparr>"

definition seed_plans :: "catalog_plan list" where
  "seed_plans =
     [seed_plan ''free'' ''Free'' 0 Public
        [False, False, True, False, False, True, False, True, False, False, True, False]
        [Count 50, Count 1000000, Count 0, Count 1, Count 1, Count 1, Count 0, Count 1] empty_plan_prices,
      seed_plan ''starter'' ''Starter'' 1 Public
        [True, True, True, False, False, True, True, True, False, True, True, True]
        [Count 500, Count 5000000, Count 1, Count 3, Count 3, Count 3, Count 3, Count 2] (inr_prices 59 590),
      seed_plan ''pro'' ''Pro'' 2 Public
        [True, True, True, True, True, True, True, True, True, True, True, True]
        [Count 10000, Count 25000000, Count 5, Count 10, Count 10, Count 25, Count 25, Count 3] (inr_prices 199 1990),
      seed_plan ''team'' ''Team'' 3 Public
        [True, True, True, True, True, True, True, True, True, True, True, True]
        [Count 100000, Count 100000000, Count 25, Count 50, Count 50, Count 100, Count 100, Count 5] (inr_prices 299 2990),
      seed_plan ''enterprise'' ''Enterprise'' 4 Hidden
        [True, True, True, True, True, True, True, True, True, True, True, True]
        [Unlimited, Unlimited, Count 1000, Unlimited, Unlimited, Unlimited, Unlimited, Count 7] empty_plan_prices]"

definition default_plan_key :: string where
  "default_plan_key = ''free''"

text \<open>Rows as the two tables hold them; a matrix or price that does not parse is \<open>None\<close>.\<close>

record plan_row =
  pr_id :: string
  pr_key :: string
  pr_name :: string
  pr_sort :: int
  pr_visibility :: plan_visibility
  pr_current :: "string option"
  pr_trial_days :: int
  pr_trial_card :: int

record version_row =
  vr_id :: string
  vr_plan :: string
  vr_version :: int
  vr_features :: "(string \<times> plan_value) list option"
  vr_limits :: "(string \<times> plan_value) list option"
  vr_pricing :: "plan_prices option"

definition version_matrices :: "version_row \<Rightarrow> resolvable_version" where
  "version_matrices v = \<lparr> rv_features = or_else (vr_features v) [], rv_limits = or_else (vr_limits v) [] \<rparr>"

definition parse_pricing :: "plan_prices option \<Rightarrow> plan_prices" where
  "parse_pricing raw = or_else raw empty_plan_prices"

definition load_plan :: "version_row list \<Rightarrow> plan_row \<Rightarrow> catalog_plan" where
  "load_plan versions p =
     (let current = (case pr_current p of None \<Rightarrow> None
                     | Some i \<Rightarrow> if i = [] then None else List.find (\<lambda>v. vr_id v = i) versions) in
      \<lparr> cp_id = pr_id p, cp_key = pr_key p, cp_name = pr_name p, cp_sort = pr_sort p, cp_visibility = pr_visibility p,
         cp_version_id = pr_current p,
         cp_version = (case current of None \<Rightarrow> 0 | Some v \<Rightarrow> vr_version v),
         cp_matrices = (case current of None \<Rightarrow> \<lparr> rv_features = [], rv_limits = [] \<rparr> | Some v \<Rightarrow> version_matrices v),
         cp_prices = (case current of None \<Rightarrow> empty_plan_prices | Some v \<Rightarrow> parse_pricing (vr_pricing v)),
         cp_trial_days = pr_trial_days p, cp_trial_card = (pr_trial_card p = 1) \<rparr>)"

definition load_catalog :: "plan_row list \<Rightarrow> version_row list \<Rightarrow> (string \<times> catalog_plan) list" where
  "load_catalog plans versions =
     fold (\<lambda>p. AList.update (js_lower (pr_key p)) (load_plan versions p)) plans []"

text \<open>\<open>by_locale\<close> orders plans by their keys as \<open>localeCompare\<close> does.\<close>

definition list_catalog :: "(catalog_plan list \<Rightarrow> catalog_plan list) \<Rightarrow> (string \<times> catalog_plan) list \<Rightarrow> catalog_plan list" where
  "list_catalog by_locale catalog =
     sort_key cp_sort (by_locale (if catalog \<noteq> [] then map snd catalog else seed_plans))"

definition get_by_key :: "(string \<times> catalog_plan) list \<Rightarrow> string \<Rightarrow> catalog_plan option" where
  "get_by_key catalog key =
     (let k = js_lower (js_trim key) in
      case map_of catalog k of
        Some p \<Rightarrow> Some p
      | None \<Rightarrow> if catalog \<noteq> [] then None else List.find (\<lambda>p. js_lower (cp_key p) = k) seed_plans)"

definition seed_by_key :: "string \<Rightarrow> catalog_plan option" where
  "seed_by_key k = List.find (\<lambda>p. cp_key p = k) seed_plans"

definition seed_version_for :: "string \<Rightarrow> resolvable_version option" where
  "seed_version_for key =
     map_option cp_matrices (case seed_by_key key of Some p \<Rightarrow> Some p | None \<Rightarrow> seed_by_key default_plan_key)"

definition free_or_baseline :: "(string \<times> catalog_plan) list \<Rightarrow> resolved_entitlements" where
  "free_or_baseline catalog =
     (case get_by_key catalog default_plan_key of
        Some p \<Rightarrow> resolve_entitlements (Some (cp_matrices p)) []
      | None \<Rightarrow>
          (case seed_by_key default_plan_key of
             Some p \<Rightarrow> resolve_entitlements (Some (cp_matrices p)) []
           | None \<Rightarrow> baseline_entitlements))"

definition version_by_id :: "version_row list \<Rightarrow> string \<Rightarrow> string \<Rightarrow> resolvable_version option" where
  "version_by_id versions plan_id version_id =
     map_option version_matrices (List.find (\<lambda>v. vr_plan v = plan_id \<and> vr_id v = version_id) versions)"

record override_row =
  or_kind :: string
  or_name :: string
  or_value :: plan_value
  or_expires :: "int option"

definition active_overrides :: "int \<Rightarrow> override_row list \<Rightarrow> resolvable_override list" where
  "active_overrides now rows =
     map (\<lambda>r. \<lparr> ro_kind = (if or_kind r = ''limit'' then LimitOverride else FeatureOverride), ro_name = or_name r, ro_value = or_value r \<rparr>)
       (List.filter (\<lambda>r. case or_expires r of None \<Rightarrow> True | Some t \<Rightarrow> now < t) rows)"

text \<open>A workspace: its plan and the version it is pinned to.\<close>

definition resolve_for_workspace :: "int \<Rightarrow> plan_row list \<Rightarrow> version_row list \<Rightarrow> override_row list
    \<Rightarrow> (string option \<times> string option) option \<Rightarrow> resolved_entitlements" where
  "resolve_for_workspace now plans versions overrides ws =
     (let catalog = load_catalog plans versions in
      case ws of
        None \<Rightarrow> free_or_baseline catalog
      | Some (plan, pinned) \<Rightarrow>
          let key = js_lower (js_trim (or_else plan []));
              version =
                (case (if key = [] then None else map_of catalog key) of
                   Some p \<Rightarrow>
                     (case (case pinned of None \<Rightarrow> None | Some i \<Rightarrow> if i = [] then None else version_by_id versions (cp_id p) i) of
                        Some v \<Rightarrow> Some v | None \<Rightarrow> Some (cp_matrices p))
                 | None \<Rightarrow> seed_version_for key)
          in resolve_entitlements version (active_overrides now overrides))"

section \<open>Enforcement\<close>

text \<open>The refusals, with what their message names: the feature or the limit and its cap, and the upgrade.\<close>

datatype entitlement_refusal = FeatureRefused feature_name "string option" | LimitRefused limit_name "int option" "string option"

definition has_feature :: "resolved_entitlements \<Rightarrow> feature_name \<Rightarrow> bool" where
  "has_feature r f = re_features r f"

text \<open>A plan's own entry; \<open>None\<close> when the matrix has none.\<close>

definition plan_feature :: "catalog_plan \<Rightarrow> feature_name \<Rightarrow> bool" where
  "plan_feature p f = (last_entry (\<lambda>(n, x). feature_entry n x) f (rv_features (cp_matrices p)) = Some True)"

definition plan_limit :: "catalog_plan \<Rightarrow> limit_name \<Rightarrow> int option option" where
  "plan_limit p l = last_entry (\<lambda>(n, x). limit_entry n x) l (rv_limits (cp_matrices p))"

definition cheapest_plan_with_feature :: "catalog_plan list \<Rightarrow> feature_name \<Rightarrow> string option" where
  "cheapest_plan_with_feature catalog f =
     map_option cp_name (List.find (\<lambda>p. cp_visibility p \<noteq> Archived \<and> plan_feature p f) catalog)"

definition has_higher_limit :: "limit_name \<Rightarrow> int \<Rightarrow> catalog_plan \<Rightarrow> bool" where
  "has_higher_limit l current_cap p =
     (cp_visibility p \<noteq> Archived
      \<and> (case plan_limit p l of None \<Rightarrow> False | Some None \<Rightarrow> True | Some (Some n) \<Rightarrow> current_cap < n))"

definition cheapest_plan_with_higher_limit :: "catalog_plan list \<Rightarrow> limit_name \<Rightarrow> int \<Rightarrow> string option" where
  "cheapest_plan_with_higher_limit catalog l current_cap =
     map_option cp_name (List.find (has_higher_limit l current_cap) catalog)"

definition assert_feature :: "catalog_plan list \<Rightarrow> resolved_entitlements \<Rightarrow> feature_name \<Rightarrow> entitlement_refusal option" where
  "assert_feature catalog r f =
     (if has_feature r f then None else Some (FeatureRefused f (cheapest_plan_with_feature catalog f)))"

definition assert_within_limit :: "catalog_plan list \<Rightarrow> resolved_entitlements \<Rightarrow> limit_name \<Rightarrow> int \<Rightarrow> entitlement_refusal option" where
  "assert_within_limit catalog r l count =
     (let cap = re_limits r l in
      if \<not> exceeds_limit cap count then None
      else Some (LimitRefused l cap (cheapest_plan_with_higher_limit catalog l (or_else cap 0))))"

lemma find_split:
  "List.find P xs = Some p \<Longrightarrow> \<exists>before after. xs = before @ p # after \<and> P p \<and> (\<forall>q \<in> set before. \<not> P q)"
proof (induction xs)
  case (Cons x xs)
  show ?case
  proof (cases "P x")
    case True
    then show ?thesis using Cons.prems by (intro exI [of _ "[]"] exI [of _ xs]) simp
  next
    case False
    then obtain before after where "xs = before @ p # after" "P p" "\<forall>q \<in> set before. \<not> P q" using Cons by auto
    then show ?thesis using False by (intro exI [of _ "x # before"] exI [of _ after]) simp
  qed
qed simp

lemma higher_limitD:
  "has_higher_limit l c p \<Longrightarrow>
     cp_visibility p \<noteq> Archived \<and> (plan_limit p l = Some None \<or> (\<exists>n > c. plan_limit p l = Some (Some n)))"
  "\<not> has_higher_limit l c q \<Longrightarrow>
     cp_visibility q = Archived \<or> (\<forall>v. plan_limit q l = Some v \<longrightarrow> (\<exists>n. v = Some n \<and> n \<le> c))"
  by (auto simp: has_higher_limit_def split: option.splits)

text \<open>
  The upgrade a refusal names would help: one more is refused exactly when the count has reached a
  finite cap, and the plan it then names is one of the catalogue, not archived, whose own cap is higher or
  unlimited, with no plan before it in the catalogue's order that would do.
\<close>

theorem limit_refusal_helps:
  "(assert_within_limit catalog r l count = None) = (\<forall>cap. re_limits r l = Some cap \<longrightarrow> count < cap)
   \<and> (\<forall>cap name. assert_within_limit catalog r l count = Some (LimitRefused l cap (Some name)) \<longrightarrow>
        (\<exists>c before p after. cap = Some c \<and> c \<le> count \<and> catalog = before @ p # after \<and> cp_name p = name
           \<and> cp_visibility p \<noteq> Archived \<and> (plan_limit p l = Some None \<or> (\<exists>n > c. plan_limit p l = Some (Some n)))
           \<and> (\<forall>q \<in> set before. cp_visibility q = Archived
                \<or> (\<forall>v. plan_limit q l = Some v \<longrightarrow> (\<exists>n. v = Some n \<and> n \<le> c)))))"
proof (intro conjI allI impI)
  show "(assert_within_limit catalog r l count = None) = (\<forall>cap. re_limits r l = Some cap \<longrightarrow> count < cap)"
    by (auto simp: assert_within_limit_def exceeds_limit_def Let_def split: option.splits)
next
  fix cap name
  assume a: "assert_within_limit catalog r l count = Some (LimitRefused l cap (Some name))"
  then have ex: "exceeds_limit (re_limits r l) count" "cap = re_limits r l"
    by (auto simp: assert_within_limit_def Let_def split: if_splits)
  then obtain c where c: "cap = Some c" "c \<le> count" by (cases "re_limits r l") (auto simp: exceeds_limit_def)
  have re: "re_limits r l = Some c" using ex(2) c(1) by simp
  have "cheapest_plan_with_higher_limit catalog l c = Some name"
    using a ex(1) by (simp add: assert_within_limit_def Let_def re)
  then obtain p where p: "List.find (has_higher_limit l c) catalog = Some p" "cp_name p = name"
    unfolding cheapest_plan_with_higher_limit_def by blast
  obtain before after where parts: "catalog = before @ p # after" "has_higher_limit l c p"
    "\<forall>q \<in> set before. \<not> has_higher_limit l c q"
    using find_split [OF p(1)] by blast
  note helps = higher_limitD(1) [OF parts(2)]
  have first: "\<forall>q \<in> set before. cp_visibility q = Archived \<or> (\<forall>v. plan_limit q l = Some v \<longrightarrow> (\<exists>n. v = Some n \<and> n \<le> c))"
    by (intro ballI higher_limitD(2)) (use parts(3) in blast)
  show "\<exists>c before p after. cap = Some c \<and> c \<le> count \<and> catalog = before @ p # after \<and> cp_name p = name
      \<and> cp_visibility p \<noteq> Archived \<and> (plan_limit p l = Some None \<or> (\<exists>n > c. plan_limit p l = Some (Some n)))
      \<and> (\<forall>q \<in> set before. cp_visibility q = Archived \<or> (\<forall>v. plan_limit q l = Some v \<longrightarrow> (\<exists>n. v = Some n \<and> n \<le> c)))"
    by (intro exI [of _ c] exI [of _ before] exI [of _ p] exI [of _ after] conjI c p(2) parts(1)
        helps [THEN conjunct1] helps [THEN conjunct2] first)
qed

text \<open>The plan named to a workspace of the largest public plan is one it cannot choose.\<close>

lemma hidden_plan_named: "cheapest_plan_with_higher_limit seed_plans LCustomDomains 25 = Some ''Enterprise''"
  by code_simp

definition at_most_limit :: "int option \<Rightarrow> int option \<Rightarrow> bool" where
  "at_most_limit a b = (case (a, b) of (_, None) \<Rightarrow> True | (None, Some n) \<Rightarrow> False | (Some m, Some n) \<Rightarrow> m \<le> n)"

definition every_feature :: "feature_name list" where
  "every_feature = map snd feature_names"

definition every_limit :: "limit_name list" where
  "every_limit = map snd limit_names"

lemma every_name: "f \<in> set every_feature" "l \<in> set every_limit"
  by (cases f; simp add: every_feature_def feature_names_def) (cases l; simp add: every_limit_def limit_names_def)

definition grows :: "catalog_plan \<Rightarrow> catalog_plan \<Rightarrow> bool" where
  "grows p q =
     (let a = resolve_entitlements (Some (cp_matrices p)) []; b = resolve_entitlements (Some (cp_matrices q)) [] in
      list_all (\<lambda>f. re_features a f \<longrightarrow> re_features b f) every_feature
      \<and> list_all (\<lambda>l. at_most_limit (re_limits a l) (re_limits b l)) every_limit)"

lemma seed_grows: "list_all (\<lambda>i. list_all (\<lambda>j. i \<le> j \<longrightarrow> grows (seed_plans ! i) (seed_plans ! j)) [0, 1, 2, 3, 4]) [0, 1, 2, 3, 4]"
  by code_simp

lemma growsD:
  assumes "grows p q"
  shows "(re_features (resolve_entitlements (Some (cp_matrices p)) []) f
      \<longrightarrow> re_features (resolve_entitlements (Some (cp_matrices q)) []) f)
    \<and> at_most_limit (re_limits (resolve_entitlements (Some (cp_matrices p)) []) l)
        (re_limits (resolve_entitlements (Some (cp_matrices q)) []) l)"
  using assms every_name unfolding grows_def Let_def list_all_iff by blast

text \<open>
  Upgrading never takes anything away: along the seed catalogue's order, every feature of a plan is a
  feature of every later one, and every limit of a plan is at most that of every later one.
\<close>

theorem seed_upgrades_keep_everything:
  assumes "i \<le> j" "j < length seed_plans"
    and "a = resolve_entitlements (Some (cp_matrices (seed_plans ! i))) []"
    and "b = resolve_entitlements (Some (cp_matrices (seed_plans ! j))) []"
  shows "(re_features a f \<longrightarrow> re_features b f)
    \<and> (case (re_limits a l, re_limits b l) of (_, None) \<Rightarrow> True | (None, Some n) \<Rightarrow> False | (Some m, Some n) \<Rightarrow> m \<le> n)"
proof -
  have "length seed_plans = 5" by (simp add: seed_plans_def)
  then have "i \<in> set [0, 1, 2, 3, 4]" "j \<in> set [0, 1, 2, 3, 4]" using assms(1,2) by auto
  then have "grows (seed_plans ! i) (seed_plans ! j)"
    using seed_grows assms(1) unfolding list_all_iff by blast
  from growsD [OF this] show ?thesis unfolding assms(3,4) at_most_limit_def by blast
qed

theorem seed_upgrades_keep_everything_witness:
  "re_features (resolve_entitlements (Some (cp_matrices (seed_plans ! 2))) []) FWebhooks
   \<longrightarrow> re_features (resolve_entitlements (Some (cp_matrices (seed_plans ! 3))) []) FWebhooks"
  using seed_upgrades_keep_everything [of 2 3, OF _ _ refl refl, of FWebhooks LLinks] by (simp add: seed_plans_def)

text \<open>
  An operator's edit of the free plan does not reach everybody: a workspace whose plan key is empty or
  unknown resolves to the free plan compiled into the service, whatever the free plan of the catalogue
  now says, while a workspace that is not found resolves to the catalogue's.
\<close>

theorem unknown_plan_ignores_edited_free:
  assumes "map_of (load_catalog plans versions) (js_lower (js_trim key)) = None"
    and "seed_by_key (js_lower (js_trim key)) = None"
  shows "resolve_for_workspace now plans versions overrides (Some (Some key, pinned))
    = resolve_entitlements (map_option cp_matrices (seed_by_key default_plan_key)) (active_overrides now overrides)"
  using assms by (auto simp: resolve_for_workspace_def Let_def seed_version_for_def)

definition edited_free :: "plan_row list \<times> version_row list" where
  "edited_free =
     ([\<lparr> pr_id = ''p'', pr_key = ''free'', pr_name = ''Free'', pr_sort = 0, pr_visibility = Public, pr_current = Some ''v'',
          pr_trial_days = 0, pr_trial_card = 1 \<rparr>],
      [\<lparr> vr_id = ''v'', vr_plan = ''p'', vr_version = 2, vr_features = Some [], vr_limits = Some [(''links'', Count 10)],
          vr_pricing = None \<rparr>])"

theorem unknown_plan_ignores_edited_free_witness:
  "re_limits (resolve_for_workspace 0 (fst edited_free) (snd edited_free) [] (Some (Some ''gone'', None))) LLinks = Some 50
   \<and> re_limits (resolve_for_workspace 0 (fst edited_free) (snd edited_free) [] None) LLinks = Some 10"
proof -
  have none: "map_of (load_catalog (fst edited_free) (snd edited_free)) (js_lower (js_trim ''gone'')) = None"
    "seed_by_key (js_lower (js_trim ''gone'')) = None"
    unfolding edited_free_def by code_simp+
  have "re_limits (resolve_entitlements (map_option cp_matrices (seed_by_key default_plan_key)) (active_overrides 0 [])) LLinks = Some 50"
    by code_simp
  moreover have "re_limits (resolve_for_workspace 0 (fst edited_free) (snd edited_free) [] None) LLinks = Some 10"
    unfolding edited_free_def by code_simp
  ultimately show ?thesis using unknown_plan_ignores_edited_free [OF none, of 0 "[]" None] by simp
qed

section \<open>Usage warnings\<close>

definition countable_limits :: "limit_name list" where
  "countable_limits = [LLinks, LClicksPerMonth, LCustomDomains, LTeamMembers, LApiKeys, LBioPages, LForms]"

record warning_row =
  wn_band :: usage_band
  wn_notified :: "int option"
  wn_updated :: int

record usage_row =
  us_name :: limit_name
  us_label :: string
  us_used :: int
  us_limit :: "int option"
  us_percent :: "int option"

text \<open>One limit: its active warning, its email, and the stored row.\<close>

definition evaluate_limit :: "int \<Rightarrow> resolved_entitlements \<Rightarrow> (limit_name \<Rightarrow> int) \<Rightarrow> limit_name
    \<Rightarrow> (limit_name \<rightharpoonup> warning_row) \<Rightarrow> (limit_name \<times> usage_band) list \<times> (limit_name \<times> usage_band) list \<times> (limit_name \<rightharpoonup> warning_row)" where
  "evaluate_limit now r counts l rows =
     (let band = usage_band_of (counts l) (re_limits r l); prev = rows l in
      if band = NoBand then ([], [], rows(l := None))
      else
        let notified = (case prev of None \<Rightarrow> None | Some w \<Rightarrow> if wn_band w = band then wn_notified w else None) in
        ([(l, band)], if notified = None then [(l, band)] else [],
         rows(l \<mapsto> \<lparr> wn_band = band, wn_notified = Some (or_else notified now), wn_updated = now \<rparr>)))"

fun evaluate_limits :: "int \<Rightarrow> resolved_entitlements \<Rightarrow> (limit_name \<Rightarrow> int) \<Rightarrow> limit_name list
    \<Rightarrow> (limit_name \<rightharpoonup> warning_row) \<Rightarrow> (limit_name \<times> usage_band) list \<times> (limit_name \<times> usage_band) list \<times> (limit_name \<rightharpoonup> warning_row)" where
  "evaluate_limits now r counts [] rows = ([], [], rows)"
| "evaluate_limits now r counts (l # ls) rows =
     (case evaluate_limit now r counts l rows of
        (active, emails, rows') \<Rightarrow>
          (case evaluate_limits now r counts ls rows' of
             (active', emails', rows'') \<Rightarrow> (active @ active', emails @ emails', rows'')))"

text \<open>The messages to the owners: one for each active owner when something was crossed.\<close>

definition email_owners :: "string list \<Rightarrow> (limit_name \<times> usage_band) list \<Rightarrow> (string \<times> (limit_name \<times> usage_band) list) list" where
  "email_owners owners crossed = (if crossed = [] then [] else map (\<lambda>o'. (o', crossed)) owners)"

definition evaluate_warnings :: "int \<Rightarrow> string list \<Rightarrow> resolved_entitlements \<Rightarrow> (limit_name \<Rightarrow> int) \<Rightarrow> (limit_name \<rightharpoonup> warning_row)
    \<Rightarrow> (limit_name \<times> usage_band) list \<times> (string \<times> (limit_name \<times> usage_band) list) list \<times> (limit_name \<rightharpoonup> warning_row)" where
  "evaluate_warnings now owners r counts rows =
     (case evaluate_limits now r counts countable_limits rows of
        (active, crossed, rows') \<Rightarrow> (active, email_owners owners crossed, rows'))"

definition usage_for :: "int \<Rightarrow> string list \<Rightarrow> resolved_entitlements \<Rightarrow> (limit_name \<Rightarrow> int) \<Rightarrow> (limit_name \<rightharpoonup> warning_row)
    \<Rightarrow> usage_row list \<times> (limit_name \<times> string \<times> usage_band) list" where
  "usage_for now owners r counts rows =
     (map (\<lambda>l. \<lparr> us_name = l, us_label = limit_label l, us_used = counts l, us_limit = re_limits r l,
                  us_percent = usage_percent (counts l) (re_limits r l) \<rparr>) countable_limits,
      map (\<lambda>(l, b). (l, limit_label l, b)) (fst (evaluate_warnings now owners r counts rows)))"

definition next_row :: "int \<Rightarrow> usage_band \<Rightarrow> warning_row option \<Rightarrow> warning_row option" where
  "next_row now band prev =
     (if band = NoBand then None
      else Some \<lparr> wn_band = band,
                  wn_notified = Some (or_else (case prev of None \<Rightarrow> None | Some w \<Rightarrow> if wn_band w = band then wn_notified w else None) now),
                  wn_updated = now \<rparr>)"

definition told :: "usage_band \<Rightarrow> warning_row option \<Rightarrow> bool" where
  "told band prev = (\<exists>w. prev = Some w \<and> wn_band w = band \<and> wn_notified w \<noteq> None)"

lemma evaluate_limit_parts:
  "evaluate_limit now r counts l rows =
     (let band = usage_band_of (counts l) (re_limits r l) in
      (if band = NoBand then [] else [(l, band)], if band = NoBand \<or> told band (rows l) then [] else [(l, band)],
       rows(l := next_row now band (rows l))))"
  by (auto simp: evaluate_limit_def Let_def next_row_def told_def split: option.split)

lemma evaluate_limits_parts:
  fixes r counts
  assumes "distinct ls"
  defines "band \<equiv> \<lambda>l. usage_band_of (counts l) (re_limits r l)"
  shows "evaluate_limits now r counts ls rows =
     (concat (map (\<lambda>l. if band l = NoBand then [] else [(l, band l)]) ls),
      concat (map (\<lambda>l. if band l = NoBand \<or> told (band l) (rows l) then [] else [(l, band l)]) ls),
      \<lambda>l. if l \<in> set ls then next_row now (band l) (rows l) else rows l)"
  using assms(1)
proof (induction ls arbitrary: rows)
  case (Cons l ls)
  let ?rows = "rows(l := next_row now (band l) (rows l))"
  have same: "\<forall>k \<in> set ls. ?rows k = rows k" using Cons.prems by auto
  have "evaluate_limits now r counts ls ?rows =
     (concat (map (\<lambda>l. if band l = NoBand then [] else [(l, band l)]) ls),
      concat (map (\<lambda>l. if band l = NoBand \<or> told (band l) (rows l) then [] else [(l, band l)]) ls),
      \<lambda>k. if k \<in> set (l # ls) then next_row now (band k) (rows k) else rows k)"
    using Cons same by (auto cong: map_cong intro!: arg_cong [where f = concat] ext)
  then show ?case
    unfolding evaluate_limits.simps evaluate_limit_parts Let_def by (simp add: band_def)
qed simp

lemma countable_distinct: "distinct countable_limits"
  by (simp add: countable_limits_def)

text \<open>
  Owners are told once: a check's active warnings are exactly the limits whose usage has reached a
  band, and a later check of the same usage reports the same warnings and sends no mail.
\<close>

theorem warnings_sent_once:
  assumes "evaluate_warnings now owners r counts rows = (active, mails, rows')"
    and "evaluate_warnings later owners r counts rows' = (active', mails', rows'')"
  shows "set active = {(l, b). l \<in> set countable_limits \<and> b = usage_band_of (counts l) (re_limits r l) \<and> b \<noteq> NoBand}
    \<and> active' = active \<and> mails' = []"
proof -
  let ?b = "\<lambda>l. usage_band_of (counts l) (re_limits r l)"
  let ?act = "concat (map (\<lambda>l. if ?b l = NoBand then [] else [(l, ?b l)]) countable_limits)"
  have first: "active = ?act"
    "rows' = (\<lambda>l. if l \<in> set countable_limits then next_row now (?b l) (rows l) else rows l)"
    using assms(1) by (auto simp: evaluate_warnings_def evaluate_limits_parts [OF countable_distinct])
  have told: "told (?b l) (rows' l)" if "l \<in> set countable_limits" "?b l \<noteq> NoBand" for l
    using that by (simp add: first(2) told_def next_row_def)
  have none: "concat (map (\<lambda>l. if ?b l = NoBand \<or> told (?b l) (rows' l) then [] else [(l, ?b l)]) countable_limits) = []"
    using told by auto
  have "active' = ?act" "mails' = email_owners owners []"
    using assms(2) by (simp_all only: evaluate_warnings_def evaluate_limits_parts [OF countable_distinct] none) simp_all
  then show ?thesis using first(1) by (auto simp: email_owners_def)
qed

definition nine_of_ten :: resolved_entitlements where
  "nine_of_ten = baseline_entitlements\<lparr>re_limits := (\<lambda>l. Some 10)\<rparr>"

theorem warnings_sent_once_witness:
  "fst (snd (evaluate_warnings 2 [''o''] nine_of_ten (\<lambda>l. 9) (snd (snd (evaluate_warnings 1 [''o''] nine_of_ten (\<lambda>l. 9) Map.empty))))) = []"
proof -
  obtain a m rs where one: "evaluate_warnings 1 [''o''] nine_of_ten (\<lambda>l. 9) Map.empty = (a, m, rs)" by (metis prod.collapse)
  obtain a' m' rs' where two: "evaluate_warnings 2 [''o''] nine_of_ten (\<lambda>l. 9) rs = (a', m', rs')" by (metis prod.collapse)
  show ?thesis using warnings_sent_once [OF one two] one two by simp
qed

text \<open>A limit that falls from full back to the warning band is mailed again, though nothing was crossed upwards.\<close>

lemma falling_band_mailed:
  "rows l = Some \<lparr> wn_band = FullBand, wn_notified = Some t, wn_updated = t \<rparr>
   \<Longrightarrow> usage_band_of (counts l) (re_limits r l) = WarnBand
   \<Longrightarrow> fst (snd (evaluate_limit now r counts l rows)) = [(l, WarnBand)]"
  by (simp add: evaluate_limit_parts Let_def told_def)

end
