(* ===== verification/Tokens.thy ===== *)
theory Tokens
  imports Redirect_Props
begin

text \<open>
  The tokens of a session (\<open>apps/api/src/auth/token.service.ts\<close>): the signed tokens and what each
  verifier accepts, the refresh tokens with their rotation and reuse detection, and the single-use tokens
  of a password reset and an email verification. The signature check, the digest, the random tokens and
  the row ids are parameters; times are milliseconds. Requests one after another are a step relation;
  \<open>examine\<close> and \<open>finish_rotation\<close> are the two halves of a rotation between which another request can run.
\<close>

section \<open>Signed tokens\<close>

text \<open>The claims of a token whose signature and expiry were checked; a claim is a text or something else.\<close>

datatype claim_value = ClaimText string | ClaimOther

type_synonym jwt_claims = "string \<rightharpoonup> claim_value"

definition text_claim :: "jwt_claims \<Rightarrow> string \<Rightarrow> string option" where
  "text_claim c k = (case c k of Some (ClaimText s) \<Rightarrow> Some s | _ \<Rightarrow> None)"

record access_claims =
  ac_sub :: string
  ac_wid :: string
  ac_role :: string
  ac_email :: string

definition access_payload :: "access_claims \<Rightarrow> jwt_claims" where
  "access_payload a =
     [''sub'' \<mapsto> ClaimText (ac_sub a), ''wid'' \<mapsto> ClaimText (ac_wid a), ''role'' \<mapsto> ClaimText (ac_role a),
      ''email'' \<mapsto> ClaimText (ac_email a), ''purpose'' \<mapsto> ClaimText ''access'']"

definition challenge_payload :: "string \<Rightarrow> jwt_claims" where
  "challenge_payload user = [''sub'' \<mapsto> ClaimText user, ''purpose'' \<mapsto> ClaimText ''totp'']"

definition unlock_payload :: "string \<Rightarrow> jwt_claims" where
  "unlock_payload link = [''sub'' \<mapsto> ClaimText link, ''purpose'' \<mapsto> ClaimText ''unlock'']"

definition access_rejected :: string where
  "access_rejected = ''Your session has expired. Sign in again to continue.''"

definition verify_access_token :: "(string \<Rightarrow> jwt_claims option) \<Rightarrow> string \<Rightarrow> string + access_claims" where
  "verify_access_token jwt token =
     (case jwt token of
        None \<Rightarrow> Inl access_rejected
      | Some c \<Rightarrow>
          if c ''purpose'' \<noteq> None \<and> c ''purpose'' \<noteq> Some (ClaimText ''access'') then Inl access_rejected
          else (case (text_claim c ''sub'', text_claim c ''wid'', text_claim c ''role'', text_claim c ''email'') of
                  (Some s, Some w, Some r, Some e) \<Rightarrow> Inr \<lparr> ac_sub = s, ac_wid = w, ac_role = r, ac_email = e \<rparr>
                | _ \<Rightarrow> Inl access_rejected))"

definition verify_challenge_token :: "(string \<Rightarrow> jwt_claims option) \<Rightarrow> string \<Rightarrow> string + claim_value option" where
  "verify_challenge_token jwt token =
     (case jwt token of
        None \<Rightarrow> Inl ''That sign-in attempt timed out. Start again.''
      | Some c \<Rightarrow>
          if c ''purpose'' \<noteq> Some (ClaimText ''totp'') then Inl ''That sign-in attempt timed out. Start again.''
          else Inr (c ''sub''))"

text \<open>What the redirect service reads of a token.\<close>

definition unlock_view :: "jwt_claims \<Rightarrow> claims" where
  "unlock_view c = \<lparr> claim_sub = text_claim c ''sub'', claim_purpose = text_claim c ''purpose'' \<rparr>"

section \<open>Refresh tokens\<close>

record refresh_row =
  rf_id :: string
  rf_user :: string
  rf_family :: string
  rf_hash :: string
  rf_expires :: int
  rf_revoked :: "int option"
  rf_replaced :: "string option"
  rf_agent :: "string option"

definition day_in_ms :: int where
  "day_in_ms = 86400000"

definition duplicate_key :: string where
  "duplicate_key = ''duplicate key value violates unique constraint''"

text \<open>\<open>issueRefreshToken\<close>; the index on the digest is unique, so a second row of a token is refused.\<close>

definition issue_refresh_token :: "int \<Rightarrow> int \<Rightarrow> (string \<Rightarrow> string) \<Rightarrow> string \<Rightarrow> string \<Rightarrow> string \<Rightarrow> string \<Rightarrow> string option
    \<Rightarrow> refresh_row list \<Rightarrow> string + refresh_row list" where
  "issue_refresh_token now ttl_days dig row_id token user family agent rows =
     (if list_ex (\<lambda>r. rf_hash r = dig token \<or> rf_id r = row_id) rows then Inl duplicate_key
      else Inr (rows @ [\<lparr> rf_id = row_id, rf_user = user, rf_family = family, rf_hash = dig token,
                          rf_expires = now + ttl_days * day_in_ms, rf_revoked = None, rf_replaced = None,
                          rf_agent = agent \<rparr>]))"

definition revoke_where :: "(refresh_row \<Rightarrow> bool) \<Rightarrow> int \<Rightarrow> refresh_row list \<Rightarrow> refresh_row list" where
  "revoke_where p now rows = map (\<lambda>r. if p r \<and> rf_revoked r = None then r\<lparr>rf_revoked := Some now\<rparr> else r) rows"

definition revoke_family :: "int \<Rightarrow> string \<Rightarrow> refresh_row list \<Rightarrow> refresh_row list" where
  "revoke_family now family rows = revoke_where (\<lambda>r. rf_family r = family) now rows"

definition revoke_all_for_user :: "int \<Rightarrow> string \<Rightarrow> refresh_row list \<Rightarrow> refresh_row list" where
  "revoke_all_for_user now user rows = revoke_where (\<lambda>r. rf_user r = user) now rows"

definition find_token :: "(string \<Rightarrow> string) \<Rightarrow> string \<Rightarrow> refresh_row list \<Rightarrow> refresh_row option" where
  "find_token dig token rows = find (\<lambda>r. rf_hash r = dig token) rows"

definition revoke_by_token :: "int \<Rightarrow> (string \<Rightarrow> string) \<Rightarrow> string \<Rightarrow> refresh_row list \<Rightarrow> refresh_row list" where
  "revoke_by_token now dig token rows =
     (case find_token dig token rows of None \<Rightarrow> rows | Some r \<Rightarrow> revoke_family now (rf_family r) rows)"

text \<open>What \<open>rotate\<close> finds out before it writes.\<close>

datatype rotation = Rejected string | Replayed string | Rotatable refresh_row

definition reuse_message :: string where
  "reuse_message = ''That session was already used, so we've signed out every device for safety. Sign in again.''"

definition examine :: "int \<Rightarrow> (string \<Rightarrow> string) \<Rightarrow> string \<Rightarrow> refresh_row list \<Rightarrow> rotation" where
  "examine now dig token rows =
     (case find_token dig token rows of
        None \<Rightarrow> Rejected ''That session is no longer valid. Sign in again.''
      | Some r \<Rightarrow>
          if rf_replaced r \<noteq> None then Replayed (rf_family r)
          else if rf_revoked r \<noteq> None then Rejected ''That session was signed out. Sign in again.''
          else if rf_expires r \<le> now then Rejected ''That session has expired. Sign in again.''
          else Rotatable r)"

definition finish_rotation :: "int \<Rightarrow> int \<Rightarrow> (string \<Rightarrow> string) \<Rightarrow> string \<Rightarrow> string \<Rightarrow> string option \<Rightarrow> refresh_row
    \<Rightarrow> refresh_row list \<Rightarrow> (string + string \<times> string) \<times> refresh_row list" where
  "finish_rotation now ttl_days dig row_id fresh agent r rows =
     (case issue_refresh_token now ttl_days dig row_id fresh (rf_user r) (rf_family r) agent rows of
        Inl e \<Rightarrow> (Inl e, rows)
      | Inr rows' \<Rightarrow>
          (Inr (rf_user r, fresh),
           map (\<lambda>r'. if rf_id r' = rf_id r
                     then r'\<lparr>rf_replaced := map_option rf_id (find_token dig fresh rows'), rf_revoked := Some now\<rparr>
                     else r') rows'))"

definition rotate_token :: "int \<Rightarrow> int \<Rightarrow> (string \<Rightarrow> string) \<Rightarrow> string \<Rightarrow> string \<Rightarrow> string option \<Rightarrow> string
    \<Rightarrow> refresh_row list \<Rightarrow> (string + string \<times> string) \<times> refresh_row list" where
  "rotate_token now ttl_days dig row_id fresh agent token rows =
     (case examine now dig token rows of
        Rejected msg \<Rightarrow> (Inl msg, rows)
      | Replayed family \<Rightarrow> (Inl reuse_message, revoke_family now family rows)
      | Rotatable r \<Rightarrow> finish_rotation now ttl_days dig row_id fresh agent r rows)"

section \<open>Single-use tokens\<close>

record single_use =
  su_id :: string
  su_user :: string
  su_hash :: string
  su_expires :: int
  su_used :: "int option"

text \<open>The two statements of the transaction that issues one.\<close>

definition supersede_tokens :: "int \<Rightarrow> string \<Rightarrow> single_use list \<Rightarrow> single_use list" where
  "supersede_tokens now user rows =
     map (\<lambda>r. if su_user r = user \<and> su_used r = None then r\<lparr>su_used := Some now\<rparr> else r) rows"

definition insert_token :: "int \<Rightarrow> int \<Rightarrow> (string \<Rightarrow> string) \<Rightarrow> string \<Rightarrow> string \<Rightarrow> string \<Rightarrow> single_use list
    \<Rightarrow> string + single_use list" where
  "insert_token now ttl dig row_id token user rows =
     (if list_ex (\<lambda>r. su_hash r = dig token \<or> su_id r = row_id) rows then Inl duplicate_key
      else Inr (rows @ [\<lparr> su_id = row_id, su_user = user, su_hash = dig token, su_expires = now + ttl, su_used = None \<rparr>]))"

definition issue_single_use :: "int \<Rightarrow> int \<Rightarrow> (string \<Rightarrow> string) \<Rightarrow> string \<Rightarrow> string \<Rightarrow> string \<Rightarrow> single_use list
    \<Rightarrow> (string + string) \<times> single_use list" where
  "issue_single_use now ttl dig row_id token user rows =
     (case insert_token now ttl dig row_id token user (supersede_tokens now user rows) of
        Inl e \<Rightarrow> (Inl e, rows)
      | Inr rows' \<Rightarrow> (Inr token, rows'))"

definition reset_ttl_ms :: int where
  "reset_ttl_ms = 3600000"

definition verification_ttl_ms :: int where
  "verification_ttl_ms = 24 * 3600000"

definition issue_password_reset_token :: "int \<Rightarrow> (string \<Rightarrow> string) \<Rightarrow> string \<Rightarrow> string \<Rightarrow> string \<Rightarrow> single_use list
    \<Rightarrow> (string + string) \<times> single_use list" where
  "issue_password_reset_token now dig row_id token user rows = issue_single_use now reset_ttl_ms dig row_id token user rows"

definition issue_email_verification_token :: "int \<Rightarrow> (string \<Rightarrow> string) \<Rightarrow> string \<Rightarrow> string \<Rightarrow> string \<Rightarrow> single_use list
    \<Rightarrow> (string + string) \<times> single_use list" where
  "issue_email_verification_token now dig row_id token user rows =
     issue_single_use now verification_ttl_ms dig row_id token user rows"

definition usable :: "int \<Rightarrow> single_use \<Rightarrow> bool" where
  "usable now r = (su_used r = None \<and> now < su_expires r)"

definition consume_single_use :: "string \<Rightarrow> int \<Rightarrow> (string \<Rightarrow> string) \<Rightarrow> string \<Rightarrow> single_use list
    \<Rightarrow> (string + string) \<times> single_use list" where
  "consume_single_use refusal now dig token rows =
     (let mine = (\<lambda>r. su_hash r = dig token \<and> usable now r) in
      (case find mine rows of None \<Rightarrow> Inl refusal | Some r \<Rightarrow> Inr (su_user r),
       map (\<lambda>r. if mine r then r\<lparr>su_used := Some now\<rparr> else r) rows))"

definition consume_password_reset_token :: "int \<Rightarrow> (string \<Rightarrow> string) \<Rightarrow> string \<Rightarrow> single_use list
    \<Rightarrow> (string + string) \<times> single_use list" where
  "consume_password_reset_token now dig token rows =
     consume_single_use ''That reset link is invalid or has expired. Request a new one.'' now dig token rows"

definition consume_email_verification_token :: "int \<Rightarrow> (string \<Rightarrow> string) \<Rightarrow> string \<Rightarrow> single_use list
    \<Rightarrow> (string + string) \<times> single_use list" where
  "consume_email_verification_token now dig token rows =
     consume_single_use ''That verification link is invalid or has expired. Request a new one.'' now dig token rows"

section \<open>One signature, three kinds of token\<close>

text \<open>
  A token is good for one thing: the three kinds share one secret, yet whatever the signature check
  returns for a token, at most one of the session check, the second-factor check and the redirect
  service's unlock check accepts it; a session token gives back the claims it was issued with, a challenge
  token its user, and an unlock token opens its own link and no other.
\<close>

theorem token_kinds_separate:
  assumes "redirect = env\<lparr>en_jwt_verify := (\<lambda>t. map_option unlock_view (jwt t))\<rparr>"
  shows "(jwt t = Some (access_payload a) \<longrightarrow> verify_access_token jwt t = Inr a)
    \<and> (jwt t = Some (challenge_payload u) \<longrightarrow> verify_challenge_token jwt t = Inr (Some (ClaimText u)))
    \<and> (jwt t = Some (unlock_payload l) \<longrightarrow> (is_valid_unlock_token redirect t l' \<longleftrightarrow> l' = l))
    \<and> (isl (verify_access_token jwt t) \<or> isl (verify_challenge_token jwt t))
    \<and> (is_valid_unlock_token redirect t l' \<longrightarrow> isl (verify_access_token jwt t) \<and> isl (verify_challenge_token jwt t))"
  using assms
  by (auto simp: verify_access_token_def verify_challenge_token_def is_valid_unlock_token_def access_payload_def
      challenge_payload_def unlock_payload_def unlock_view_def text_claim_def split: option.splits claim_value.splits)

definition three_tokens :: "string \<Rightarrow> jwt_claims option" where
  "three_tokens = [''a'' \<mapsto> access_payload \<lparr> ac_sub = ''u'', ac_wid = ''w'', ac_role = ''owner'', ac_email = ''u@x.test'' \<rparr>,
     ''c'' \<mapsto> challenge_payload ''u'', ''l'' \<mapsto> unlock_payload ''l1'']"

theorem token_kinds_separate_witness:
  "verify_access_token three_tokens ''a'' = Inr \<lparr> ac_sub = ''u'', ac_wid = ''w'', ac_role = ''owner'', ac_email = ''u@x.test'' \<rparr>
   \<and> isl (verify_access_token three_tokens ''c'') \<and> isl (verify_access_token three_tokens ''l'')"
proof -
  let ?env = "(demo_env capped_link)\<lparr>en_jwt_verify := (\<lambda>t. map_option unlock_view (three_tokens t))\<rparr>"
  have t: "three_tokens ''a'' = Some (access_payload \<lparr> ac_sub = ''u'', ac_wid = ''w'', ac_role = ''owner'', ac_email = ''u@x.test'' \<rparr>)"
    "three_tokens ''c'' = Some (challenge_payload ''u'')" "three_tokens ''l'' = Some (unlock_payload ''l1'')"
    by (simp_all add: three_tokens_def)
  have "verify_challenge_token three_tokens ''c'' = Inr (Some (ClaimText ''u''))"
    using token_kinds_separate [OF refl, of three_tokens] t(2) by blast
  then have c: "\<not> isl (verify_challenge_token three_tokens ''c'')" by simp
  have l: "is_valid_unlock_token ?env ''l'' ''l1''"
    using token_kinds_separate [OF refl, of three_tokens] t(3) by blast
  show ?thesis
    using token_kinds_separate [OF refl, of three_tokens] t(1) c l by blast
qed

section \<open>One request after another\<close>

inductive session_step :: "(string \<Rightarrow> string) \<Rightarrow> refresh_row list \<Rightarrow> refresh_row list \<Rightarrow> bool" for dig where
  Sign_in: "issue_refresh_token now ttl dig i token user family agent rows = Inr rows' \<Longrightarrow> family \<notin> rf_family ` set rows \<Longrightarrow>
    session_step dig rows rows'"
| Refresh: "rotate_token now ttl dig i fresh agent token rows = (answer, rows') \<Longrightarrow> session_step dig rows rows'"
| Sign_out: "session_step dig rows (revoke_by_token now dig token rows)"
| Sign_out_all: "session_step dig rows (revoke_all_for_user now user rows)"

inductive session_reach :: "(string \<Rightarrow> string) \<Rightarrow> refresh_row list \<Rightarrow> bool" for dig where
  Start: "session_reach dig []"
| Step: "session_reach dig rows \<Longrightarrow> session_step dig rows rows' \<Longrightarrow> session_reach dig rows'"

abbreviation is_open :: "refresh_row \<Rightarrow> bool" where
  "is_open r \<equiv> rf_revoked r = None"

definition sessions_ok :: "refresh_row list \<Rightarrow> bool" where
  "sessions_ok rows =
     (distinct (map rf_id rows) \<and> distinct (map rf_hash rows)
      \<and> (\<forall>r \<in> set rows. \<forall>r' \<in> set rows. rf_family r = rf_family r' \<longrightarrow> is_open r \<longrightarrow> is_open r' \<longrightarrow> r = r'))"

lemma sessions_okD:
  assumes "sessions_ok rows"
  shows "distinct (map rf_id rows)" "distinct (map rf_hash rows)"
    "r \<in> set rows \<Longrightarrow> r' \<in> set rows \<Longrightarrow> rf_family r = rf_family r' \<Longrightarrow> is_open r \<Longrightarrow> is_open r' \<Longrightarrow> r = r'"
    "r \<in> set rows \<Longrightarrow> r' \<in> set rows \<Longrightarrow> rf_id r = rf_id r' \<Longrightarrow> r = r'"
    "r \<in> set rows \<Longrightarrow> r' \<in> set rows \<Longrightarrow> rf_hash r = rf_hash r' \<Longrightarrow> r = r'"
  using assms by (auto simp: sessions_ok_def distinct_map inj_on_def)

lemma find_token_SomeD: "find_token dig t rows = Some r \<Longrightarrow> r \<in> set rows \<and> rf_hash r = dig t"
  by (auto simp: find_token_def find_Some_iff)

lemma find_token_unique:
  assumes "distinct (map rf_hash rows)" "r \<in> set rows" "rf_hash r = dig t"
  shows "find_token dig t rows = Some r"
proof -
  obtain r' where "find_token dig t rows = Some r'"
    using assms(2,3) by (cases "find_token dig t rows") (auto simp: find_token_def find_None_iff)
  then show ?thesis
    using assms find_token_SomeD [of dig t rows r'] by (auto simp: distinct_map inj_on_def)
qed

lemma revoke_where_rows [simp]:
  "map rf_id (revoke_where p now rows) = map rf_id rows" "map rf_hash (revoke_where p now rows) = map rf_hash rows"
  by (simp_all add: revoke_where_def comp_def)

lemma revoke_where_open:
  "r \<in> set (revoke_where p now rows) \<Longrightarrow> is_open r \<Longrightarrow> r \<in> set rows \<and> \<not> p r"
  by (auto simp: revoke_where_def split: if_splits)

lemma revoke_where_ok: "sessions_ok rows \<Longrightarrow> sessions_ok (revoke_where p now rows)"
  using revoke_where_open [of _ p now rows] unfolding sessions_ok_def revoke_where_rows by blast

lemma revoke_by_token_where:
  "\<exists>p. revoke_by_token now dig t rows = revoke_where p now rows"
proof (cases "find_token dig t rows")
  case None
  then have "revoke_by_token now dig t rows = revoke_where (\<lambda>_. False) now rows"
    by (simp add: revoke_by_token_def revoke_where_def)
  then show ?thesis by blast
next
  case (Some r)
  then show ?thesis by (auto simp: revoke_by_token_def revoke_family_def)
qed

lemma examine_RotatableD:
  "examine now dig t rows = Rotatable r \<Longrightarrow>
     r \<in> set rows \<and> rf_hash r = dig t \<and> is_open r \<and> rf_replaced r = None \<and> now < rf_expires r"
  by (auto simp: examine_def dest: find_token_SomeD split: option.splits if_splits)

text \<open>The rows a finished rotation leaves: the old ones, the rotated one replaced, and the new one.\<close>

definition rotated_row :: "int \<Rightarrow> string \<Rightarrow> refresh_row \<Rightarrow> refresh_row" where
  "rotated_row now new_id r = r\<lparr>rf_replaced := Some new_id, rf_revoked := Some now\<rparr>"

definition issued_row :: "int \<Rightarrow> int \<Rightarrow> (string \<Rightarrow> string) \<Rightarrow> string \<Rightarrow> string \<Rightarrow> string option \<Rightarrow> refresh_row \<Rightarrow> refresh_row" where
  "issued_row now ttl dig i fresh agent r =
     \<lparr> rf_id = i, rf_user = rf_user r, rf_family = rf_family r, rf_hash = dig fresh,
       rf_expires = now + ttl * day_in_ms, rf_revoked = None, rf_replaced = None, rf_agent = agent \<rparr>"

lemma finish_rotation_rows:
  assumes "finish_rotation now ttl dig i fresh agent r rows = (Inr answer, rows')"
    and "rf_id r \<in> rf_id ` set rows"
  shows "rows' = map (\<lambda>x. if rf_id x = rf_id r then rotated_row now i x else x) rows @ [issued_row now ttl dig i fresh agent r]"
    and "i \<notin> rf_id ` set rows" and "dig fresh \<notin> rf_hash ` set rows" and "answer = (rf_user r, fresh)"
proof -
  let ?new = "issued_row now ttl dig i fresh agent r"
  show ids: "i \<notin> rf_id ` set rows" and hashes: "dig fresh \<notin> rf_hash ` set rows"
    using assms(1) by (auto simp: finish_rotation_def issue_refresh_token_def list_ex_iff split: if_splits)
  have "find_token dig fresh (rows @ [?new]) = Some ?new"
    using hashes
    by (auto simp: find_token_def find_Some_iff nth_append issued_row_def intro!: exI [of _ "length rows"]) (metis imageI nth_mem)
  then show "rows' = map (\<lambda>x. if rf_id x = rf_id r then rotated_row now i x else x) rows @ [?new]"
    and "answer = (rf_user r, fresh)"
    using assms ids
    by (auto simp: finish_rotation_def issue_refresh_token_def rotated_row_def issued_row_def split: if_splits)
qed

lemma finish_rotation_refused:
  "finish_rotation now ttl dig i fresh agent r rows = (Inl e, rows') \<Longrightarrow> rows' = rows"
  by (auto simp: finish_rotation_def split: sum.splits)

text \<open>Other rows keep what they hold, and what was replaced stays replaced.\<close>

lemma finish_rotation_ok:
  assumes "sessions_ok rows" "examine now dig t rows = Rotatable r"
    and "finish_rotation now ttl dig i fresh agent r rows = (Inr answer, rows')"
  shows "sessions_ok rows'"
proof -
  have r: "r \<in> set rows" "is_open r" using examine_RotatableD [OF assms(2)] by simp_all
  note fin = finish_rotation_rows [OF assms(3) imageI [OF r(1)]]
  have ids: "map rf_id rows' = map rf_id rows @ [i]" "map rf_hash rows' = map rf_hash rows @ [dig fresh]"
    by (simp_all add: fin(1) issued_row_def rotated_row_def)
  have still: "x \<in> set rows \<and> x \<noteq> r \<or> x = issued_row now ttl dig i fresh agent r" if "x \<in> set rows'" "is_open x" for x
  proof -
    from that(1) consider y where "y \<in> set rows" "x = (if rf_id y = rf_id r then rotated_row now i y else y)"
      | "x = issued_row now ttl dig i fresh agent r"
      unfolding fin(1) by auto
    then show ?thesis
    proof cases
      case 1
      then have "rf_id y \<noteq> rf_id r" using that(2) by (auto simp: rotated_row_def)
      with 1 show ?thesis by auto
    qed simp
  qed
  have fam: "rf_family x \<noteq> rf_family r" if "x \<in> set rows" "x \<noteq> r" "is_open x" for x
    using sessions_okD(3) [OF assms(1) that(1) r(1)] that r(2) by blast
  show ?thesis
    unfolding sessions_ok_def
  proof (intro conjI ballI impI)
    show "distinct (map rf_id rows')" "distinct (map rf_hash rows')"
      using ids fin(2,3) sessions_okD(1,2) [OF assms(1)] by auto
    have new: "rf_family (issued_row now ttl dig i fresh agent r) = rf_family r" by (simp add: issued_row_def)
    fix x y assume xy: "x \<in> set rows'" "y \<in> set rows'" "rf_family x = rf_family y" "is_open x" "is_open y"
    show "x = y"
      using still [OF xy(1,4)] still [OF xy(2,5)] fam [of x] fam [of y] xy(3-5) new
        sessions_okD(3) [OF assms(1), of x y] by metis
  qed
qed

lemma session_step_ok: "session_step dig rows rows' \<Longrightarrow> sessions_ok rows \<Longrightarrow> sessions_ok rows'"
proof (induction rule: session_step.induct)
  case (Sign_in now ttl i token user family agent rows rows')
  have "\<forall>r \<in> set rows. rf_family r \<noteq> family \<and> rf_hash r \<noteq> dig token \<and> rf_id r \<noteq> i"
    using Sign_in(1,2) by (auto simp: issue_refresh_token_def list_ex_iff split: if_splits)
  moreover from this have "rows' = rows @ [\<lparr> rf_id = i, rf_user = user, rf_family = family, rf_hash = dig token,
      rf_expires = now + ttl * day_in_ms, rf_revoked = None, rf_replaced = None, rf_agent = agent \<rparr>]"
    using Sign_in(1) by (auto simp: issue_refresh_token_def split: if_splits)
  ultimately show ?case using Sign_in(3) by (fastforce simp: sessions_ok_def)
next
  case (Refresh now ttl i fresh agent token rows answer rows')
  show ?case
  proof (cases "examine now dig token rows")
    case (Rotatable r)
    then have fin: "finish_rotation now ttl dig i fresh agent r rows = (answer, rows')"
      using Refresh(1) by (simp add: rotate_token_def)
    then show ?thesis
      using finish_rotation_ok [OF Refresh(2) Rotatable] finish_rotation_refused [of now ttl dig i fresh agent r rows _ rows'] Refresh(2)
      by (cases answer) auto
  qed (use Refresh in \<open>auto simp: rotate_token_def revoke_family_def revoke_where_ok\<close>)
next
  case (Sign_out rows now token)
  then show ?case using revoke_by_token_where [of now dig token rows] revoke_where_ok by metis
next
  case (Sign_out_all rows now user)
  then show ?case by (simp add: revoke_all_for_user_def revoke_where_ok)
qed

lemma session_reach_ok: "session_reach dig rows \<Longrightarrow> sessions_ok rows"
  by (induction rule: session_reach.induct) (auto simp: session_step_ok, simp add: sessions_ok_def)

text \<open>
  C22. A login is one chain: however sign-ins, refreshes, replays and sign-outs follow each other, at most one
  refresh token of a family is not revoked, so a copied token and its successor are never both good.
\<close>

theorem one_open_token_per_family:
  assumes "session_reach dig rows" "r \<in> set rows" "r' \<in> set rows" "rf_family r = rf_family r'"
    "rf_revoked r = None" "rf_revoked r' = None"
  shows "r = r'"
  using sessions_okD(3) [OF session_reach_ok [OF assms(1)] assms(2-6)] .

text \<open>What was replaced stays in the table, replaced.\<close>

definition spent :: "(string \<Rightarrow> string) \<Rightarrow> string \<Rightarrow> string \<Rightarrow> refresh_row list \<Rightarrow> bool" where
  "spent dig token family rows =
     (\<exists>r \<in> set rows. rf_hash r = dig token \<and> rf_family r = family \<and> rf_replaced r \<noteq> None)"

lemma spent_revoke_where [simp]: "spent dig t fam (revoke_where p now rows) = spent dig t fam rows"
  by (induction rows) (auto simp: spent_def revoke_where_def)

lemma spent_step: "session_step dig rows rows' \<Longrightarrow> spent dig t fam rows \<Longrightarrow> spent dig t fam rows'"
proof (induction rule: session_step.induct)
  case (Sign_in now ttl i token user family agent rows rows')
  then show ?case by (auto simp: spent_def issue_refresh_token_def split: if_splits)
next
  case (Refresh now ttl i fresh agent token rows answer rows')
  show ?case
  proof (cases "examine now dig token rows")
    case (Rotatable r)
    then have fin: "finish_rotation now ttl dig i fresh agent r rows = (answer, rows')"
      using Refresh(1) by (simp add: rotate_token_def)
    show ?thesis
    proof (cases answer)
      case (Inl e)
      then show ?thesis using finish_rotation_refused [OF fin [unfolded Inl]] Refresh(2) by simp
    next
      case (Inr a)
      have r: "r \<in> set rows" using examine_RotatableD [OF Rotatable] by simp
      obtain r0 where r0: "r0 \<in> set rows" "rf_hash r0 = dig t" "rf_family r0 = fam" "rf_replaced r0 \<noteq> None"
        using Refresh(2) by (auto simp: spent_def)
      let ?r1 = "if rf_id r0 = rf_id r then rotated_row now i r0 else r0"
      have "?r1 \<in> set rows'" using r0(1) finish_rotation_rows(1) [OF fin [unfolded Inr] imageI [OF r]] by simp
      moreover have "rf_hash ?r1 = dig t" "rf_family ?r1 = fam" "rf_replaced ?r1 \<noteq> None"
        using r0(2-4) by (simp_all add: rotated_row_def)
      ultimately show ?thesis unfolding spent_def by blast
    qed
  qed (use Refresh in \<open>auto simp: rotate_token_def revoke_family_def\<close>)
next
  case (Sign_out rows now token)
  then show ?case using revoke_by_token_where [of now dig token rows] spent_revoke_where by metis
qed (simp add: revoke_all_for_user_def)

lemma spent_replay:
  assumes "sessions_ok rows" "spent dig t fam rows"
  shows "rotate_token now ttl dig i fresh agent t rows = (Inl reuse_message, revoke_family now fam rows)"
proof -
  obtain r where "r \<in> set rows" "rf_hash r = dig t" "rf_family r = fam" "rf_replaced r \<noteq> None"
    using assms(2) by (auto simp: spent_def)
  then show ?thesis
    using find_token_unique [OF sessions_okD(2) [OF assms(1)]] by (auto simp: rotate_token_def examine_def)
qed

lemma rotation_spends:
  assumes "rotate_token now ttl dig i fresh agent t rows = (Inr answer, rows')"
  shows "\<exists>r \<in> set rows. rf_hash r = dig t \<and> spent dig t (rf_family r) rows'"
proof (cases "examine now dig t rows")
  case (Rotatable r)
  have r: "r \<in> set rows" "rf_hash r = dig t" using examine_RotatableD [OF Rotatable] by simp_all
  have fin: "finish_rotation now ttl dig i fresh agent r rows = (Inr answer, rows')"
    using assms Rotatable by (simp add: rotate_token_def)
  then have "rotated_row now i r \<in> set rows'"
    using finish_rotation_rows(1) [OF fin imageI [OF r(1)]] r(1) by force
  then have "spent dig t (rf_family r) rows'"
    using r(2) unfolding spent_def by (intro bexI [of _ "rotated_row now i r"]) (simp_all add: rotated_row_def)
  with r show ?thesis by blast
qed (use assms in \<open>auto simp: rotate_token_def\<close>)

text \<open>
  C23. A stolen refresh token is noticed: when a token has been exchanged and is presented again, by
  whoever kept the copy and after any further requests, the answer is the reuse refusal and no token of
  the family, the one it was exchanged for included, is good any more.
\<close>

theorem replayed_token_ends_family:
  assumes "session_reach dig rows" "rotate_token now ttl dig i fresh agent token rows = (Inr answer, rows1)"
    and "(session_step dig)\<^sup>*\<^sup>* rows1 rows2"
    and "rotate_token later ttl dig i' fresh' agent' token rows2 = (again, rows3)"
  shows "again = Inl reuse_message
    \<and> (\<exists>r \<in> set rows. rf_hash r = dig token \<and> (\<forall>x \<in> set rows3. rf_family x = rf_family r \<longrightarrow> rf_revoked x \<noteq> None))"
proof -
  obtain r where r: "r \<in> set rows" "rf_hash r = dig token" "spent dig token (rf_family r) rows1"
    using rotation_spends [OF assms(2)] by blast
  have "session_reach dig rows1" using assms(1) session_reach.Step session_step.Refresh [OF assms(2)] by blast
  with assms(3) have "session_reach dig rows2 \<and> spent dig token (rf_family r) rows2"
  proof (induction rule: rtranclp_induct)
    case base
    then show ?case using r(3) by simp
  next
    case (step y z)
    then show ?case using session_reach.Step spent_step by blast
  qed
  then have "again = Inl reuse_message" "rows3 = revoke_family later (rf_family r) rows2"
    using spent_replay session_reach_ok assms(4) by (metis fst_conv, metis snd_conv)
  moreover have "\<forall>x \<in> set (revoke_family later (rf_family r) rows2). rf_family x = rf_family r \<longrightarrow> rf_revoked x \<noteq> None"
    by (auto simp: revoke_family_def revoke_where_def)
  ultimately show ?thesis using r by blast
qed

definition signed_in :: "refresh_row list" where
  "signed_in = [\<lparr> rf_id = ''r1'', rf_user = ''u'', rf_family = ''f'', rf_hash = ''t1'', rf_expires = 2592000000,
     rf_revoked = None, rf_replaced = None, rf_agent = None \<rparr>]"

definition refreshed :: "refresh_row list" where
  "refreshed = snd (rotate_token 1000 30 (\<lambda>t. t) ''r2'' ''t2'' None ''t1'' signed_in)"

lemma signed_in_reach: "session_reach (\<lambda>t. t) signed_in"
proof -
  have "issue_refresh_token 0 30 (\<lambda>t. t) ''r1'' ''t1'' ''u'' ''f'' None [] = Inr signed_in"
    by (simp add: issue_refresh_token_def signed_in_def day_in_ms_def)
  then have "session_step (\<lambda>t. t) [] signed_in" by (rule session_step.Sign_in) simp
  then show ?thesis by (rule session_reach.Step [OF session_reach.Start])
qed

lemma refreshed_rows:
  "rotate_token 1000 30 (\<lambda>t. t) ''r2'' ''t2'' None ''t1'' signed_in = (Inr (''u'', ''t2''), refreshed)"
  "map rf_hash refreshed = [''t1'', ''t2'']" "map rf_family refreshed = [''f'', ''f'']"
  "map rf_revoked refreshed = [Some 1000, None]"
  by (simp_all add: refreshed_def rotate_token_def examine_def find_token_def finish_rotation_def
      issue_refresh_token_def signed_in_def)

lemma refreshed_reach: "session_reach (\<lambda>t. t) refreshed"
  using session_reach.Step [OF signed_in_reach] session_step.Refresh [OF refreshed_rows(1)] by blast

theorem one_open_token_per_family_witness:
  "\<exists>!r. r \<in> set refreshed \<and> rf_family r = ''f'' \<and> rf_revoked r = None"
proof -
  obtain x y where xy: "refreshed = [x, y]" using refreshed_rows(2) by auto
  then have y: "y \<in> set refreshed" "rf_family y = ''f''" "rf_revoked y = None" using refreshed_rows(3,4) unfolding xy by simp_all
  then show ?thesis using one_open_token_per_family [OF refreshed_reach _ y(1)] by metis
qed

theorem replayed_token_ends_family_witness:
  "fst (rotate_token 5000 30 (\<lambda>t. t) ''r3'' ''t3'' None ''t1'' refreshed) = Inl reuse_message"
proof -
  obtain a rows where again: "rotate_token 5000 30 (\<lambda>t. t) ''r3'' ''t3'' None ''t1'' refreshed = (a, rows)" by fastforce
  then show ?thesis
    using replayed_token_ends_family [OF signed_in_reach refreshed_rows(1) rtranclp.rtrancl_refl again] by simp
qed

section \<open>Two requests at once\<close>

text \<open>
  Two refreshes that both look before either writes both succeed: neither is taken for a replay, nobody is
  signed out, and the family has two good tokens from then on.
\<close>

lemma racing_rotations_both_open:
  assumes "examine now dig t rows = Rotatable r"
    and one: "finish_rotation now1 ttl dig i1 fresh1 agent1 r rows = (Inr answer1, rows1)"
    and two: "finish_rotation now2 ttl dig i2 fresh2 agent2 r rows1 = (Inr answer2, rows2)"
  shows "issued_row now1 ttl dig i1 fresh1 agent1 r \<in> set rows2 \<and> issued_row now2 ttl dig i2 fresh2 agent2 r \<in> set rows2
    \<and> dig fresh1 \<noteq> dig fresh2"
proof -
  have r: "r \<in> set rows" using examine_RotatableD [OF assms(1)] by simp
  note a = finish_rotation_rows [OF one imageI [OF r]]
  have "rf_id r \<in> set (map rf_id rows1)" using r by (auto simp: a(1) rotated_row_def image_iff)
  then have mem: "rf_id r \<in> rf_id ` set rows1" by simp
  note b = finish_rotation_rows [OF two mem]
  have "rf_id (issued_row now1 ttl dig i1 fresh1 agent1 r) \<noteq> rf_id r"
    using a(2) r by (auto simp: issued_row_def)
  then have "issued_row now1 ttl dig i1 fresh1 agent1 r \<in> set rows2" unfolding b(1) by (simp add: a(1))
  moreover have "issued_row now2 ttl dig i2 fresh2 agent2 r \<in> set rows2" by (simp add: b(1))
  moreover have "dig fresh1 \<in> rf_hash ` set rows1" by (simp add: a(1) issued_row_def)
  ultimately show ?thesis using b(3) by metis
qed

text \<open>A refresh that looked before every session of its user was revoked leaves a good token after it.\<close>

lemma refresh_outlives_revocation:
  assumes "examine now dig t rows = Rotatable r"
    and "finish_rotation now2 ttl dig i fresh agent r (revoke_all_for_user now1 (rf_user r) rows) = (Inr answer, rows2)"
  shows "\<exists>x \<in> set rows2. rf_user x = rf_user r \<and> rf_hash x = dig fresh \<and> rf_revoked x = None"
proof -
  have "r \<in> set rows" using examine_RotatableD [OF assms(1)] by simp
  then have "rf_id r \<in> set (map rf_id (revoke_all_for_user now1 (rf_user r) rows))" by (simp add: revoke_all_for_user_def)
  then have "issued_row now2 ttl dig i fresh agent r \<in> set rows2"
    using finish_rotation_rows(1) [OF assms(2)] by simp
  then show ?thesis by (rule rev_bexI) (simp add: issued_row_def)
qed

section \<open>Used once\<close>

text \<open>
  The table of single-use tokens under any interleaving of the statements that change it, with the digests
  of the tokens that were redeemed.
\<close>

inductive single_step :: "(string \<Rightarrow> string) \<Rightarrow> single_use list \<times> string list \<Rightarrow> single_use list \<times> string list \<Rightarrow> bool"
  for dig where
  Supersede: "single_step dig (rows, redeemed) (supersede_tokens now user rows, redeemed)"
| Insert: "insert_token now ttl dig i token user rows = Inr rows' \<Longrightarrow> single_step dig (rows, redeemed) (rows', redeemed)"
| Redeem: "consume_single_use refusal now dig token rows = (Inr user, rows') \<Longrightarrow>
    single_step dig (rows, redeemed) (rows', dig token # redeemed)"
| Refuse: "consume_single_use refusal now dig token rows = (Inl e, rows') \<Longrightarrow> single_step dig (rows, redeemed) (rows', redeemed)"

definition single_ok :: "single_use list \<times> string list \<Rightarrow> bool" where
  "single_ok st =
     (distinct (map su_hash (fst st)) \<and> distinct (snd st)
      \<and> (\<forall>h \<in> set (snd st). \<exists>r \<in> set (fst st). su_hash r = h \<and> su_used r \<noteq> None))"

lemma consume_rows:
  assumes "consume_single_use refusal now dig token rows = (a, rows')"
  shows "rows' = map (\<lambda>r. if su_hash r = dig token \<and> usable now r then r\<lparr>su_used := Some now\<rparr> else r) rows"
    and "a = Inr u \<Longrightarrow> \<exists>r \<in> set rows. su_hash r = dig token \<and> usable now r \<and> su_user r = u"
    and "a = Inl e \<Longrightarrow> rows' = rows \<and> e = refusal \<and> (\<forall>r \<in> set rows. su_hash r = dig token \<longrightarrow> \<not> usable now r)"
  using assms by (auto simp: consume_single_use_def Let_def find_Some_iff find_None_iff split: option.splits intro!: map_idI)

lemma single_ok_map:
  assumes "single_ok (rows, redeemed)"
    and "\<And>r. su_hash (f r) = su_hash r" "\<And>r. su_used r \<noteq> None \<Longrightarrow> su_used (f r) \<noteq> None"
  shows "single_ok (map f rows, redeemed)"
proof -
  have "\<exists>r' \<in> set (map f rows). su_hash r' = h \<and> su_used r' \<noteq> None" if "h \<in> set redeemed" for h
  proof -
    obtain r where "r \<in> set rows" "su_hash r = h" "su_used r \<noteq> None"
      using assms(1) \<open>h \<in> set redeemed\<close> unfolding single_ok_def fst_conv snd_conv by blast
    then show ?thesis using assms(2,3) by (intro bexI [of _ "f r"]) simp_all
  qed
  moreover have same: "map su_hash (map f rows) = map su_hash rows" using assms(2) by simp
  ultimately show ?thesis using assms(1) unfolding single_ok_def fst_conv snd_conv same by blast
qed

lemma single_step_ok: "single_step dig st st' \<Longrightarrow> single_ok st \<Longrightarrow> single_ok st'"
proof (induction rule: single_step.induct)
  case (Supersede rows redeemed now user)
  then show ?case unfolding supersede_tokens_def by (rule single_ok_map) simp_all
next
  case (Insert now ttl i token user rows rows' redeemed)
  then have new: "dig token \<notin> su_hash ` set rows"
    and rows': "rows' = rows @ [\<lparr> su_id = i, su_user = user, su_hash = dig token, su_expires = now + ttl, su_used = None \<rparr>]"
    by (auto simp: insert_token_def list_ex_iff split: if_splits)
  show ?case using Insert(2) new unfolding single_ok_def rows' by auto
next
  case (Redeem refusal now token rows user rows' redeemed)
  let ?f = "\<lambda>r. if su_hash r = dig token \<and> usable now r then r\<lparr>su_used := Some now\<rparr> else r"
  note c = consume_rows(1,2) [OF Redeem(1)]
  obtain r where r: "r \<in> set rows" "su_hash r = dig token" "usable now r" using c(2) by blast
  have kept: "single_ok (rows', redeemed)" unfolding c(1) by (rule single_ok_map [OF Redeem(2)]) simp_all
  have "?f r \<in> set rows'" unfolding c(1) set_map using r(1) by (rule imageI)
  moreover have "su_hash (?f r) = dig token" "su_used (?f r) \<noteq> None" using r by simp_all
  ultimately have now_used: "\<exists>x \<in> set rows'. su_hash x = dig token \<and> su_used x \<noteq> None" by blast
  have "dig token \<notin> set redeemed"
  proof
    assume "dig token \<in> set redeemed"
    then obtain x where x: "x \<in> set rows" "su_hash x = dig token" "su_used x \<noteq> None"
      using Redeem(2) unfolding single_ok_def fst_conv snd_conv by blast
    have "inj_on su_hash (set rows)" using Redeem(2) by (simp add: single_ok_def distinct_map)
    then have "x = r" using x(1,2) r(1,2) by (simp add: inj_on_def)
    then show False using x(3) r(3) by (simp add: usable_def)
  qed
  then show ?case using kept now_used by (simp add: single_ok_def)
next
  case (Refuse refusal now token rows e rows' redeemed)
  then show ?case using consume_rows(3) [OF Refuse(1) refl] by simp
qed

text \<open>
  C29. A reset link works once: whatever statements of whatever requests interleave, no token is redeemed a
  second time.
\<close>

theorem single_use_token_used_once:
  assumes "(single_step dig)\<^sup>*\<^sup>* ([], []) (rows, redeemed)"
  shows "distinct redeemed"
proof -
  have "single_ok (rows, redeemed)"
    using assms by (induction rule: rtranclp_induct) (simp add: single_ok_def, blast intro: single_step_ok)
  then show ?thesis by (simp add: single_ok_def)
qed

definition double_click :: "single_use list" where
  "double_click = [\<lparr> su_id = ''i'', su_user = ''u'', su_hash = ''t'', su_expires = 3600000, su_used = Some 5 \<rparr>]"

theorem single_use_token_used_once_witness:
  "distinct [''t''] \<and> fst (consume_password_reset_token 6 (\<lambda>t. t) ''t'' double_click)
     = Inl ''That reset link is invalid or has expired. Request a new one.''"
proof -
  have "insert_token 0 3600000 (\<lambda>t. t) ''i'' ''t'' ''u'' [] =
      Inr [\<lparr> su_id = ''i'', su_user = ''u'', su_hash = ''t'', su_expires = 3600000, su_used = None \<rparr>]"
    by (simp add: insert_token_def)
  then have one: "single_step (\<lambda>t. t) ([], [])
      ([\<lparr> su_id = ''i'', su_user = ''u'', su_hash = ''t'', su_expires = 3600000, su_used = None \<rparr>], [])"
    by (rule single_step.Insert)
  have "consume_single_use ''r'' 5 (\<lambda>t. t) ''t''
      [\<lparr> su_id = ''i'', su_user = ''u'', su_hash = ''t'', su_expires = 3600000, su_used = None \<rparr>] = (Inr ''u'', double_click)"
    by (simp add: consume_single_use_def usable_def double_click_def)
  from single_step.Redeem [OF this] one have "(single_step (\<lambda>t. t))\<^sup>*\<^sup>* ([], []) (double_click, [''t''])"
    by (meson converse_rtranclp_into_rtranclp r_into_rtranclp)
  then have "distinct [''t'']" by (rule single_use_token_used_once)
  then show ?thesis by (simp add: consume_password_reset_token_def consume_single_use_def usable_def double_click_def)
qed

text \<open>
  Issued one after another, the newest token of a user is the only one that works; two issues whose
  statements interleave leave two that do.
\<close>

lemma newest_token_only:
  assumes "issue_single_use now ttl dig i token user rows = (Inr token, rows')" "r \<in> set rows'" "su_user r = user" "usable later r"
  shows "su_hash r = dig token"
proof -
  obtain new where "rows' = supersede_tokens now user rows @ [new]" "su_hash new = dig token"
    using assms(1) by (cases "list_ex (\<lambda>r. su_hash r = dig token \<or> su_id r = i) (supersede_tokens now user rows)")
      (auto simp: issue_single_use_def insert_token_def)
  moreover have "\<forall>x \<in> set (supersede_tokens now user rows). su_user x = user \<longrightarrow> su_used x \<noteq> None"
    unfolding supersede_tokens_def set_map by (intro ballI impI, elim imageE) (simp split: if_splits)
  ultimately show ?thesis using assms(2-4) by (auto simp: usable_def)
qed

lemma racing_issues_both_usable:
  assumes "insert_token now ttl dig i1 t1 user (supersede_tokens now user (supersede_tokens now user rows)) = Inr rows1"
    and "insert_token now ttl dig i2 t2 user rows1 = Inr rows2" "0 < ttl"
  shows "fst (consume_single_use refusal now dig t1 rows2) = Inr user \<and> fst (consume_single_use refusal now dig t2 rows2) = Inr user
    \<and> dig t1 \<noteq> dig t2"
proof -
  let ?row = "\<lambda>i t. \<lparr> su_id = i, su_user = user, su_hash = dig t, su_expires = now + ttl, su_used = None \<rparr>"
  let ?old = "supersede_tokens now user (supersede_tokens now user rows)"
  have r1: "rows1 = ?old @ [?row i1 t1]" "dig t1 \<notin> su_hash ` set ?old"
    using assms(1) by (auto simp: insert_token_def list_ex_iff split: if_splits)
  have r2: "rows2 = rows1 @ [?row i2 t2]" "dig t2 \<notin> su_hash ` set rows1"
    using assms(2) by (auto simp: insert_token_def list_ex_iff split: if_splits)
  have skip: "find (\<lambda>r. su_hash r = h \<and> usable now r) (xs @ ys) = find (\<lambda>r. su_hash r = h \<and> usable now r) ys"
    if "h \<notin> su_hash ` set xs" for h xs ys
    using that by (induction xs) auto
  show ?thesis
    using skip [OF r1(2)] skip [OF r2(2)] r1 r2 assms(3)
    by (auto simp: consume_single_use_def Let_def usable_def)
qed

end
