(* ===== verification/Signup.thy ===== *)
theory Signup
  imports Prelude
begin

text \<open>
  Who may create an account: the coverage of hosts (\<open>apps/api/src/common/blocklist.ts\<close>), the disposable
  addresses (\<open>common/disposable-email.ts\<close>), the challenge (\<open>auth/bot-protection.service.ts\<close>), the check of
  the mail domain (\<open>auth/mail-domain.service.ts\<close>), the refusals kept for the panel, and the checks of
  \<open>AuthService\<close> that use them. The URL parser, the answers of DNS and of the challenge's provider, and the
  lists of domains are parameters.
\<close>

section \<open>Hosts\<close>

definition normalise_block_host :: "string \<Rightarrow> string" where
  "normalise_block_host host =
     (let trimmed = js_lower (js_trim host) in if ends_with trimmed ''.'' then butlast trimmed else trimmed)"

text \<open>\<open>hostname\<close> is the host name of a URL, \<open>None\<close> when \<open>new URL\<close> throws.\<close>

definition destination_host :: "(string \<Rightarrow> string option) \<Rightarrow> string \<Rightarrow> string" where
  "destination_host hostname destination = normalise_block_host (or_else (hostname destination) destination)"

definition host_covered_by :: "string \<Rightarrow> string \<Rightarrow> bool" where
  "host_covered_by host blocked =
     (let h = normalise_block_host host; b = normalise_block_host blocked in
      h \<noteq> [] \<and> b \<noteq> [] \<and> (h = b \<or> ends_with h (''.'' @ b)))"

definition match_blocked_domain :: "(string \<Rightarrow> string option) \<Rightarrow> string \<Rightarrow> string list \<Rightarrow> string option" where
  "match_blocked_domain hostname destination blocklist =
     (let host = destination_host hostname destination in
      if host = [] then None else map_option normalise_block_host (find (host_covered_by host) blocklist))"

text \<open>The domain of an address, split at the last \<open>@\<close>; empty when a part is missing.\<close>

definition email_domain :: "string \<Rightarrow> string" where
  "email_domain email =
     (let after = rev (takeWhile (\<lambda>c. c \<noteq> CHR ''@'') (rev email)); n = length email - length after in
      if n \<le> 1 \<or> after = [] then [] else normalise_block_host after)"

definition host_covered_by_any :: "string \<Rightarrow> string list \<Rightarrow> bool" where
  "host_covered_by_any host hosts = list_ex (host_covered_by host) hosts"

definition is_disposable_email :: "string \<Rightarrow> string list \<Rightarrow> string list \<Rightarrow> bool" where
  "is_disposable_email email domains allow =
     (let host = email_domain email in
      host \<noteq> [] \<and> \<not> host_covered_by_any host allow \<and> host_covered_by_any host domains)"

section \<open>The mail domain\<close>

text \<open>How a lookup ends: with records, with an error of that code, or not within its time.\<close>

datatype dns_outcome = DnsRecords "string list" | DnsError string | DnsTimeout

definition mail_lookup :: "dns_outcome \<Rightarrow> string list option" where
  "mail_lookup outcome =
     (case outcome of
        DnsRecords rs \<Rightarrow> Some rs
      | DnsError code \<Rightarrow> if code \<in> {''ENOTFOUND'', ''NXDOMAIN'', ''ENODATA''} then Some [] else None
      | DnsTimeout \<Rightarrow> None)"

record mail_dns =
  dn_mx :: "string \<Rightarrow> dns_outcome"
  dn_a :: "string \<Rightarrow> dns_outcome"
  dn_aaaa :: "string \<Rightarrow> dns_outcome"

definition has_no_mail_records :: "bool \<Rightarrow> mail_dns \<Rightarrow> string \<Rightarrow> bool" where
  "has_no_mail_records enabled dns host =
     (if \<not> enabled \<or> host = [] then False
      else (case (mail_lookup (dn_mx dns host), mail_lookup (dn_a dns host), mail_lookup (dn_aaaa dns host)) of
              (Some mx, Some a, Some aaaa) \<Rightarrow> mx = [] \<and> a = [] \<and> aaaa = []
            | _ \<Rightarrow> False))"

section \<open>The challenge\<close>

datatype bot_provider = NoProvider | Turnstile | HCaptcha

datatype bot_refusal = ChallengeMissing | ChallengeFailed

text \<open>What the provider's endpoint did: it could not be reached or read, or answered with its verdict.\<close>

datatype siteverify = Unreachable | Answered bool bool

definition verify_challenge :: "bot_provider \<Rightarrow> string option \<Rightarrow> string option \<Rightarrow> (string \<Rightarrow> string \<Rightarrow> string option \<Rightarrow> siteverify)
    \<Rightarrow> string option \<Rightarrow> bot_refusal option" where
  "verify_challenge provider secret token site remote_ip =
     (if provider = NoProvider then None
      else
        let trimmed = map_option js_trim token in
        if \<not> truthy trimmed then Some ChallengeMissing
        else
          let key = map_option js_trim secret in
          if \<not> truthy key then Some ChallengeFailed
          else (case site (the key) (the trimmed) remote_ip of
                  Unreachable \<Rightarrow> Some ChallengeFailed
                | Answered ok success \<Rightarrow> if ok \<and> success then None else Some ChallengeFailed))"

section \<open>Admission\<close>

datatype signup_refusal = BotChallengeMissing | BotChallengeFailed | DisposableEmail | EmailDomainNoMail

datatype auth_error = AuthError nat "string option" string

definition forbidden :: "string \<Rightarrow> auth_error" where
  "forbidden msg = AuthError 403 None msg"

definition bad_request :: "string \<Rightarrow> auth_error" where
  "bad_request msg = AuthError 400 None msg"

record signup_env =
  sg_provider :: bot_provider
  sg_secret :: "string option"
  sg_site :: "string \<Rightarrow> string \<Rightarrow> string option \<Rightarrow> siteverify"
  sg_vendored :: "string list"
  sg_allowlist :: "string list"
  sg_extra_domains :: "string list option"
  sg_allow_domains :: "string list option"
  sg_mail_check :: bool
  sg_dns :: mail_dns

text \<open>The refusal, recorded with its reason when the record can be written, and the error thrown.\<close>

definition assert_new_account_allowed :: "signup_env \<Rightarrow> string \<Rightarrow> string option \<Rightarrow> string option
    \<Rightarrow> (signup_refusal \<times> auth_error) option" where
  "assert_new_account_allowed env email challenge remote_ip =
     (let domains = sg_vendored env @ or_else (sg_extra_domains env) [];
          allow = sg_allowlist env @ or_else (sg_allow_domains env) [];
          host = email_domain email
      in case verify_challenge (sg_provider env) (sg_secret env) challenge (sg_site env) remote_ip of
           Some why \<Rightarrow>
             Some (if why = ChallengeMissing then BotChallengeMissing else BotChallengeFailed,
                   forbidden ''We couldn't verify you're human. Refresh the page and try again.'')
         | None \<Rightarrow>
             if is_disposable_email email domains allow then
               Some (DisposableEmail, bad_request
                 ''That looks like a temporary email address. Sign up with a permanent email you can receive mail at.'')
             else if host \<noteq> [] \<and> \<not> host_covered_by_any host allow
                     \<and> has_no_mail_records (sg_mail_check env) (sg_dns env) host then
               Some (EmailDomainNoMail, bad_request
                 ''We couldn't find a mail server for that email's domain. Check the address and try again.'')
             else None)"

definition record_refusal :: "bool \<Rightarrow> signup_refusal \<Rightarrow> string \<Rightarrow> (string \<times> signup_refusal) list \<Rightarrow> (string \<times> signup_refusal) list" where
  "record_refusal writable why subject trail = (if writable then trail @ [(subject, why)] else trail)"

datatype signup_mode = SignupsOpen | SignupsInviteOnly | SignupsClosed

definition assert_signups_allow :: "signup_mode \<Rightarrow> auth_error option" where
  "assert_signups_allow mode =
     (case mode of
        SignupsOpen \<Rightarrow> None
      | SignupsInviteOnly \<Rightarrow>
          Some (forbidden ''New sign-ups are invite-only right now. Ask a workspace owner for an invitation.'')
      | SignupsClosed \<Rightarrow> Some (forbidden ''New sign-ups are closed right now.''))"

section \<open>Coverage is by labels\<close>

lemma ends_with_labels:
  "h = b \<or> ends_with h (''.'' @ b) \<longleftrightarrow> (\<exists>front. split_on CHR ''.'' h = front @ split_on CHR ''.'' b)"
proof
  assume "h = b \<or> ends_with h (''.'' @ b)"
  then show "\<exists>front. split_on CHR ''.'' h = front @ split_on CHR ''.'' b"
    by (auto simp: ends_with_iff split_on_append)
next
  assume "\<exists>front. split_on CHR ''.'' h = front @ split_on CHR ''.'' b"
  then obtain front where f: "split_on CHR ''.'' h = front @ split_on CHR ''.'' b" by blast
  have join: "join_with ''.'' (xs @ ys) = (if xs = [] then join_with ''.'' ys else join_with ''.'' xs @ ''.'' @ join_with ''.'' ys)"
    if "ys \<noteq> []" for xs ys
    using that
  proof (induction xs)
    case (Cons x xs)
    then show ?case by (cases "xs @ ys"; cases xs) auto
  qed simp
  have "h = join_with ''.'' (front @ split_on CHR ''.'' b)" using join_split_on [of "CHR ''.''" h] f by simp
  then show "h = b \<or> ends_with h (''.'' @ b)"
    using join [OF split_on_not_Nil, of front "CHR ''.''" b] by (auto simp: join_split_on ends_with_iff split: if_splits)
qed

text \<open>
  Coverage of a host is by whole labels: a listed name covers a host exactly when the host's labels
  end with the name's labels, in lower case and without the root dot, so a name that merely ends with the
  same text is not covered.
\<close>

theorem host_covered_by_labels:
  "host_covered_by host blocked \<longleftrightarrow>
     normalise_block_host host \<noteq> [] \<and> normalise_block_host blocked \<noteq> []
     \<and> (\<exists>front. split_on CHR ''.'' (normalise_block_host host) = front @ split_on CHR ''.'' (normalise_block_host blocked))"
  by (simp add: host_covered_by_def Let_def ends_with_labels [symmetric])

text \<open>What an admitted address has passed; an allowed host is never refused for its domain.\<close>

lemma admitted_passed:
  assumes "assert_new_account_allowed env email challenge ip = None"
  shows "sg_provider env = NoProvider \<or> (\<exists>key token. sg_site env key token ip = Answered True True \<and> token \<noteq> [] \<and> key \<noteq> [])"
proof (cases "sg_provider env = NoProvider")
  case False
  have "verify_challenge (sg_provider env) (sg_secret env) challenge (sg_site env) ip = None"
    using assms by (auto simp: assert_new_account_allowed_def Let_def split: option.splits)
  then show ?thesis
    using False by (auto simp: verify_challenge_def Let_def truthy_def split: if_splits option.splits siteverify.splits)
qed simp

lemma allowed_host_not_refused:
  assumes "host_covered_by_any (email_domain email) (sg_allowlist env @ or_else (sg_allow_domains env) [])"
  shows "assert_new_account_allowed env email challenge ip = None \<or>
    verify_challenge (sg_provider env) (sg_secret env) challenge (sg_site env) ip \<noteq> None"
  using assms by (simp add: assert_new_account_allowed_def Let_def is_disposable_email_def split: option.splits)

text \<open>The mail check refuses on a definitive answer of all three lookups only.\<close>

lemma mail_check_fails_open:
  assumes "mail_lookup (dn_mx dns host) = None \<or> mail_lookup (dn_a dns host) = None \<or> mail_lookup (dn_aaaa dns host) = None"
  shows "\<not> has_no_mail_records enabled dns host"
  using assms by (auto simp: has_no_mail_records_def split: option.splits)

end
