(* ===== verification/Auth.thy ===== *)
theory Auth
  imports Tokens Signup
begin

text \<open>
  Signing in (\<open>apps/api/src/auth/auth.service.ts\<close>, with \<open>totp.service.ts\<close>): registration, password and
  provider sign-in, the second factor, refresh, sign-out, password reset, email verification and the
  acceptance of invitations, over the tables they read and write. The password hash, the one-time codes,
  the signatures and the random values are parameters; the outcome of sending a mail is an argument. One
  instant stands for one request.
\<close>

section \<open>Tables\<close>

record user_row =
  ur_id :: string
  ur_name :: string
  ur_email :: string
  ur_hash :: "string option"
  ur_verified :: "int option"
  ur_secret :: "string option"
  ur_totp :: "int option"
  ur_suspended :: "int option"

record membership_row =
  mb_id :: string
  mb_workspace :: string
  mb_user :: "string option"
  mb_email :: string
  mb_role :: string
  mb_status :: string
  mb_invite :: "string option"
  mb_invited :: "int option"
  mb_accepted :: "int option"
  mb_created :: int

record workspace_row =
  wk_id :: string
  wk_name :: string
  wk_slug :: string
  wk_plan :: string
  wk_domain :: "string option"

record recovery_row =
  rc_id :: string
  rc_user :: string
  rc_hash :: string
  rc_used :: "int option"

record identity_row =
  oi_user :: string
  oi_provider :: string
  oi_subject :: string

record auth_db =
  ad_users :: "user_row list"
  ad_members :: "membership_row list"
  ad_workspaces :: "workspace_row list"
  ad_sessions :: "refresh_row list"
  ad_recovery :: "recovery_row list"
  ad_resets :: "single_use list"
  ad_verifications :: "single_use list"
  ad_identities :: "identity_row list"
  ad_domains :: "(string \<times> string) list"
  ad_links :: "(string \<times> string) list"
  ad_outbox :: "string list"
  ad_audit :: "(string \<times> string \<times> string) list"
  ad_refusals :: "(string \<times> signup_refusal) list"

text \<open>The libraries the service calls, and its settings.\<close>

record auth_env =
  ae_dig :: "string \<Rightarrow> string"
  ae_verify :: "string \<Rightarrow> string \<Rightarrow> bool"
  ae_hash :: "string \<Rightarrow> string"
  ae_totp :: "string \<Rightarrow> string \<Rightarrow> bool"
  ae_sign :: "jwt_claims \<Rightarrow> string"
  ae_jwt :: "string \<Rightarrow> jwt_claims option"
  ae_ttl_days :: int
  ae_default_domain :: string

text \<open>The random and generated values of one request.\<close>

record fresh_values =
  fv_row :: string
  fv_token :: string
  fv_family :: string
  fv_user :: string
  fv_workspace :: string
  fv_member :: string
  fv_domain :: string
  fv_suffix :: "nat \<Rightarrow> string"

section \<open>Sessions\<close>

definition unauthorized :: "string \<Rightarrow> auth_error" where
  "unauthorized msg = AuthError 401 None msg"

definition already_exists :: auth_error where
  "already_exists = AuthError 409 None ''That already exists.''"

definition normal_email :: "string \<Rightarrow> string" where
  "normal_email email = js_trim (js_lower email)"

definition user_by_email :: "string \<Rightarrow> user_row list \<Rightarrow> user_row option" where
  "user_by_email email users = find (\<lambda>u. js_lower (ur_email u) = email) users"

definition user_by_id :: "string \<Rightarrow> user_row list \<Rightarrow> user_row option" where
  "user_by_id i users = find (\<lambda>u. ur_id u = i) users"

definition update_user :: "string \<Rightarrow> (user_row \<Rightarrow> user_row) \<Rightarrow> auth_db \<Rightarrow> auth_db" where
  "update_user i f db = db\<lparr>ad_users := map (\<lambda>u. if ur_id u = i then f u else u) (ad_users db)\<rparr>"

text \<open>The order of a user's memberships: accepted first, never accepted last, then age, then id.\<close>

fun text_before :: "string \<Rightarrow> string \<Rightarrow> bool" where
  "text_before [] t = (t \<noteq> [])"
| "text_before (c # s) [] = False"
| "text_before (c # s) (d # t) = (cu c < cu d \<or> c = d \<and> text_before s t)"

definition joined_before :: "membership_row \<Rightarrow> membership_row \<Rightarrow> bool" where
  "joined_before m n =
     (let by_age = (mb_created m < mb_created n \<or> mb_created m = mb_created n \<and> text_before (mb_id m) (mb_id n))
      in case (mb_accepted m, mb_accepted n) of
           (Some a, Some b) \<Rightarrow> a < b \<or> a = b \<and> by_age
         | (Some a, None) \<Rightarrow> True
         | (None, Some b) \<Rightarrow> False
         | (None, None) \<Rightarrow> by_age)"

definition active_members :: "string \<Rightarrow> auth_db \<Rightarrow> membership_row list" where
  "active_members user db = filter (\<lambda>m. mb_user m = Some user \<and> mb_status m = ''active'') (ad_members db)"

definition primary_membership :: "string \<Rightarrow> auth_db \<Rightarrow> auth_error + membership_row" where
  "primary_membership user db =
     (case active_members user db of
        [] \<Rightarrow> Inl (unauthorized ''Your account isn't attached to a workspace.'')
      | m # ms \<Rightarrow> Inr (fold (\<lambda>x best. if joined_before x best then x else best) ms m))"

definition active_membership :: "string \<Rightarrow> string \<Rightarrow> auth_db \<Rightarrow> membership_row option" where
  "active_membership user workspace db = find (\<lambda>m. mb_workspace m = workspace) (active_members user db)"

definition plan_for :: "string \<Rightarrow> auth_db \<Rightarrow> string" where
  "plan_for workspace db =
     or_else (map_option wk_plan (find (\<lambda>w. wk_id w = workspace) (ad_workspaces db))) ''Free''"

record auth_session =
  as_access :: string
  as_refresh :: string
  as_user :: string
  as_workspace :: string
  as_role :: string
  as_plan :: string

definition access_token_for :: "auth_env \<Rightarrow> user_row \<Rightarrow> string \<Rightarrow> string \<Rightarrow> string" where
  "access_token_for env u workspace role =
     ae_sign env (access_payload \<lparr> ac_sub = ur_id u, ac_wid = workspace, ac_role = role, ac_email = ur_email u \<rparr>)"

definition issue_session :: "auth_env \<Rightarrow> int \<Rightarrow> fresh_values \<Rightarrow> string option \<Rightarrow> user_row \<Rightarrow> string \<Rightarrow> string \<Rightarrow> auth_db
    \<Rightarrow> (auth_error + auth_session) \<times> auth_db" where
  "issue_session env now fv agent u workspace role db =
     (case issue_refresh_token now (ae_ttl_days env) (ae_dig env) (fv_row fv) (fv_token fv) (ur_id u) (fv_family fv) agent
             (ad_sessions db) of
        Inl e \<Rightarrow> (Inl already_exists, db)
      | Inr rows \<Rightarrow>
          (Inr \<lparr> as_access = access_token_for env u workspace role, as_refresh = fv_token fv, as_user = ur_id u,
                 as_workspace = workspace, as_role = role, as_plan = plan_for workspace db \<rparr>,
           db\<lparr>ad_sessions := rows\<rparr>))"

definition suspended_error :: "user_row \<Rightarrow> auth_error option" where
  "suspended_error u = (if ur_suspended u = None then None else Some (forbidden ''This account has been suspended.''))"

definition second_factor_on :: "user_row \<Rightarrow> bool" where
  "second_factor_on u = (ur_totp u \<noteq> None \<and> truthy (ur_secret u))"

datatype login_result = SignedIn auth_session | NeedsTotp string

text \<open>The end of every first factor: a suspension, the challenge of the second one, or the session.\<close>

definition enter_account :: "auth_env \<Rightarrow> int \<Rightarrow> fresh_values \<Rightarrow> string option \<Rightarrow> user_row \<Rightarrow> auth_db
    \<Rightarrow> (auth_error + login_result) \<times> auth_db" where
  "enter_account env now fv agent u db =
     (case suspended_error u of
        Some e \<Rightarrow> (Inl e, db)
      | None \<Rightarrow>
          if second_factor_on u then (Inr (NeedsTotp (ae_sign env (challenge_payload (ur_id u)))), db)
          else (case primary_membership (ur_id u) db of
                  Inl e \<Rightarrow> (Inl e, db)
                | Inr m \<Rightarrow> (case issue_session env now fv agent u (mb_workspace m) (mb_role m) db of
                             (Inl e, db') \<Rightarrow> (Inl e, db')
                           | (Inr s, db') \<Rightarrow> (Inr (SignedIn s), db'))))"

definition dummy_hash :: string where
  "dummy_hash = ''$argon2id$v=19$m=19456,t=2,p=1$c25hcHVybC1kdW1teS1zYWx0$4Xk1Yh0lPQKRZ0T0lLQKzXKXCVLuQ0dCMuoJXqLYQmY''"

definition login :: "auth_env \<Rightarrow> int \<Rightarrow> fresh_values \<Rightarrow> string option \<Rightarrow> string \<Rightarrow> string \<Rightarrow> auth_db
    \<Rightarrow> (auth_error + login_result) \<times> auth_db" where
  "login env now fv agent email password db =
     (let user = user_by_email (normal_email email) (ad_users db);
          hash = Option.bind user ur_hash;
          ok = ae_verify env (if truthy hash then the hash else dummy_hash) password
      in case user of
           None \<Rightarrow> (Inl (unauthorized ''That email and password don't match.''), db)
         | Some u \<Rightarrow>
             if \<not> truthy hash \<or> \<not> ok then (Inl (unauthorized ''That email and password don't match.''), db)
             else enter_account env now fv agent u db)"

section \<open>The second factor\<close>

definition strip_spaces :: "string \<Rightarrow> string" where
  "strip_spaces s = filter (\<lambda>c. \<not> is_js_space c) s"

definition verify_totp_code :: "auth_env \<Rightarrow> string \<Rightarrow> string \<Rightarrow> bool" where
  "verify_totp_code env code secret = ae_totp env (strip_spaces code) secret"

definition hash_recovery_code :: "auth_env \<Rightarrow> string \<Rightarrow> string" where
  "hash_recovery_code env code = ae_hash env (strip_spaces (js_upper code))"

definition verify_recovery_code :: "auth_env \<Rightarrow> string \<Rightarrow> string \<Rightarrow> bool" where
  "verify_recovery_code env hash code = ae_verify env hash (strip_spaces (js_upper code))"

text \<open>The guarded update that spends a recovery code: whether a row was claimed.\<close>

definition claim_recovery :: "int \<Rightarrow> string \<Rightarrow> recovery_row list \<Rightarrow> bool \<times> recovery_row list" where
  "claim_recovery now i rows =
     (length (filter (\<lambda>r. rc_id r = i \<and> rc_used r = None) rows) = 1,
      map (\<lambda>r. if rc_id r = i \<and> rc_used r = None then r\<lparr>rc_used := Some now\<rparr> else r) rows)"

definition unused_codes :: "string \<Rightarrow> recovery_row list \<Rightarrow> recovery_row list" where
  "unused_codes user rows = filter (\<lambda>r. rc_user r = user \<and> rc_used r = None) rows"

text \<open>The code is checked against what was read; the claim is made on the rows as they are by then.\<close>

definition accept_second_factor :: "auth_env \<Rightarrow> int \<Rightarrow> string \<Rightarrow> string \<Rightarrow> string \<Rightarrow> recovery_row list \<Rightarrow> recovery_row list
    \<Rightarrow> bool \<times> recovery_row list" where
  "accept_second_factor env now user secret code read rows =
     (if verify_totp_code env code secret then (True, rows)
      else (case find (\<lambda>r. verify_recovery_code env (rc_hash r) code) (unused_codes user read) of
              None \<Rightarrow> (False, rows)
            | Some r \<Rightarrow> claim_recovery now (rc_id r) rows))"

definition verify_totp :: "auth_env \<Rightarrow> int \<Rightarrow> fresh_values \<Rightarrow> string option \<Rightarrow> string \<Rightarrow> string \<Rightarrow> auth_db
    \<Rightarrow> (auth_error + auth_session) \<times> auth_db" where
  "verify_totp env now fv agent challenge code db =
     (case verify_challenge_token (ae_jwt env) challenge of
        Inl msg \<Rightarrow> (Inl (unauthorized msg), db)
      | Inr claim \<Rightarrow>
          (case (case claim of Some (ClaimText i) \<Rightarrow> user_by_id i (ad_users db) | _ \<Rightarrow> None) of
             None \<Rightarrow> (Inl (unauthorized ''Two-factor authentication isn't set up.''), db)
           | Some u \<Rightarrow>
               if \<not> truthy (ur_secret u) then (Inl (unauthorized ''Two-factor authentication isn't set up.''), db)
               else (case suspended_error u of
                  Some e \<Rightarrow> (Inl e, db)
                | None \<Rightarrow>
                    (case accept_second_factor env now (ur_id u) (the (ur_secret u)) code (ad_recovery db) (ad_recovery db) of
                       (False, rows) \<Rightarrow>
                         (Inl (unauthorized ''That code isn't right. Try the next one from your app.''), db\<lparr>ad_recovery := rows\<rparr>)
                     | (True, rows) \<Rightarrow>
                         (case primary_membership (ur_id u) db of
                            Inl e \<Rightarrow> (Inl e, db\<lparr>ad_recovery := rows\<rparr>)
                          | Inr m \<Rightarrow> issue_session env now fv agent u (mb_workspace m) (mb_role m) (db\<lparr>ad_recovery := rows\<rparr>))))))"

definition setup_totp :: "string \<Rightarrow> string \<Rightarrow> auth_db \<Rightarrow> (auth_error + string) \<times> auth_db" where
  "setup_totp secret user db =
     (case user_by_id user (ad_users db) of
        None \<Rightarrow> (Inl (unauthorized ''Unauthorized''), db)
      | Some u \<Rightarrow>
          if ur_totp u \<noteq> None
          then (Inl (bad_request ''Two-factor authentication is already on. Turn it off first to re-enrol.''), db)
          else (Inr secret, update_user user (\<lambda>u. u\<lparr>ur_secret := Some secret\<rparr>) db))"

definition enable_totp :: "auth_env \<Rightarrow> int \<Rightarrow> (nat \<Rightarrow> string) \<Rightarrow> string list \<Rightarrow> string \<Rightarrow> string \<Rightarrow> auth_db
    \<Rightarrow> (auth_error + string list) \<times> auth_db" where
  "enable_totp env now ids codes user code db =
     (case user_by_id user (ad_users db) of
        None \<Rightarrow> (Inl (bad_request ''Start by scanning the QR code.''), db)
      | Some u \<Rightarrow>
          if \<not> truthy (ur_secret u) then (Inl (bad_request ''Start by scanning the QR code.''), db)
          else if \<not> verify_totp_code env code (the (ur_secret u))
          then (Inl (bad_request ''That code isn't right. Check your app and try the current code.''), db)
          else
            let rows = filter (\<lambda>r. rc_user r \<noteq> user) (ad_recovery db)
                  @ map (\<lambda>(n, c). \<lparr> rc_id = ids n, rc_user = user, rc_hash = hash_recovery_code env c, rc_used = None \<rparr>)
                      (zip [0..<length codes] codes)
            in (Inr codes, (update_user user (\<lambda>u. u\<lparr>ur_totp := Some now\<rparr>) db)\<lparr>ad_recovery := rows\<rparr>))"

definition disable_totp :: "auth_env \<Rightarrow> string \<Rightarrow> string \<Rightarrow> auth_db \<Rightarrow> auth_error option \<times> auth_db" where
  "disable_totp env user password db =
     (case user_by_id user (ad_users db) of
        None \<Rightarrow> (Some (unauthorized ''Unauthorized''), db)
      | Some u \<Rightarrow>
          if \<not> truthy (ur_hash u) then
            (Some (unauthorized
               ''This account signs in with a provider and has no password, so two-factor authentication can't be turned off this way.''), db)
          else if \<not> ae_verify env (the (ur_hash u)) password then (Some (unauthorized ''That password isn't right.''), db)
          else (None, (update_user user (\<lambda>u. u\<lparr>ur_secret := None, ur_totp := None\<rparr>) db)
                        \<lparr>ad_recovery := filter (\<lambda>r. rc_user r \<noteq> user) (ad_recovery db)\<rparr>))"

section \<open>Keeping and leaving a session\<close>

definition refresh :: "auth_env \<Rightarrow> int \<Rightarrow> fresh_values \<Rightarrow> string option \<Rightarrow> string \<Rightarrow> string option \<Rightarrow> auth_db
    \<Rightarrow> (auth_error + string \<times> string) \<times> auth_db" where
  "refresh env now fv agent token workspace db =
     (case rotate_token now (ae_ttl_days env) (ae_dig env) (fv_row fv) (fv_token fv) agent token (ad_sessions db) of
        (Inl msg, rows) \<Rightarrow> (Inl (if msg = duplicate_key then already_exists else unauthorized msg), db\<lparr>ad_sessions := rows\<rparr>)
      | (Inr (user, successor), rows) \<Rightarrow>
          let db' = db\<lparr>ad_sessions := rows\<rparr> in
          (case user_by_id user (ad_users db) of
             None \<Rightarrow> (Inl (unauthorized ''Unauthorized''), db')
           | Some u \<Rightarrow>
               (case suspended_error u of
                  Some e \<Rightarrow> (Inl e, db')
                | None \<Rightarrow>
                    (case (case Option.bind workspace (\<lambda>w. if w = [] then None else active_membership user w db) of
                             Some m \<Rightarrow> Inr m | None \<Rightarrow> primary_membership user db) of
                       Inl e \<Rightarrow> (Inl e, db')
                     | Inr m \<Rightarrow> (Inr (access_token_for env u (mb_workspace m) (mb_role m), successor), db')))))"

text \<open>To learn whose token it is, signing out of every device rotates it.\<close>

definition user_id_for_refresh_token :: "auth_env \<Rightarrow> int \<Rightarrow> fresh_values \<Rightarrow> string \<Rightarrow> refresh_row list
    \<Rightarrow> string option \<times> refresh_row list" where
  "user_id_for_refresh_token env now fv token rows =
     (case rotate_token now (ae_ttl_days env) (ae_dig env) (fv_row fv) (fv_token fv) None token rows of
        (Inl msg, rows') \<Rightarrow> (None, rows')
      | (Inr (user, successor), rows') \<Rightarrow> (Some user, rows'))"

definition logout :: "auth_env \<Rightarrow> int \<Rightarrow> fresh_values \<Rightarrow> string \<Rightarrow> bool \<Rightarrow> refresh_row list \<Rightarrow> refresh_row list" where
  "logout env now fv token all_devices rows =
     (if all_devices then
        (case user_id_for_refresh_token env now fv token rows of
           (None, rows') \<Rightarrow> rows'
         | (Some user, rows') \<Rightarrow> if user = [] then rows' else revoke_all_for_user now user rows')
      else revoke_by_token now (ae_dig env) token rows)"

section \<open>Password reset and email verification\<close>

text \<open>\<open>mail\<close> is the error the mail service throws, if it does.\<close>

definition request_password_reset :: "auth_env \<Rightarrow> int \<Rightarrow> fresh_values \<Rightarrow> auth_error option \<Rightarrow> string \<Rightarrow> auth_db
    \<Rightarrow> auth_error option \<times> auth_db" where
  "request_password_reset env now fv mail email db =
     (case user_by_email (normal_email email) (ad_users db) of
        None \<Rightarrow> (None, db)
      | Some u \<Rightarrow>
          if \<not> truthy (ur_hash u) then (None, db)
          else (case issue_password_reset_token now (ae_dig env) (fv_row fv) (fv_token fv) (ur_id u) (ad_resets db) of
                  (Inl e, rows) \<Rightarrow> (Some already_exists, db)
                | (Inr token, rows) \<Rightarrow> (mail, db\<lparr>ad_resets := rows\<rparr>)))"

definition confirm_password_reset :: "auth_env \<Rightarrow> int \<Rightarrow> string \<Rightarrow> string \<Rightarrow> auth_db \<Rightarrow> auth_error option \<times> auth_db" where
  "confirm_password_reset env now token password db =
     (case consume_password_reset_token now (ae_dig env) token (ad_resets db) of
        (Inl msg, rows) \<Rightarrow> (Some (unauthorized msg), db\<lparr>ad_resets := rows\<rparr>)
      | (Inr user, rows) \<Rightarrow>
          (None, (update_user user (\<lambda>u. u\<lparr>ur_hash := Some (ae_hash env password)\<rparr>) (db\<lparr>ad_resets := rows\<rparr>))
                   \<lparr>ad_sessions := revoke_all_for_user now user (ad_sessions db)\<rparr>))"

definition owned_links :: "string \<Rightarrow> auth_db \<Rightarrow> string list" where
  "owned_links user db =
     concat (map (\<lambda>(l, w). map (\<lambda>m. l)
       (filter (\<lambda>m. mb_workspace m = w \<and> mb_role m = ''owner'') (active_members user db))) (ad_links db))"

definition enqueue_owner_link_reprojection :: "string \<Rightarrow> auth_db \<Rightarrow> auth_db" where
  "enqueue_owner_link_reprojection user db = db\<lparr>ad_outbox := ad_outbox db @ owned_links user db\<rparr>"

definition verify_email :: "auth_env \<Rightarrow> int \<Rightarrow> string \<Rightarrow> auth_db \<Rightarrow> auth_error option \<times> auth_db" where
  "verify_email env now token db =
     (case consume_email_verification_token now (ae_dig env) token (ad_verifications db) of
        (Inl msg, rows) \<Rightarrow> (Some (unauthorized msg), db\<lparr>ad_verifications := rows\<rparr>)
      | (Inr user, rows) \<Rightarrow>
          (None, enqueue_owner_link_reprojection user
                   (update_user user (\<lambda>u. u\<lparr>ur_verified := Some now\<rparr>) (db\<lparr>ad_verifications := rows\<rparr>))))"

definition resend_email_verification :: "auth_env \<Rightarrow> int \<Rightarrow> fresh_values \<Rightarrow> auth_error option \<Rightarrow> string \<Rightarrow> auth_db
    \<Rightarrow> auth_error option \<times> auth_db" where
  "resend_email_verification env now fv mail email db =
     (case user_by_email (normal_email email) (ad_users db) of
        None \<Rightarrow> (None, db)
      | Some u \<Rightarrow>
          if ur_verified u \<noteq> None then (None, db)
          else (case issue_email_verification_token now (ae_dig env) (fv_row fv) (fv_token fv) (ur_id u) (ad_verifications db) of
                  (Inl e, rows) \<Rightarrow> (Some already_exists, db)
                | (Inr token, rows) \<Rightarrow> (mail, db\<lparr>ad_verifications := rows\<rparr>)))"

section \<open>New accounts\<close>

fun dash_runs :: "string \<Rightarrow> string" where
  "dash_runs [] = []"
| "dash_runs (c # s) =
     (if is_lower_alpha c \<or> is_digit c then c # dash_runs s
      else (case dash_runs s of CHR ''-'' # r \<Rightarrow> CHR ''-'' # r | r \<Rightarrow> CHR ''-'' # r))"

definition slugify :: "string \<Rightarrow> string" where
  "slugify v =
     take 40 (rev (dropWhile (\<lambda>c. c = CHR ''-'') (rev (dropWhile (\<lambda>c. c = CHR ''-'') (dash_runs (js_lower v))))))"

definition slug_candidate :: "string \<Rightarrow> (nat \<Rightarrow> string) \<Rightarrow> nat \<Rightarrow> string" where
  "slug_candidate base suffix attempt =
     (if attempt = 0 then base
      else if attempt < 20 then base @ ''-'' @ show_nat (attempt + 1)
      else base @ ''-'' @ suffix attempt)"

text \<open>The insert-or-retry loop; \<open>None\<close> after thirty attempts is the error it throws.\<close>

fun insert_workspace_loop :: "nat list \<Rightarrow> string \<Rightarrow> (nat \<Rightarrow> string) \<Rightarrow> string \<Rightarrow> string \<Rightarrow> workspace_row list
    \<Rightarrow> (workspace_row \<times> workspace_row list) option" where
  "insert_workspace_loop [] base suffix i name rows = None"
| "insert_workspace_loop (a # as) base suffix i name rows =
     (let slug = slug_candidate base suffix a in
      if list_ex (\<lambda>w. wk_slug w = slug) rows then insert_workspace_loop as base suffix i name rows
      else let w = \<lparr> wk_id = i, wk_name = name, wk_slug = slug, wk_plan = ''Free'', wk_domain = None \<rparr>
           in Some (w, rows @ [w]))"

definition insert_workspace_with_unique_slug :: "string \<Rightarrow> (nat \<Rightarrow> string) \<Rightarrow> string \<Rightarrow> string \<Rightarrow> workspace_row list
    \<Rightarrow> (workspace_row \<times> workspace_row list) option" where
  "insert_workspace_with_unique_slug base suffix i name rows = insert_workspace_loop [0..<30] base suffix i name rows"

definition provision_workspace :: "auth_env \<Rightarrow> int \<Rightarrow> fresh_values \<Rightarrow> string \<Rightarrow> string \<Rightarrow> string \<Rightarrow> auth_db
    \<Rightarrow> (workspace_row \<times> auth_db) option" where
  "provision_workspace env now fv user display_name email db =
     (let base = (if slugify display_name = [] then ''workspace'' else slugify display_name);
          name = js_trim display_name @ CHR 0x27 # ''s workspace''
      in case insert_workspace_with_unique_slug base (fv_suffix fv) (fv_workspace fv) name (ad_workspaces db) of
           None \<Rightarrow> None
         | Some (w, rows) \<Rightarrow>
             let known = (\<lambda>d. js_lower (snd d) = js_lower (ae_default_domain env));
                 domains = (if list_ex known (ad_domains db) then ad_domains db
                            else ad_domains db @ [(fv_domain fv, ae_default_domain env)]);
                 rows' = (case find known domains of
                            None \<Rightarrow> rows
                          | Some d \<Rightarrow> map (\<lambda>x. if wk_id x = wk_id w then x\<lparr>wk_domain := Some (fst d)\<rparr> else x) rows)
             in Some (w, db\<lparr>ad_workspaces := rows', ad_domains := domains,
                  ad_members := ad_members db @ [\<lparr> mb_id = fv_member fv, mb_workspace = wk_id w, mb_user = Some user,
                    mb_email = email, mb_role = ''owner'', mb_status = ''active'', mb_invite = None, mb_invited = None,
                    mb_accepted = Some now, mb_created = now \<rparr>]\<rparr>))"

text \<open>The user row and its workspace in one transaction: nothing is kept when either insert fails.\<close>

definition create_account :: "auth_env \<Rightarrow> int \<Rightarrow> fresh_values \<Rightarrow> user_row \<Rightarrow> string \<Rightarrow> auth_db
    \<Rightarrow> (auth_error + workspace_row) \<times> auth_db" where
  "create_account env now fv u display_name db =
     (if list_ex (\<lambda>x. js_lower (ur_email x) = js_lower (ur_email u)) (ad_users db) then (Inl already_exists, db)
      else (case provision_workspace env now fv (ur_id u) display_name (ur_email u) (db\<lparr>ad_users := ad_users db @ [u]\<rparr>) of
              None \<Rightarrow> (Inl (AuthError 500 None ''Could not allocate a unique workspace slug''), db)
            | Some (w, db') \<Rightarrow> (Inr w, db')))"

definition admit :: "signup_env \<Rightarrow> signup_mode \<Rightarrow> bool \<Rightarrow> string \<Rightarrow> string option \<Rightarrow> string option \<Rightarrow> auth_db
    \<Rightarrow> auth_error option \<times> auth_db" where
  "admit sg mode writable email challenge ip db =
     (case assert_signups_allow mode of
        Some e \<Rightarrow> (Some e, db)
      | None \<Rightarrow>
          (case assert_new_account_allowed sg email challenge ip of
             Some (why, e) \<Rightarrow> (Some e, db\<lparr>ad_refusals := record_refusal writable why email (ad_refusals db)\<rparr>)
           | None \<Rightarrow> (None, db)))"

record register_input =
  ri_name :: string
  ri_email :: string
  ri_password :: string
  ri_challenge :: "string option"

text \<open>A verification token that cannot be issued or mailed is swallowed; \<open>verify_fv\<close> are its random values.\<close>

definition register :: "auth_env \<Rightarrow> signup_env \<Rightarrow> signup_mode \<Rightarrow> bool \<Rightarrow> int \<Rightarrow> fresh_values \<Rightarrow> fresh_values \<Rightarrow> string option
    \<Rightarrow> string option \<Rightarrow> register_input \<Rightarrow> auth_db \<Rightarrow> (auth_error + auth_session) \<times> auth_db" where
  "register env sg mode writable now fv verify_fv agent ip input db =
     (let email = normal_email (ri_email input) in
      case admit sg mode writable email (ri_challenge input) ip db of
        (Some e, db1) \<Rightarrow> (Inl e, db1)
      | (None, db1) \<Rightarrow>
          if user_by_email email (ad_users db1) \<noteq> None
          then (Inl (AuthError 409 None ''An account with that email already exists. Try signing in instead.''), db1)
          else
            let u = \<lparr> ur_id = fv_user fv, ur_name = js_trim (ri_name input), ur_email = email,
                      ur_hash = Some (ae_hash env (ri_password input)), ur_verified = None, ur_secret = None,
                      ur_totp = None, ur_suspended = None \<rparr>
            in (case create_account env now fv u (ri_name input) db1 of
                  (Inl e, db2) \<Rightarrow> (Inl e, db2)
                | (Inr w, db2) \<Rightarrow>
                    let db3 = db2\<lparr>ad_verifications := snd (issue_email_verification_token now (ae_dig env) (fv_row verify_fv)
                                (fv_token verify_fv) (ur_id u) (ad_verifications db2))\<rparr>
                    in issue_session env now fv agent u (wk_id w) ''owner'' db3))"

record oauth_profile =
  op_subject :: string
  op_email :: string
  op_verified :: bool
  op_name :: "string option"

definition display_name_of :: "oauth_profile \<Rightarrow> string" where
  "display_name_of prof = or_else (op_name prof) (hd (split_on CHR ''@'' (op_email prof)))"

definition link_identity :: "string \<Rightarrow> oauth_profile \<Rightarrow> string \<Rightarrow> auth_db \<Rightarrow> auth_db" where
  "link_identity provider prof user db =
     db\<lparr>ad_identities := ad_identities db @ [\<lparr> oi_user = user, oi_provider = provider, oi_subject = op_subject prof \<rparr>]\<rparr>"

text \<open>Whose account a verified profile opens, linking or creating one.\<close>

definition oauth_account :: "auth_env \<Rightarrow> signup_env \<Rightarrow> signup_mode \<Rightarrow> bool \<Rightarrow> int \<Rightarrow> fresh_values \<Rightarrow> string \<Rightarrow> oauth_profile
    \<Rightarrow> string option \<Rightarrow> string option \<Rightarrow> auth_db \<Rightarrow> (auth_error + string) \<times> auth_db" where
  "oauth_account env sg mode writable now fv provider prof challenge ip db =
     (case find (\<lambda>x. oi_provider x = provider \<and> oi_subject x = op_subject prof) (ad_identities db) of
        Some x \<Rightarrow> (Inr (oi_user x), db)
      | None \<Rightarrow>
          (case user_by_email (op_email prof) (ad_users db) of
             Some u \<Rightarrow>
               if \<not> op_verified prof then
                 (Inl (unauthorized ''That provider has not verified this email address, so it cannot be linked to an existing account. Sign in with your password instead.''), db)
               else (Inr (ur_id u), link_identity provider prof (ur_id u) db)
           | None \<Rightarrow>
               (case admit sg mode writable (op_email prof) challenge ip db of
                  (Some e, db1) \<Rightarrow> (Inl e, db1)
                | (None, db1) \<Rightarrow>
                    let u = \<lparr> ur_id = fv_user fv, ur_name = display_name_of prof, ur_email = op_email prof, ur_hash = None,
                              ur_verified = (if op_verified prof then Some now else None), ur_secret = None,
                              ur_totp = None, ur_suspended = None \<rparr>
                    in (case create_account env now fv u (display_name_of prof) db1 of
                          (Inl e, db2) \<Rightarrow> (Inl e, db2)
                        | (Inr w, db2) \<Rightarrow> (Inr (ur_id u), link_identity provider prof (ur_id u) db2)))))"

definition oauth_sign_in :: "auth_env \<Rightarrow> signup_env \<Rightarrow> signup_mode \<Rightarrow> bool \<Rightarrow> int \<Rightarrow> fresh_values \<Rightarrow> string option
    \<Rightarrow> string \<Rightarrow> auth_error + oauth_profile \<Rightarrow> string option \<Rightarrow> string option \<Rightarrow> auth_db
    \<Rightarrow> (auth_error + login_result) \<times> auth_db" where
  "oauth_sign_in env sg mode writable now fv agent provider verified challenge ip db =
     (case verified of
        Inl e \<Rightarrow> (Inl e, db)
      | Inr prof \<Rightarrow>
          (case oauth_account env sg mode writable now fv provider prof challenge ip db of
             (Inl e, db') \<Rightarrow> (Inl e, db')
           | (Inr i, db') \<Rightarrow>
               (case user_by_id i (ad_users db') of
                  None \<Rightarrow> (Inl (unauthorized ''Unauthorized''), db')
                | Some u \<Rightarrow> enter_account env now fv agent u db')))"

section \<open>Invitations\<close>

definition invite_ttl_ms :: int where
  "invite_ttl_ms = 7 * 86400000"

definition invite_error :: "nat \<Rightarrow> string \<Rightarrow> string \<Rightarrow> auth_error" where
  "invite_error status code msg = AuthError status (Some code) msg"

definition invite_invalid :: auth_error where
  "invite_invalid = invite_error 404 ''invite_invalid''
     ''This invitation link isn't valid. Ask the person who invited you to send a new one.''"

definition invite_used :: auth_error where
  "invite_used = invite_error 409 ''invite_used'' ''This invitation has already been accepted.''"

text \<open>The checks before the write, in their order; the right side is the invitation and the user.\<close>

definition examine_invite :: "auth_env \<Rightarrow> int \<Rightarrow> string \<Rightarrow> string \<Rightarrow> auth_db \<Rightarrow> auth_error + membership_row \<times> user_row" where
  "examine_invite env now user token db =
     (case find (\<lambda>m. mb_invite m = Some (ae_dig env token)) (ad_members db) of
        None \<Rightarrow> Inl invite_invalid
      | Some it \<Rightarrow>
          if mb_status it \<noteq> ''invited'' then Inl invite_used
          else if invite_ttl_ms < now - or_else (mb_invited it) (mb_created it)
          then Inl (invite_error 410 ''invite_expired''
                 ''This invitation has expired. Ask the person who invited you to resend it.'')
          else (case user_by_id user (ad_users db) of
             None \<Rightarrow> Inl (unauthorized ''Unauthorized'')
           | Some u \<Rightarrow>
               if normal_email (ur_email u) \<noteq> normal_email (mb_email it) \<or> mb_user it \<noteq> None \<and> mb_user it \<noteq> Some (ur_id u)
               then Inl (invite_error 403 ''invite_email_mismatch''
                 ''This invitation was sent to a different email address. Sign in with the address it was sent to.'')
               else if ur_verified u = None
               then Inl (invite_error 403 ''email_unverified''
                 ''Verify your email address first, then open the invitation link again.'')
               else if active_membership (ur_id u) (mb_workspace it) db \<noteq> None
               then Inl (invite_error 409 ''already_member'' ''You're already a member of this workspace.'')
               else Inr (it, u)))"

text \<open>The guarded update and its audit row, over the rows as they are when it runs.\<close>

definition activate_invite :: "auth_env \<Rightarrow> int \<Rightarrow> string \<Rightarrow> membership_row \<Rightarrow> user_row \<Rightarrow> auth_db
    \<Rightarrow> (auth_error + membership_row) \<times> auth_db" where
  "activate_invite env now token it u db =
     (let mine = (\<lambda>m. mb_id m = mb_id it \<and> mb_status m = ''invited'' \<and> mb_invite m = Some (ae_dig env token));
          joined = (\<lambda>m. m\<lparr>mb_status := ''active'', mb_user := Some (ur_id u), mb_accepted := Some now\<rparr>)
      in case find mine (ad_members db) of
           Some m \<Rightarrow>
             (Inr (joined m),
              db\<lparr>ad_members := map (\<lambda>x. if mine x then joined x else x) (ad_members db),
                 ad_audit := ad_audit db @ [(mb_workspace m, ur_id u, ''member.joined'')]\<rparr>)
         | None \<Rightarrow>
             (case find (\<lambda>m. mb_id m = mb_id it) (ad_members db) of
                Some m \<Rightarrow> if mb_status m \<noteq> ''invited'' \<and> mb_invite m = Some (ae_dig env token) then (Inl invite_used, db)
                          else (Inl invite_invalid, db)
              | None \<Rightarrow> (Inl invite_invalid, db)))"

definition accept_invite :: "auth_env \<Rightarrow> int \<Rightarrow> string \<Rightarrow> string \<Rightarrow> auth_db \<Rightarrow> (auth_error + membership_row) \<times> auth_db" where
  "accept_invite env now user token db =
     (case examine_invite env now user token db of
        Inl e \<Rightarrow> (Inl e, db)
      | Inr (it, u) \<Rightarrow> activate_invite env now token it u db)"

text \<open>Who a session is, checked against the membership as it is now.\<close>

definition me_check :: "string \<Rightarrow> string option \<Rightarrow> string option \<Rightarrow> auth_db \<Rightarrow> auth_error + user_row \<times> membership_row" where
  "me_check user workspace token_role db =
     (case user_by_id user (ad_users db) of
        None \<Rightarrow> Inl (unauthorized ''Unauthorized'')
      | Some u \<Rightarrow>
          if truthy workspace then
            (case active_membership user (the workspace) db of
               None \<Rightarrow> Inl (unauthorized ''Your access to this workspace has changed.'')
             | Some m \<Rightarrow>
                 if token_role \<noteq> None \<and> token_role \<noteq> Some (mb_role m)
                 then Inl (unauthorized ''Your access to this workspace has changed.'')
                 else Inr (u, m))
          else (case primary_membership user db of Inl e \<Rightarrow> Inl e | Inr m \<Rightarrow> Inr (u, m)))"

end
