(* ===== verification/Auth_Props.thy ===== *)
theory Auth_Props
  imports Auth
begin

text \<open>
  What signing in guarantees: a session needs every factor, refusals look alike, a suspended account gets
  nothing, closed sign-ups add nobody, and recovery codes and invitations are spent once; and where the
  service does less than it says (sign-out of every device, the reset request, provider linking).
\<close>

lemma find_SomeD: "find p xs = Some x \<Longrightarrow> x \<in> set xs \<and> p x"
  by (auto simp: find_Some_iff)

lemma user_by_idD: "user_by_id i us = Some u \<Longrightarrow> u \<in> set us \<and> ur_id u = i"
  by (auto simp: user_by_id_def dest: find_SomeD)

lemma user_by_emailD: "user_by_email e us = Some u \<Longrightarrow> u \<in> set us \<and> js_lower (ur_email u) = e"
  by (auto simp: user_by_email_def dest: find_SomeD)

lemma active_membersD: "m \<in> set (active_members u db) \<Longrightarrow> m \<in> set (ad_members db) \<and> mb_user m = Some u \<and> mb_status m = ''active''"
  by (simp add: active_members_def)

lemma fold_pick: "fold (\<lambda>x best. if p x best then x else best) xs m \<in> insert m (set xs)"
  by (induction xs arbitrary: m) fastforce+

lemma primary_membershipD: "primary_membership u db = Inr m \<Longrightarrow> m \<in> set (active_members u db)"
  using fold_pick [of joined_before] by (fastforce simp: primary_membership_def split: list.splits)

lemma active_membershipD:
  "active_membership u w db = Some m \<Longrightarrow> m \<in> set (active_members u db) \<and> mb_workspace m = w"
  by (auto simp: active_membership_def dest: find_SomeD)

lemma issue_sessionD:
  assumes "issue_session env now fv agent u w role db = (Inr s, db')"
  shows "as_user s = ur_id u" "as_workspace s = w" "as_role s = role" "as_refresh s = fv_token fv"
    "as_access s = access_token_for env u w role"
    "ad_users db' = ad_users db" "ad_recovery db' = ad_recovery db" "ad_members db' = ad_members db"
  using assms by (auto simp: issue_session_def split: sum.splits)

text \<open>What a session says is true: its user is not suspended and holds that role in that workspace.\<close>

definition session_of :: "auth_session \<Rightarrow> user_row \<Rightarrow> auth_db \<Rightarrow> bool" where
  "session_of s u db =
     (u \<in> set (ad_users db) \<and> as_user s = ur_id u \<and> ur_suspended u = None
      \<and> (\<exists>m \<in> set (active_members (ur_id u) db). as_workspace s = mb_workspace m \<and> as_role s = mb_role m))"

lemma suspended_error_None [simp]: "suspended_error u = None \<longleftrightarrow> ur_suspended u = None"
  by (simp add: suspended_error_def)

lemma enter_account_SignedIn:
  assumes "enter_account env now fv agent u db = (Inr (SignedIn s), db')" "u \<in> set (ad_users db)"
  shows "session_of s u db \<and> \<not> second_factor_on u"
proof -
  obtain m where m: "ur_suspended u = None" "\<not> second_factor_on u" "primary_membership (ur_id u) db = Inr m"
    "issue_session env now fv agent u (mb_workspace m) (mb_role m) db = (Inr s, db')"
    using assms(1) by (auto simp: enter_account_def split: option.splits if_splits sum.splits prod.splits)
  then show ?thesis
    using issue_sessionD [OF m(4)] primary_membershipD [OF m(3)] assms(2) by (auto simp: session_of_def)
qed

text \<open>
  C24. A password alone opens only an account without a second factor: a session from the password form
  belongs to the account of that address, whose stored hash accepts the password, which is not suspended
  and has no second factor, and names a workspace and role its user holds now.
\<close>

theorem password_session_sound:
  assumes "login env now fv agent email password db = (Inr (SignedIn s), db')"
  shows "\<exists>u hash. session_of s u db \<and> js_lower (ur_email u) = normal_email email \<and> ur_hash u = Some hash
    \<and> ae_verify env hash password \<and> \<not> second_factor_on u"
proof -
  obtain u where u: "user_by_email (normal_email email) (ad_users db) = Some u" "truthy (ur_hash u)"
    "ae_verify env (the (ur_hash u)) password" "enter_account env now fv agent u db = (Inr (SignedIn s), db')"
    using assms by (auto simp: login_def Let_def split: option.splits if_splits)
  obtain hash where "ur_hash u = Some hash" using u(2) by (auto elim: truthyE)
  then show ?thesis
    using enter_account_SignedIn [OF u(4)] user_by_emailD [OF u(1)] u(3) by auto
qed

text \<open>A row that was claimed is used; a claim needs an unused row.\<close>

lemma claim_recoveryD:
  assumes "claim_recovery now i rows = (True, rows')"
  shows "\<exists>r \<in> set rows. rc_id r = i \<and> rc_used r = None" "\<forall>r \<in> set rows'. rc_id r = i \<longrightarrow> rc_used r \<noteq> None"
proof -
  have "filter (\<lambda>r. rc_id r = i \<and> rc_used r = None) rows \<noteq> []" using assms by (auto simp: claim_recovery_def)
  then show "\<exists>r \<in> set rows. rc_id r = i \<and> rc_used r = None" by (auto simp: filter_empty_conv)
  show "\<forall>r \<in> set rows'. rc_id r = i \<longrightarrow> rc_used r \<noteq> None"
  proof (intro ballI impI)
    fix r assume "r \<in> set rows'" "rc_id r = i"
    moreover have "rows' = map (\<lambda>r. if rc_id r = i \<and> rc_used r = None then r\<lparr>rc_used := Some now\<rparr> else r) rows"
      using assms by (simp add: claim_recovery_def)
    ultimately obtain x where "r = (if rc_id x = i \<and> rc_used x = None then x\<lparr>rc_used := Some now\<rparr> else x)"
      by (simp only: set_map) (erule imageE)
    then show "rc_used r \<noteq> None" using \<open>rc_id r = i\<close> by (cases "rc_used x") (simp_all split: if_splits)
  qed
qed

text \<open>
  C25. The second factor is not skipped: a session from the code form follows a challenge token issued to
  its user, who is not suspended; the code is the authenticator's, or it matched a recovery code of the
  user that was unused and is used from then on.
\<close>

theorem second_factor_session_sound:
  assumes "verify_totp env now fv agent challenge code db = (Inr s, db')"
  shows "\<exists>u secret. session_of s u db \<and> ur_secret u = Some secret
    \<and> verify_challenge_token (ae_jwt env) challenge = Inr (Some (ClaimText (ur_id u)))
    \<and> (verify_totp_code env code secret
       \<or> (\<exists>r \<in> set (ad_recovery db). rc_user r = ur_id u \<and> rc_used r = None \<and> verify_recovery_code env (rc_hash r) code
            \<and> (\<forall>r' \<in> set (ad_recovery db'). rc_id r' = rc_id r \<longrightarrow> rc_used r' \<noteq> None)))"
proof -
  obtain i u rows m where
    c: "verify_challenge_token (ae_jwt env) challenge = Inr (Some (ClaimText i))" and
    u: "user_by_id i (ad_users db) = Some u" "truthy (ur_secret u)" "ur_suspended u = None" and
    acc: "accept_second_factor env now (ur_id u) (the (ur_secret u)) code (ad_recovery db) (ad_recovery db) = (True, rows)" and
    m: "primary_membership (ur_id u) db = Inr m"
       "issue_session env now fv agent u (mb_workspace m) (mb_role m) (db\<lparr>ad_recovery := rows\<rparr>) = (Inr s, db')"
    using assms
    by (auto simp: verify_totp_def split: sum.splits option.splits claim_value.splits if_splits prod.splits bool.splits)
  obtain secret where secret: "ur_secret u = Some secret" using u(2) by (auto elim: truthyE)
  have s: "session_of s u db"
    using issue_sessionD [OF m(2)] primary_membershipD [OF m(1)] user_by_idD [OF u(1)] u(3) by (auto simp: session_of_def)
  have rows: "ad_recovery db' = rows" using issue_sessionD(7) [OF m(2)] by simp
  have "verify_totp_code env code secret
       \<or> (\<exists>r \<in> set (ad_recovery db). rc_user r = ur_id u \<and> rc_used r = None \<and> verify_recovery_code env (rc_hash r) code
            \<and> (\<forall>r' \<in> set (ad_recovery db'). rc_id r' = rc_id r \<longrightarrow> rc_used r' \<noteq> None))"
  proof (cases "verify_totp_code env code secret")
    case False
    then obtain r where r: "find (\<lambda>r. verify_recovery_code env (rc_hash r) code) (unused_codes (ur_id u) (ad_recovery db)) = Some r"
      "claim_recovery now (rc_id r) (ad_recovery db) = (True, rows)"
      using acc secret by (auto simp: accept_second_factor_def split: option.splits)
    then show ?thesis
      using find_SomeD [OF r(1)] claim_recoveryD(2) [OF r(2)] rows by (auto simp: unused_codes_def)
  qed simp
  then show ?thesis using s secret c user_by_idD [OF u(1)] by blast
qed

text \<open>Of two requests that found the same recovery code, whichever claims second is refused.\<close>

lemma recovery_code_claimed_once:
  assumes "claim_recovery now i rows = (True, rows')"
  shows "\<not> fst (claim_recovery later i rows')"
proof -
  have "filter (\<lambda>r. rc_id r = i \<and> rc_used r = None) rows' = []"
    using claim_recoveryD(2) [OF assms] by (auto simp: filter_empty_conv)
  then show ?thesis by (simp add: claim_recovery_def)
qed

text \<open>
  The password form does not tell accounts apart: an address nobody has, an account without a
  password and a wrong password all give the same answer, and leave the tables as they were.
\<close>

theorem login_refusals_alike:
  assumes "user_by_email (normal_email email) (ad_users db) = None
    \<or> (\<exists>u. user_by_email (normal_email email) (ad_users db) = Some u
         \<and> (\<not> truthy (ur_hash u) \<or> \<not> ae_verify env (the (ur_hash u)) password))"
  shows "login env now fv agent email password db = (Inl (unauthorized ''That email and password don't match.''), db)"
  using assms by (auto simp: login_def Let_def)

text \<open>Refreshing gives a suspended or removed user nothing, and the claims are those of today.\<close>

lemma refresh_sound:
  assumes "refresh env now fv agent token workspace db = (Inr (access, successor), db')"
  shows "\<exists>u m. u \<in> set (ad_users db) \<and> ur_suspended u = None \<and> m \<in> set (active_members (ur_id u) db)
    \<and> access = access_token_for env u (mb_workspace m) (mb_role m)"
proof -
  obtain user rows u m where
    "rotate_token now (ae_ttl_days env) (ae_dig env) (fv_row fv) (fv_token fv) agent token (ad_sessions db) = (Inr (user, successor), rows)"
    and u: "user_by_id user (ad_users db) = Some u" "ur_suspended u = None"
    and m: "(case Option.bind workspace (\<lambda>w. if w = [] then None else active_membership user w db) of
                             Some m \<Rightarrow> Inr m | None \<Rightarrow> primary_membership user db) = Inr m"
    and a: "access = access_token_for env u (mb_workspace m) (mb_role m)"
    using assms by (auto simp: refresh_def Let_def split: prod.splits sum.splits option.splits)
  have "m \<in> set (active_members user db)"
    using m by (auto split: option.splits bind_splits if_splits dest: primary_membershipD active_membershipD)
  then show ?thesis using u a user_by_idD [OF u(1)] by blast
qed

section \<open>Who can join\<close>

lemma enter_account_users [simp]: "ad_users (snd (enter_account env now fv agent u db)) = ad_users db"
  by (auto simp: enter_account_def issue_session_def split: option.splits sum.splits)

text \<open>
  Closed means closed: while sign-ups are not open, neither the registration form nor a first sign-in
  with a provider adds an account, whatever is sent, an invitation included.
\<close>

theorem closed_signups_add_nobody:
  assumes "mode \<noteq> SignupsOpen"
  shows "ad_users (snd (register env sg mode writable now fv verify_fv agent ip input db)) = ad_users db
    \<and> ad_users (snd (oauth_sign_in env sg mode writable now fv agent provider verified challenge ip db)) = ad_users db"
proof -
  obtain e where e: "assert_signups_allow mode = Some e" using assms by (cases mode) (simp_all add: assert_signups_allow_def)
  have reg: "ad_users (snd (register env sg mode writable now fv verify_fv agent ip input db)) = ad_users db"
    by (simp add: register_def admit_def e Let_def)
  have acc: "ad_users (snd (oauth_account env sg mode writable now fv provider prof challenge ip db)) = ad_users db" for prof
    by (auto simp: oauth_account_def admit_def e link_identity_def split: option.splits)
  have "ad_users (snd (oauth_sign_in env sg mode writable now fv agent provider verified challenge ip db)) = ad_users db"
  proof (cases verified)
    case (Inr prof)
    show ?thesis
      using acc [of prof] by (auto simp: oauth_sign_in_def Inr split: prod.splits sum.splits option.splits)
  qed (simp add: oauth_sign_in_def)
  with reg show ?thesis by blast
qed

text \<open>An invitation is accepted from an account, so where accounts cannot be made it lets nobody new in.\<close>

lemma invitation_needs_account:
  assumes "user_by_id user (ad_users db) = None"
  shows "isl (fst (accept_invite env now user token db))"
  using assms by (auto simp: accept_invite_def examine_invite_def split: option.splits)

lemma examine_inviteD:
  assumes "examine_invite env now user token db = Inr (it, u)"
  shows "find (\<lambda>m. mb_invite m = Some (ae_dig env token)) (ad_members db) = Some it" "mb_status it = ''invited''"
    "now - or_else (mb_invited it) (mb_created it) \<le> invite_ttl_ms" "user_by_id user (ad_users db) = Some u"
    "normal_email (ur_email u) = normal_email (mb_email it)" "ur_verified u \<noteq> None"
    "active_membership (ur_id u) (mb_workspace it) db = None"
  using assms by (auto simp: examine_invite_def split: option.splits if_splits)

definition join_row :: "int \<Rightarrow> string \<Rightarrow> membership_row \<Rightarrow> membership_row" where
  "join_row now user m = m\<lparr>mb_status := ''active'', mb_user := Some user, mb_accepted := Some now\<rparr>"

lemma join_row_simps [simp]:
  "mb_id (join_row now user m) = mb_id m" "mb_invite (join_row now user m) = mb_invite m"
  "mb_status (join_row now user m) = ''active''"
  by (simp_all add: join_row_def)

lemma find_map_invite:
  assumes "find (\<lambda>m. mb_invite m = h) rows = Some it" "distinct (map mb_id rows)"
  shows "find (\<lambda>m. mb_invite m = h) (map (\<lambda>x. if mb_id x = mb_id it then join_row now user x else x) rows) = Some (join_row now user it)"
  using assms by (induction rows) (auto split: if_splits dest: find_SomeD)

lemma activate_inviteD:
  assumes "activate_invite env now token it u db = (Inr m, db')" "it \<in> set (ad_members db)" "distinct (map mb_id (ad_members db))"
    "mb_status it = ''invited''" "mb_invite it = Some (ae_dig env token)"
  shows "m = join_row now (ur_id u) it"
    and "ad_members db' = map (\<lambda>x. if mb_id x = mb_id it then join_row now (ur_id u) x else x) (ad_members db)"
proof -
  let ?mine = "\<lambda>m. mb_id m = mb_id it \<and> mb_status m = ''invited'' \<and> mb_invite m = Some (ae_dig env token)"
  have same: "x = it" if "x \<in> set (ad_members db)" "mb_id x = mb_id it" for x
    using assms(2,3) that by (auto simp: distinct_map inj_on_def)
  obtain y where y: "find ?mine (ad_members db) = Some y"
    using assms(2,4,5) by (cases "find ?mine (ad_members db)") (auto simp: find_None_iff)
  then have "y = it" using same [of y] find_SomeD [OF y] by blast
  then show "m = join_row now (ur_id u) it" using assms(1) y by (auto simp: activate_invite_def Let_def join_row_def)
  have "ad_members db' = map (\<lambda>x. if ?mine x then join_row now (ur_id u) x else x) (ad_members db)"
    using assms(1) y by (auto simp: activate_invite_def Let_def join_row_def)
  also have "\<dots> = map (\<lambda>x. if mb_id x = mb_id it then join_row now (ur_id u) x else x) (ad_members db)"
    using same assms(4,5) by (intro map_cong refl) metis
  finally show "ad_members db' = map (\<lambda>x. if mb_id x = mb_id it then join_row now (ur_id u) x else x) (ad_members db)" .
qed


text \<open>Two acceptances that both passed the checks: the second write finds the row taken.\<close>

lemma racing_acceptances:
  assumes "activate_invite env now token it u db = (Inr m, db1)" "it \<in> set (ad_members db)" "distinct (map mb_id (ad_members db))"
    "mb_status it = ''invited''" "mb_invite it = Some (ae_dig env token)"
  shows "fst (activate_invite env later token it u' db1) = Inl invite_used"
proof -
  note a = activate_inviteD [OF assms]
  have all: "mb_status x \<noteq> ''invited'' \<and> mb_invite x = Some (ae_dig env token)"
    if x: "x \<in> set (ad_members db1)" "mb_id x = mb_id it" for x
  proof -
    obtain y where "y \<in> set (ad_members db)" "x = (if mb_id y = mb_id it then join_row now (ur_id u) y else y)"
      using x(1) unfolding a(2) by auto
    moreover from this x(2) have "mb_id y = mb_id it" by (auto split: if_splits)
    ultimately show ?thesis using assms(2,3,5) by (auto simp: distinct_map inj_on_def)
  qed
  have none: "find (\<lambda>m. mb_id m = mb_id it \<and> mb_status m = ''invited'' \<and> mb_invite m = Some (ae_dig env token)) (ad_members db1) = None"
    unfolding find_None_iff using all by blast
  have "join_row now (ur_id u) it \<in> set (ad_members db1)" unfolding a(2) using assms(2) by force
  then have "find (\<lambda>m. mb_id m = mb_id it) (ad_members db1) \<noteq> None"
    unfolding find_None_iff using join_row_simps(1) by blast
  then obtain z where z: "find (\<lambda>m. mb_id m = mb_id it) (ad_members db1) = Some z" by blast
  have "mb_status z \<noteq> ''invited'' \<and> mb_invite z = Some (ae_dig env token)" using all [of z] find_SomeD [OF z] by blast
  then show ?thesis by (simp add: activate_invite_def none z)
qed

section \<open>Where it does less than it says\<close>

text \<open>
  Signing out of every device first exchanges the token it is given: with one that was already exchanged,
  signed out or expired, the sessions outside its family stay open, and the caller is not told.
\<close>

lemma sign_out_everywhere_misses:
  assumes "\<forall>r0. examine now (ae_dig env) token rows \<noteq> Rotatable r0" "r \<in> set rows"
    and "rf_revoked r = None" "\<forall>fam. examine now (ae_dig env) token rows = Replayed fam \<longrightarrow> rf_family r \<noteq> fam"
  shows "r \<in> set (logout env now fv token True rows)"
proof (cases "examine now (ae_dig env) token rows")
  case (Replayed fam)
  then have "r \<in> set (revoke_family now fam rows)"
    using assms(2,4) by (auto simp: revoke_family_def revoke_where_def image_iff intro!: bexI [of _ r])
  then show ?thesis using Replayed by (simp add: logout_def user_id_for_refresh_token_def rotate_token_def)
qed (use assms in \<open>auto simp: logout_def user_id_for_refresh_token_def rotate_token_def\<close>)

text \<open>
  A reset request for an address with an account fails when the mail cannot be sent (past the mail caps,
  for instance); for an address without one it succeeds: the answers tell which addresses have accounts.
\<close>

lemma reset_request_tells_accounts:
  assumes "user_by_email (normal_email known) (ad_users db) = Some u" "truthy (ur_hash u)"
    and "user_by_email (normal_email unknown) (ad_users db) = None" "mail = Some e"
    and "\<forall>r \<in> set (ad_resets db). su_hash r \<noteq> ae_dig env (fv_token fv) \<and> su_id r \<noteq> fv_row fv"
  shows "fst (request_password_reset env now fv mail known db) = Some e
    \<and> fst (request_password_reset env now fv mail unknown db) = None"
proof -
  have "\<forall>r \<in> set (supersede_tokens now (ur_id u) (ad_resets db)). su_hash r \<noteq> ae_dig env (fv_token fv) \<and> su_id r \<noteq> fv_row fv"
    using assms(5) by (auto simp: supersede_tokens_def)
  then show ?thesis
    using assms by (auto simp: request_password_reset_def issue_password_reset_token_def issue_single_use_def insert_token_def list_ex_iff)
qed

text \<open>
  A provider's verified address is linked to whatever account has that address, one whose own address was
  never verified included: its password, known to whoever registered it, keeps opening the account.
\<close>

lemma unverified_account_linked:
  assumes "find (\<lambda>x. oi_provider x = provider \<and> oi_subject x = op_subject prof) (ad_identities db) = None"
    and "user_by_email (op_email prof) (ad_users db) = Some u" "ur_verified u = None" "op_verified prof"
    and "oauth_account env sg mode writable now fv provider prof challenge ip db = (answer, db')"
  shows "answer = Inr (ur_id u) \<and> ad_users db' = ad_users db"
  using assms by (auto simp: oauth_account_def link_identity_def)

section \<open>Concrete accounts\<close>

definition demo_auth :: auth_env where
  "demo_auth = \<lparr> ae_dig = (\<lambda>t. t), ae_verify = (\<lambda>h p. h = p), ae_hash = (\<lambda>p. p), ae_totp = (\<lambda>c s. c = s),
     ae_sign = (\<lambda>c. ''signed''), ae_jwt = [''c'' \<mapsto> challenge_payload ''v''], ae_ttl_days = 30, ae_default_domain = ''snap.to'' \<rparr>"

definition demo_fresh :: fresh_values where
  "demo_fresh = \<lparr> fv_row = ''r'', fv_token = ''t'', fv_family = ''f'', fv_user = ''n'', fv_workspace = ''x'', fv_member = ''m9'',
     fv_domain = ''d'', fv_suffix = (\<lambda>n. ''z'') \<rparr>"

definition demo_user :: "string \<Rightarrow> string \<Rightarrow> string option \<Rightarrow> user_row" where
  "demo_user i email secret = \<lparr> ur_id = i, ur_name = ''Ada'', ur_email = email, ur_hash = Some ''pw'', ur_verified = Some 1,
     ur_secret = secret, ur_totp = map_option (\<lambda>_. 1) secret, ur_suspended = None \<rparr>"

definition demo_member :: "string \<Rightarrow> string \<Rightarrow> string \<Rightarrow> membership_row" where
  "demo_member i workspace user = \<lparr> mb_id = i, mb_workspace = workspace, mb_user = Some user, mb_email = ''a@x.test'', mb_role = ''owner'',
     mb_status = ''active'', mb_invite = None, mb_invited = None, mb_accepted = Some 1, mb_created = 1 \<rparr>"

definition demo_invite :: membership_row where
  "demo_invite = \<lparr> mb_id = ''m3'', mb_workspace = ''w2'', mb_user = None, mb_email = ''A@x.test'', mb_role = ''editor'',
     mb_status = ''invited'', mb_invite = Some ''tok'', mb_invited = Some 5, mb_accepted = None, mb_created = 5 \<rparr>"

definition demo_db :: auth_db where
  "demo_db = \<lparr> ad_users = [demo_user ''u'' ''a@x.test'' None, demo_user ''v'' ''b@x.test'' (Some ''123'')],
     ad_members = [demo_member ''m1'' ''w1'' ''u'', demo_member ''m2'' ''w2'' ''v'', demo_invite],
     ad_workspaces = [], ad_sessions = [],
     ad_recovery = [\<lparr> rc_id = ''c1'', rc_user = ''v'', rc_hash = ''ABCDE-FGHJK'', rc_used = None \<rparr>],
     ad_resets = [], ad_verifications = [], ad_identities = [], ad_domains = [], ad_links = [], ad_outbox = [], ad_audit = [],
     ad_refusals = [] \<rparr>"

lemmas demo_auth_defs = demo_auth_def demo_fresh_def demo_user_def demo_member_def demo_invite_def demo_db_def

lemma demo_emails: "normal_email '' A@x.test'' = ''a@x.test''" "normal_email ''b@x.test'' = ''b@x.test''"
  "normal_email ''who@x.test'' = ''who@x.test''" "normal_email ''A@x.test'' = ''a@x.test''" "normal_email ''a@x.test'' = ''a@x.test''"
  "js_lower ''a@x.test'' = ''a@x.test''" "js_lower ''b@x.test'' = ''b@x.test''"
  by code_simp+

theorem password_session_sound_witness:
  "\<exists>s db'. login demo_auth 10 demo_fresh None '' A@x.test'' ''pw'' demo_db = (Inr (SignedIn s), db') \<and> as_user s = ''u'' \<and> as_role s = ''owner''"
proof -
  have "\<exists>s db'. login demo_auth 10 demo_fresh None '' A@x.test'' ''pw'' demo_db = (Inr (SignedIn s), db')"
    by (simp add: login_def Let_def user_by_email_def demo_emails enter_account_def suspended_error_def second_factor_on_def
        primary_membership_def active_members_def issue_session_def issue_refresh_token_def demo_auth_defs)
  then obtain s db' where s: "login demo_auth 10 demo_fresh None '' A@x.test'' ''pw'' demo_db = (Inr (SignedIn s), db')" by blast
  from password_session_sound [OF s] show ?thesis
    using s by (auto simp: session_of_def demo_emails demo_auth_defs active_members_def)
qed

theorem second_factor_session_sound_witness:
  "\<exists>s db'. verify_totp demo_auth 10 demo_fresh None ''c'' ''abcde-fghjk'' demo_db = (Inr s, db') \<and> as_user s = ''v''
     \<and> (\<exists>r' \<in> set (ad_recovery db'). rc_used r' \<noteq> None)"
proof -
  have upper: "strip_spaces (js_upper ''abcde-fghjk'') = ''ABCDE-FGHJK''" "strip_spaces ''abcde-fghjk'' = ''abcde-fghjk''"
    by code_simp+
  have "\<exists>s db'. verify_totp demo_auth 10 demo_fresh None ''c'' ''abcde-fghjk'' demo_db = (Inr s, db')
      \<and> (\<exists>r' \<in> set (ad_recovery db'). rc_used r' \<noteq> None)"
    by (simp add: verify_totp_def verify_challenge_token_def challenge_payload_def user_by_id_def suspended_error_def
        accept_second_factor_def verify_totp_code_def unused_codes_def verify_recovery_code_def upper claim_recovery_def
        primary_membership_def active_members_def issue_session_def issue_refresh_token_def demo_auth_defs)
  then obtain s db' where s: "verify_totp demo_auth 10 demo_fresh None ''c'' ''abcde-fghjk'' demo_db = (Inr s, db')"
    "\<exists>r' \<in> set (ad_recovery db'). rc_used r' \<noteq> None" by blast
  obtain u where u: "session_of s u demo_db" "verify_challenge_token (ae_jwt demo_auth) ''c'' = Inr (Some (ClaimText (ur_id u)))"
    using second_factor_session_sound [OF s(1)] by blast
  have "ur_id u = ''v''" using u(2) by (simp add: verify_challenge_token_def challenge_payload_def demo_auth_def)
  then have "as_user s = ''v''" using u(1) by (simp add: session_of_def)
  then show ?thesis using s by blast
qed

theorem login_refusals_alike_witness:
  "login demo_auth 10 demo_fresh None ''b@x.test'' ''no'' demo_db = login demo_auth 10 demo_fresh None ''who@x.test'' ''no'' demo_db"
proof -
  have "user_by_email (normal_email ''who@x.test'') (ad_users demo_db) = None"
    by (simp add: user_by_email_def demo_emails demo_auth_defs)
  moreover have "user_by_email (normal_email ''b@x.test'') (ad_users demo_db) = Some (demo_user ''v'' ''b@x.test'' (Some ''123''))"
    "\<not> ae_verify demo_auth (the (ur_hash (demo_user ''v'' ''b@x.test'' (Some ''123'')))) ''no''"
    by (simp_all add: user_by_email_def demo_emails demo_auth_defs)
  ultimately show ?thesis
    using login_refusals_alike [of "''b@x.test''" demo_db demo_auth "''no''" 10 demo_fresh None]
      login_refusals_alike [of "''who@x.test''" demo_db demo_auth "''no''" 10 demo_fresh None] by simp
qed

definition open_signup :: signup_env where
  "open_signup = \<lparr> sg_provider = NoProvider, sg_secret = None, sg_site = (\<lambda>k t i. Unreachable), sg_vendored = [], sg_allowlist = [],
     sg_extra_domains = None, sg_allow_domains = None, sg_mail_check = False,
     sg_dns = \<lparr> dn_mx = (\<lambda>h. DnsTimeout), dn_a = (\<lambda>h. DnsTimeout), dn_aaaa = (\<lambda>h. DnsTimeout) \<rparr> \<rparr>"

definition demo_register :: register_input where
  "demo_register = \<lparr> ri_name = ''Bo'', ri_email = ''bo@x.test'', ri_password = ''long password'', ri_challenge = None \<rparr>"

theorem closed_signups_add_nobody_witness:
  "length (ad_users (snd (register demo_auth open_signup SignupsInviteOnly True 10 demo_fresh demo_fresh None None demo_register demo_db))) = 2"
  using closed_signups_add_nobody [of SignupsInviteOnly demo_auth open_signup True 10 demo_fresh demo_fresh None None demo_register demo_db]
  by (simp add: demo_db_def)


end
