(* ===== verification/Members.thy ===== *)
theory Members
  imports Auth_Props
begin

text \<open>
  Who may do what: the guard of every route (\<open>apps/api/src/auth/auth.guard.ts\<close>) and the team of a
  workspace (\<open>apps/api/src/members/members.service.ts\<close>). Each change of the team is a check and a write,
  so that two of them can also be put side by side. The error of sending a mail, if any, is an argument.
\<close>

section \<open>Ranks\<close>

definition rank :: "string \<Rightarrow> int option" where
  "rank r = map_of [(''viewer'', 0), (''editor'', 1), (''admin'', 2), (''owner'', 3)] r"

definition satisfies_role :: "string \<Rightarrow> string list \<Rightarrow> bool" where
  "satisfies_role have_role required =
     (if required = [] then True
      else
        let r = or_else (rank have_role) (- 1); need = Min (set (map (\<lambda>r. or_else (rank r) 99) required))
        in need \<le> r)"

section \<open>The guard\<close>

record api_key =
  ak_id :: string
  ak_workspace :: string
  ak_prefix :: string
  ak_name :: string
  ak_hash :: string
  ak_scopes :: "string list"
  ak_revoked :: "int option"

record request_actor =
  rq_user_id :: "string option"
  rq_workspace :: string
  rq_role :: string
  rq_email :: string
  rq_key :: "string option"
  rq_scopes :: "string list"
  rq_label :: string

definition actor_from_jwt :: "(string \<Rightarrow> jwt_claims option) \<Rightarrow> string \<Rightarrow> auth_error + request_actor" where
  "actor_from_jwt jwt token =
     (case verify_access_token jwt token of
        Inl msg \<Rightarrow> Inl (unauthorized msg)
      | Inr a \<Rightarrow> Inr \<lparr> rq_user_id = Some (ac_sub a), rq_workspace = ac_wid a, rq_role = ac_role a, rq_email = ac_email a,
                      rq_key = None, rq_scopes = [], rq_label = ac_email a \<rparr>)"

definition actor_from_api_key :: "(string \<Rightarrow> string) \<Rightarrow> api_key list \<Rightarrow> string \<Rightarrow> auth_error + request_actor" where
  "actor_from_api_key dig keys key =
     (case find (\<lambda>k. ak_hash k = dig key \<and> ak_revoked k = None) keys of
        None \<Rightarrow> Inl (unauthorized ''That API key isn't valid.'')
      | Some k \<Rightarrow> Inr \<lparr> rq_user_id = None, rq_workspace = ak_workspace k, rq_role = ''editor'',
                       rq_email = ''apikey:'' @ ak_prefix k, rq_key = Some (ak_id k), rq_scopes = ak_scopes k,
                       rq_label = ''API key \"'' @ ak_name k @ ''\"'' \<rparr>)"

text \<open>A route: public or not, the roles it asks for, and the scope it names.\<close>

record route =
  rt_public :: bool
  rt_roles :: "string list"
  rt_scope :: "string option"

definition can_activate :: "(string \<Rightarrow> jwt_claims option) \<Rightarrow> (string \<Rightarrow> string) \<Rightarrow> api_key list \<Rightarrow> route \<Rightarrow> string option
    \<Rightarrow> auth_error + request_actor option" where
  "can_activate jwt dig keys rt header =
     (if rt_public rt then Inr None
      else if \<not> starts_with (or_else header []) ''Bearer '' then Inl (unauthorized ''Sign in to continue.'')
      else
        let credential = js_trim (drop 7 (or_else header [])) in
        (case (if starts_with credential ''snap_'' then actor_from_api_key dig keys credential else actor_from_jwt jwt credential) of
           Inl e \<Rightarrow> Inl e
         | Inr a \<Rightarrow>
             if rt_roles rt \<noteq> [] \<and> \<not> satisfies_role (rq_role a) (rt_roles rt)
             then Inl (forbidden ''You don't have permission to do that.'')
             else if rq_key a \<noteq> None \<and> \<not> truthy (rt_scope rt)
             then Inl (forbidden ''This route is not available to API keys.'')
             else if rq_key a \<noteq> None \<and> the (rt_scope rt) \<notin> set (rq_scopes a)
             then Inl (forbidden (''This API key is missing the \"'' @ the (rt_scope rt) @ ''\" scope.''))
             else Inr (Some a)))"

section \<open>The team\<close>

record team =
  tm_rows :: "membership_row list"
  tm_audit :: "(string \<times> string) list"

definition find_member :: "string \<Rightarrow> string \<Rightarrow> team \<Rightarrow> membership_row option" where
  "find_member workspace i tm = find (\<lambda>m. mb_id m = i \<and> mb_workspace m = workspace) (tm_rows tm)"

definition count_owners :: "string \<Rightarrow> team \<Rightarrow> nat" where
  "count_owners workspace tm = length (filter (\<lambda>m. mb_workspace m = workspace \<and> mb_role m = ''owner'') (tm_rows tm))"

definition write_audit :: "string \<Rightarrow> string \<Rightarrow> team \<Rightarrow> team" where
  "write_audit action target tm = tm\<lparr>tm_audit := tm_audit tm @ [(action, target)]\<rparr>"

definition invite :: "auth_error option \<Rightarrow> (string \<Rightarrow> string) \<Rightarrow> int \<Rightarrow> string \<Rightarrow> string \<Rightarrow> (string \<Rightarrow> string option) \<Rightarrow> string \<Rightarrow> string \<Rightarrow> string \<Rightarrow> team
    \<Rightarrow> (auth_error + string) \<times> team" where
  "invite mail dig now i token account workspace email role tm =
     (let e = normal_email email in
      case find (\<lambda>m. mb_workspace m = workspace \<and> js_lower (mb_email m) = e) (tm_rows tm) of
        Some m \<Rightarrow> (Inl (AuthError 409 None (if mb_status m = ''invited''
                      then e @ '' has already been invited. Resend the invitation instead.''
                      else e @ '' is already on this team.'')), tm)
      | None \<Rightarrow>
          (case mail of None \<Rightarrow> Inr i | Some e \<Rightarrow> Inl e, write_audit ''member.invited'' i (tm\<lparr>tm_rows := tm_rows tm @
             [\<lparr> mb_id = i, mb_workspace = workspace, mb_user = account e, mb_email = e, mb_role = role, mb_status = ''invited'',
                mb_invite = Some (dig token), mb_invited = Some now, mb_accepted = None, mb_created = now \<rparr>]\<rparr>)))"

definition update_member :: "string \<Rightarrow> string \<Rightarrow> (membership_row \<Rightarrow> membership_row) \<Rightarrow> team \<Rightarrow> team" where
  "update_member workspace i f tm =
     tm\<lparr>tm_rows := map (\<lambda>m. if mb_id m = i \<and> mb_workspace m = workspace then f m else m) (tm_rows tm)\<rparr>"

definition resend_invite :: "auth_error option \<Rightarrow> (string \<Rightarrow> string) \<Rightarrow> int \<Rightarrow> string \<Rightarrow> string \<Rightarrow> string \<Rightarrow> team \<Rightarrow> auth_error option \<times> team" where
  "resend_invite mail dig now token workspace i tm =
     (case find_member workspace i tm of
        None \<Rightarrow> (Some (AuthError 404 None ''That invitation doesn't exist.''), tm)
      | Some m \<Rightarrow>
          if mb_status m \<noteq> ''invited'' then (Some (bad_request (mb_email m @ '' is already on this team.'')), tm)
          else (mail, write_audit ''member.invite_resent'' i
                 (update_member workspace i (\<lambda>m. m\<lparr>mb_invite := Some (dig token), mb_invited := Some now\<rparr>) tm)))"

definition change_role_check :: "string \<Rightarrow> string \<Rightarrow> string \<Rightarrow> string \<Rightarrow> team \<Rightarrow> auth_error option" where
  "change_role_check workspace i role actor_role tm =
     (case find_member workspace i tm of
        None \<Rightarrow> Some (AuthError 404 None ''That person isn't on this team.'')
      | Some m \<Rightarrow>
          let caller = or_else (rank actor_role) (- 1) in
          if caller < or_else (rank role) 99 then Some (forbidden ''You cannot grant a role higher than your own.'')
          else if caller < or_else (rank (mb_role m)) 99
          then Some (forbidden ''You cannot change the role of someone who outranks you.'')
          else if mb_role m = ''owner'' \<and> role \<noteq> ''owner'' \<and> count_owners workspace tm \<le> 1
          then Some (bad_request ''This is the only owner. Make someone else an owner first.'')
          else None)"

definition change_role_write :: "string \<Rightarrow> string \<Rightarrow> string \<Rightarrow> team \<Rightarrow> team" where
  "change_role_write workspace i role tm =
     write_audit ''member.role_changed'' i (update_member workspace i (\<lambda>m. m\<lparr>mb_role := role\<rparr>) tm)"

definition change_role :: "string \<Rightarrow> string \<Rightarrow> string \<Rightarrow> string \<Rightarrow> team \<Rightarrow> auth_error option \<times> team" where
  "change_role workspace i role actor_role tm =
     (case change_role_check workspace i role actor_role tm of
        Some e \<Rightarrow> (Some e, tm)
      | None \<Rightarrow> (None, change_role_write workspace i role tm))"

definition remove_check :: "string \<Rightarrow> string \<Rightarrow> team \<Rightarrow> auth_error option" where
  "remove_check workspace i tm =
     (case find_member workspace i tm of
        None \<Rightarrow> Some (AuthError 404 None ''That person isn't on this team.'')
      | Some m \<Rightarrow>
          if mb_role m = ''owner'' \<and> count_owners workspace tm \<le> 1
          then Some (bad_request ''This is the only owner. Make someone else an owner before removing them.'')
          else None)"

definition remove_write :: "string \<Rightarrow> string \<Rightarrow> team \<Rightarrow> team" where
  "remove_write workspace i tm =
     write_audit ''member.removed'' i
       (tm\<lparr>tm_rows := filter (\<lambda>m. \<not> (mb_id m = i \<and> mb_workspace m = workspace)) (tm_rows tm)\<rparr>)"

definition remove_member :: "string \<Rightarrow> string \<Rightarrow> team \<Rightarrow> auth_error option \<times> team" where
  "remove_member workspace i tm =
     (case remove_check workspace i tm of Some e \<Rightarrow> (Some e, tm) | None \<Rightarrow> (None, remove_write workspace i tm))"

section \<open>Ranks and scopes\<close>

text \<open>
  A role reaches what it outranks: a caller satisfies a requirement exactly when some role it names is
  one of the four and not above the caller's; a role that is none of the four satisfies nothing and is
  satisfied by nobody.
\<close>

theorem satisfies_role_exact:
  "satisfies_role have_role required \<longleftrightarrow>
     required = [] \<or> (\<exists>r n h. r \<in> set required \<and> rank r = Some n \<and> rank have_role = Some h \<and> n \<le> h)"
proof -
  have range: "rank r = Some n \<Longrightarrow> 0 \<le> n \<and> n \<le> 3" for r n
    by (auto simp: rank_def split: if_splits)
  let ?need = "\<lambda>r. or_else (rank r) 99"
  have "Min (set (map ?need required)) \<le> h \<longleftrightarrow> (\<exists>r \<in> set required. ?need r \<le> h)" if "required \<noteq> []" for h
    using that by (simp add: Min_le_iff)
  moreover have "(\<exists>r \<in> set required. ?need r \<le> or_else (rank have_role) (- 1)) \<longleftrightarrow>
      (\<exists>r n h. r \<in> set required \<and> rank r = Some n \<and> rank have_role = Some h \<and> n \<le> h)"
    using range by (fastforce simp: or_else_def split: option.splits)
  ultimately show ?thesis by (simp add: satisfies_role_def Let_def)
qed

text \<open>
  C27. An API key reaches what it was granted and no more: a request let through with a key names one that
  is stored and not revoked, on a route that names a scope the key holds and asks for no role above editor.
\<close>

theorem api_keys_fail_closed:
  assumes "can_activate jwt dig keys rt header = Inr (Some a)" "rq_key a = Some i"
  shows "\<exists>k scope. k \<in> set keys \<and> ak_id k = i \<and> ak_revoked k = None \<and> rt_scope rt = Some scope \<and> scope \<in> set (ak_scopes k)
    \<and> rq_workspace a = ak_workspace k \<and> (rt_roles rt = [] \<or> ''viewer'' \<in> set (rt_roles rt) \<or> ''editor'' \<in> set (rt_roles rt))"
proof -
  let ?c = "js_trim (drop 7 (or_else header []))"
  have act: "(if starts_with ?c ''snap_'' then actor_from_api_key dig keys ?c else actor_from_jwt jwt ?c) = Inr a"
    and roles: "rt_roles rt = [] \<or> satisfies_role (rq_role a) (rt_roles rt)"
    and scope: "truthy (rt_scope rt)" "the (rt_scope rt) \<in> set (rq_scopes a)"
    using assms by (auto simp: can_activate_def Let_def split: sum.splits if_splits)
  from act assms(2) obtain k where k: "find (\<lambda>k. ak_hash k = dig ?c \<and> ak_revoked k = None) keys = Some k"
    and a: "rq_role a = ''editor''" "ak_id k = i" "rq_scopes a = ak_scopes k" "rq_workspace a = ak_workspace k"
    by (auto simp: actor_from_api_key_def actor_from_jwt_def split: if_splits option.splits sum.splits)
  have "rt_roles rt = [] \<or> ''viewer'' \<in> set (rt_roles rt) \<or> ''editor'' \<in> set (rt_roles rt)"
    using roles unfolding a(1) satisfies_role_exact by (auto simp: rank_def split: if_splits)
  then show ?thesis using find_SomeD [OF k] a scope by (auto elim!: truthyE)
qed

definition editor_key :: api_key where
  "editor_key = \<lparr> ak_id = ''k1'', ak_workspace = ''w1'', ak_prefix = ''snap_ab'', ak_name = ''CI'', ak_hash = ''snap_abc'',
     ak_scopes = [''links:read''], ak_revoked = None \<rparr>"

definition links_route :: route where
  "links_route = \<lparr> rt_public = False, rt_roles = [''viewer''], rt_scope = Some ''links:read'' \<rparr>"

theorem api_keys_fail_closed_witness:
  "\<exists>a. can_activate (\<lambda>t. None) (\<lambda>t. t) [editor_key] links_route (Some ''Bearer snap_abc'') = Inr (Some a) \<and> rq_workspace a = ''w1''"
proof -
  have "js_trim (drop 7 ''Bearer snap_abc'') = ''snap_abc''" by code_simp
  then have "\<exists>a. can_activate (\<lambda>t. None) (\<lambda>t. t) [editor_key] links_route (Some ''Bearer snap_abc'') = Inr (Some a)
      \<and> rq_key a = Some ''k1''"
    by (simp add: can_activate_def links_route_def actor_from_api_key_def editor_key_def starts_with_def satisfies_role_exact rank_def)
  then obtain a where a: "can_activate (\<lambda>t. None) (\<lambda>t. t) [editor_key] links_route (Some ''Bearer snap_abc'') = Inr (Some a)"
      "rq_key a = Some ''k1''" by blast
  from api_keys_fail_closed [OF a] have "rq_workspace a = ''w1''" by (simp add: editor_key_def)
  with a(1) show ?thesis by blast
qed

section \<open>An owner remains\<close>

text \<open>The team of all workspaces under requests one after another, acceptances included.\<close>

inductive team_step :: "team \<Rightarrow> team \<Rightarrow> bool" where
  Invite: "i \<notin> mb_id ` set (tm_rows tm) \<Longrightarrow> invite mail dig now i token account w email role tm = (answer, tm') \<Longrightarrow> team_step tm tm'"
| Resend: "team_step tm (snd (resend_invite mail dig now token w i tm))"
| Change: "team_step tm (snd (change_role w i role actor_role tm))"
| Remove: "team_step tm (snd (remove_member w i tm))"
| Join: "team_step tm (update_member w i (\<lambda>m. m\<lparr>mb_status := ''active'', mb_user := Some user, mb_accepted := Some now\<rparr>) tm)"

lemma count_map_one:
  assumes "distinct (map mb_id rows)" "m \<in> set rows" "\<And>x. mb_id (f x) = mb_id x"
  shows "length (filter P (map (\<lambda>x. if mb_id x = mb_id m then f x else x) rows)) + (if P m then 1 else 0)
    = length (filter P rows) + (if P (f m) then 1 else 0)"
  using assms(1,2)
proof (induction rows)
  case (Cons x rows)
  show ?case
  proof (cases "x = m")
    case True
    then have "\<forall>y \<in> set rows. mb_id y \<noteq> mb_id m" using Cons.prems by (metis distinct.simps(2) image_eqI list.map(2) set_map)
    then have "map (\<lambda>x. if mb_id x = mb_id m then f x else x) rows = rows" by (intro map_idI) auto
    then show ?thesis using True by simp
  next
    case False
    then have "mb_id x \<noteq> mb_id m" using Cons.prems by auto
    then show ?thesis using Cons False by auto
  qed
qed simp

lemma count_remove_one:
  assumes "distinct (map mb_id rows)" "m \<in> set rows"
  shows "length (filter P (filter (\<lambda>x. mb_id x \<noteq> mb_id m) rows)) + (if P m then 1 else 0) = length (filter P rows)"
  using assms
proof (induction rows)
  case (Cons x rows)
  show ?case
  proof (cases "x = m")
    case True
    then have "\<forall>y \<in> set rows. mb_id y \<noteq> mb_id m" using Cons.prems by (metis distinct.simps(2) image_eqI list.map(2) set_map)
    then have "filter (\<lambda>x. mb_id x \<noteq> mb_id m) rows = rows" by (intro filter_True) auto
    then show ?thesis using True by simp
  next
    case False
    then have "mb_id x \<noteq> mb_id m" using Cons.prems by auto
    then show ?thesis using Cons False by auto
  qed
qed simp

lemma find_memberD:
  "find_member w i tm = Some m \<Longrightarrow> m \<in> set (tm_rows tm) \<and> mb_id m = i \<and> mb_workspace m = w"
  by (auto simp: find_member_def dest: find_SomeD)

text \<open>With one row for an id, an update or a removal touches that row only.\<close>

lemma update_member_rows:
  assumes "distinct (map mb_id (tm_rows tm))" "m \<in> set (tm_rows tm)" "mb_workspace m = w"
  shows "tm_rows (update_member w (mb_id m) f tm) = map (\<lambda>x. if mb_id x = mb_id m then f x else x) (tm_rows tm)"
  using assms by (auto simp: update_member_def distinct_map inj_on_def)

lemma update_member_ids:
  "(\<And>x. mb_id (f x) = mb_id x) \<Longrightarrow> map mb_id (tm_rows (update_member w i f tm)) = map mb_id (tm_rows tm)"
  by (simp add: update_member_def)

lemma update_member_owners:
  assumes "\<And>x. mb_role (f x) = mb_role x" "\<And>x. mb_workspace (f x) = mb_workspace x"
  shows "count_owners w' (update_member w i f tm) = count_owners w' tm"
proof -
  have "length (filter P (map (\<lambda>m. if mb_id m = i \<and> mb_workspace m = w then f m else m) rows)) = length (filter P rows)"
    if "\<And>x. P (f x) = P x" for P rows
    using that by (induction rows) auto
  then show ?thesis using assms by (simp add: count_owners_def update_member_def)
qed

lemma write_audit_simps [simp]:
  "tm_rows (write_audit a i tm) = tm_rows tm" "count_owners w (write_audit a i tm) = count_owners w tm"
  by (simp_all add: write_audit_def count_owners_def)

definition owned_team :: "string \<Rightarrow> team \<Rightarrow> bool" where
  "owned_team w tm = (distinct (map mb_id (tm_rows tm)) \<and> 1 \<le> count_owners w tm)"

lemma change_role_owned:
  assumes "owned_team w tm"
  shows "owned_team w (snd (change_role w' i role actor_role tm))"
proof (cases "change_role_check w' i role actor_role tm")
  case None
  then obtain m where m: "find_member w' i tm = Some m" "mb_role m = ''owner'' \<Longrightarrow> role \<noteq> ''owner'' \<Longrightarrow> 1 < count_owners w' tm"
    by (auto simp: change_role_check_def Let_def split: option.splits if_splits)
  note d = find_memberD [OF m(1)]
  let ?f = "\<lambda>m. m\<lparr>mb_role := role\<rparr>"
  let ?P = "\<lambda>m. mb_workspace m = w \<and> mb_role m = ''owner''"
  have rows: "tm_rows (change_role_write w' i role tm) = map (\<lambda>x. if mb_id x = mb_id m then ?f x else x) (tm_rows tm)"
    using update_member_rows [of tm m w' ?f] assms d by (simp add: change_role_write_def owned_team_def)
  have "length (filter ?P (map (\<lambda>x. if mb_id x = mb_id m then ?f x else x) (tm_rows tm))) + (if ?P m then 1 else 0)
      = length (filter ?P (tm_rows tm)) + (if ?P (?f m) then 1 else 0)"
    by (rule count_map_one) (use assms d in \<open>simp_all add: owned_team_def\<close>)
  then have "count_owners w (change_role_write w' i role tm) + (if ?P m then 1 else 0) = count_owners w tm + (if ?P (?f m) then 1 else 0)"
    by (simp only: count_owners_def rows)
  then have "1 \<le> count_owners w (change_role_write w' i role tm)"
    using assms m(2) d by (auto simp: owned_team_def split: if_splits)
  moreover have "map mb_id (tm_rows (change_role_write w' i role tm)) = map mb_id (tm_rows tm)"
    unfolding rows by simp
  ultimately show ?thesis using None assms by (simp add: change_role_def owned_team_def)
qed (use assms in \<open>simp add: change_role_def\<close>)

lemma remove_member_owned:
  assumes "owned_team w tm"
  shows "owned_team w (snd (remove_member w' i tm))"
proof (cases "remove_check w' i tm")
  case None
  then obtain m where m: "find_member w' i tm = Some m" "mb_role m = ''owner'' \<Longrightarrow> 1 < count_owners w' tm"
    by (auto simp: remove_check_def split: option.splits if_splits)
  note d = find_memberD [OF m(1)]
  let ?P = "\<lambda>m. mb_workspace m = w \<and> mb_role m = ''owner''"
  have "filter (\<lambda>x. \<not> (mb_id x = i \<and> mb_workspace x = w')) (tm_rows tm) = filter (\<lambda>x. mb_id x \<noteq> mb_id m) (tm_rows tm)"
    using assms d by (intro filter_cong refl) (auto simp: owned_team_def distinct_map inj_on_def)
  then have rows: "tm_rows (remove_write w' i tm) = filter (\<lambda>x. mb_id x \<noteq> mb_id m) (tm_rows tm)"
    by (simp add: remove_write_def)
  have "length (filter ?P (filter (\<lambda>x. mb_id x \<noteq> mb_id m) (tm_rows tm))) + (if ?P m then 1 else 0) = length (filter ?P (tm_rows tm))"
    by (rule count_remove_one) (use assms d in \<open>simp_all add: owned_team_def\<close>)
  then have "count_owners w (remove_write w' i tm) + (if ?P m then 1 else 0) = count_owners w tm"
    by (simp only: count_owners_def rows)
  then have "1 \<le> count_owners w (remove_write w' i tm)"
    using assms m(2) d by (auto simp: owned_team_def split: if_splits)
  moreover have "distinct (map mb_id (tm_rows (remove_write w' i tm)))"
    unfolding rows using assms by (simp add: owned_team_def distinct_map_filter)
  ultimately show ?thesis using None by (simp add: remove_member_def owned_team_def)
qed (use assms in \<open>simp add: remove_member_def\<close>)

lemma team_step_owned: "team_step tm tm' \<Longrightarrow> owned_team w tm \<Longrightarrow> owned_team w tm'"
proof (induction rule: team_step.induct)
  case (Invite i tm mail dig now token account w' email role answer tm')
  then show ?case
    by (auto simp: invite_def Let_def owned_team_def count_owners_def write_audit_def split: option.splits if_splits)
next
  case (Resend tm mail dig now token w' i)
  then show ?case
    by (auto simp: resend_invite_def owned_team_def update_member_ids update_member_owners split: option.splits)
next
  case (Change tm w' i role actor_role)
  then show ?case by (rule change_role_owned)
next
  case (Remove tm w' i)
  then show ?case by (rule remove_member_owned)
next
  case (Join tm w' i user now)
  then show ?case by (simp add: owned_team_def update_member_ids update_member_owners)
qed


definition two_owners :: team where
  "two_owners = \<lparr> tm_rows = [demo_member ''m1'' ''w1'' ''u'', (demo_member ''m2'' ''w1'' ''v'')\<lparr>mb_email := ''b@x.test''\<rparr>], tm_audit = [] \<rparr>"


section \<open>Where the guard of the last owner gives way\<close>

text \<open>
  The count of owners takes invitations for owners: with one owner and one invitation that was raised to
  owner, the owner can be removed, and nobody who can sign in owns the workspace.
\<close>

lemma invitation_counts_as_owner:
  assumes "distinct (map mb_id (tm_rows tm))" "find_member w i tm = Some m" "2 \<le> count_owners w tm"
    and "\<forall>x \<in> set (tm_rows tm). mb_workspace x = w \<longrightarrow> mb_role x = ''owner'' \<longrightarrow> mb_id x \<noteq> i \<longrightarrow> mb_status x = ''invited''"
  shows "fst (remove_member w i tm) = None
    \<and> \<not> (\<exists>x \<in> set (tm_rows (snd (remove_member w i tm))). mb_workspace x = w \<and> mb_role x = ''owner'' \<and> mb_status x = ''active'')"
  using assms by (auto simp: remove_member_def remove_check_def remove_write_def)

text \<open>An administrator who may not change an owner's role may remove the owner.\<close>

lemma admin_removes_owner:
  assumes "find_member w i tm = Some m" "mb_role m = ''owner''" "2 \<le> count_owners w tm"
  shows "fst (change_role w i role ''admin'' tm) \<noteq> None \<and> fst (remove_member w i tm) = None
    \<and> satisfies_role ''admin'' [''admin'']"
  using assms by (auto simp: change_role_def change_role_check_def remove_member_def remove_check_def rank_def satisfies_role_def Let_def)

text \<open>Two owners removed at the same time: both checks count two, and none is left.\<close>

lemma racing_removals_leave_none:
  assumes "distinct (map mb_id (tm_rows tm))" "find_member w i tm = Some m" "find_member w j tm = Some n" "i \<noteq> j"
    and "mb_role m = ''owner''" "mb_role n = ''owner''" "count_owners w tm = 2"
  shows "remove_check w i tm = None \<and> remove_check w j tm = None \<and> count_owners w (remove_write w j (remove_write w i tm)) = 0"
proof -
  let ?P = "\<lambda>x. mb_workspace x = w \<and> mb_role x = ''owner''"
  have m: "m \<in> set (tm_rows tm)" "mb_id m = i" "mb_workspace m = w" using find_memberD [OF assms(2)] by auto
  have n: "n \<in> set (tm_rows tm)" "mb_id n = j" "mb_workspace n = w" using find_memberD [OF assms(3)] by auto
  let ?one = "filter (\<lambda>x. mb_id x \<noteq> mb_id m) (tm_rows tm)"
  have own: "filter (\<lambda>x. \<not> (mb_id x = k \<and> mb_workspace x = w)) xs = filter (\<lambda>x. mb_id x \<noteq> k) xs"
    if "distinct (map mb_id xs)" "y \<in> set xs" "mb_id y = k" "mb_workspace y = w" for xs y k
    using that by (intro filter_cong refl) (auto simp: distinct_map inj_on_def)
  have one: "length (filter ?P ?one) + 1 = 2"
    using count_remove_one [OF assms(1) m(1), of ?P] assms(5,7) m(3) by (simp add: count_owners_def)
  have d: "distinct (map mb_id ?one)" using assms(1) by (simp add: distinct_map_filter)
  have n1: "n \<in> set ?one" using n(1,2) m(2) assms(4) by auto
  have two: "length (filter ?P (filter (\<lambda>x. mb_id x \<noteq> mb_id n) ?one)) + 1 = length (filter ?P ?one)"
    using count_remove_one [OF d n1, of ?P] assms(6) n(3) by simp
  have "tm_rows (remove_write w i tm) = ?one"
    using own [OF assms(1) m(1-3)] m(2) by (simp add: remove_write_def)
  moreover from this have "tm_rows (remove_write w j (remove_write w i tm)) = filter (\<lambda>x. mb_id x \<noteq> mb_id n) ?one"
    using own [OF d n1 n(2,3)] n(2) by (simp add: remove_write_def)
  ultimately have "count_owners w (remove_write w j (remove_write w i tm)) = 0"
    using one two by (simp add: count_owners_def)
  then show ?thesis using assms by (simp add: remove_check_def)
qed

end
