(* ===== verification/Rollups.thy ===== *)
theory Rollups
  imports Redirect "HOL-Library.AList"
begin

text \<open>
  The rollup of clicks into the daily tables (\<open>apps/worker/src/jobs/rollup.ts\<close>): the claim of a batch, the
  upserts into \<open>click_daily\<close>, the sketches of unique visitors, \<open>breakdown_daily\<close> and \<open>link_counters\<close>, and
  the mark on the claimed rows, as one transaction. A table is a list of its rows, an upsert is
  \<open>upsert\<close>, whose laws the locale \<open>keyed_table\<close> gives for every table with a key. A day is the number of
  the UTC day since the epoch. The logarithm of the estimate and the rows other transactions hold locked are
  parameters.
\<close>

section \<open>Tables with a key\<close>

definition upsert :: "('r \<Rightarrow> 'k) \<Rightarrow> ('r \<Rightarrow> 'r \<Rightarrow> 'r) \<Rightarrow> 'r \<Rightarrow> 'r list \<Rightarrow> 'r list" where
  "upsert key join excluded rows =
     (if list_ex (\<lambda>r. key r = key excluded) rows
      then map (\<lambda>r. if key r = key excluded then join excluded r else r) rows
      else rows @ [excluded])"

locale keyed_table =
  fixes key :: "'r \<Rightarrow> 'k" and join :: "'r \<Rightarrow> 'r \<Rightarrow> 'r"
  assumes key_join: "key (join ex r) = key r"
begin

lemma map_join_keys: "map key (map (\<lambda>r. if key r = key ex then join ex r else r) rows) = map key rows"
  by (auto simp: key_join)

lemma present_iff: "list_ex (\<lambda>r. key r = k) rows \<longleftrightarrow> k \<in> key ` set rows"
  by (induction rows) auto

lemma find_key_None: "find (\<lambda>r. key r = k) rows = None \<longleftrightarrow> k \<notin> key ` set rows"
  by (induction rows) auto

lemma upsert_present: "key ex \<in> key ` set rows \<Longrightarrow>
    upsert key join ex rows = map (\<lambda>r. if key r = key ex then join ex r else r) rows"
  by (simp add: upsert_def present_iff)

lemma upsert_absent: "key ex \<notin> key ` set rows \<Longrightarrow> upsert key join ex rows = rows @ [ex]"
  by (simp add: upsert_def present_iff)

lemma upsert_keys:
  "map key (upsert key join ex rows) = (if key ex \<in> key ` set rows then map key rows else map key rows @ [key ex])"
  by (cases "key ex \<in> key ` set rows") (simp_all add: upsert_present upsert_absent map_join_keys del: map_map)

lemma upsert_distinct: "distinct (map key rows) \<Longrightarrow> distinct (map key (upsert key join ex rows))"
  by (simp add: upsert_keys del: map_map)

lemma fold_upsert_distinct: "distinct (map key rows) \<Longrightarrow> distinct (map key (fold (upsert key join) exs rows))"
  by (induction exs arbitrary: rows) (auto intro: upsert_distinct)

lemma map_join_sum:
  fixes g :: "'r \<Rightarrow> int"
  assumes "distinct (map key rows)" "\<And>r. r \<in> set rows \<Longrightarrow> key r = key ex \<Longrightarrow> g (join ex r) = g r + g ex"
  shows "sum_list (map g (map (\<lambda>r. if key r = key ex then join ex r else r) rows))
    = sum_list (map g rows) + (if key ex \<in> key ` set rows then g ex else 0)"
  using assms
proof (induction rows)
  case (Cons r rows)
  show ?case
  proof (cases "key r = key ex")
    case True
    then have "map (\<lambda>r. if key r = key ex then join ex r else r) rows = rows"
      using Cons.prems(1) by (intro map_idI) (metis distinct.simps(2) list.simps(9) list.set_map image_eqI)
    then show ?thesis using True Cons.prems(2) [of r] by simp
  next
    case False
    then show ?thesis using Cons by auto
  qed
qed simp

text \<open>A weight that adds up under the join adds up under the upsert.\<close>

lemma upsert_sum:
  fixes g :: "'r \<Rightarrow> int"
  assumes "distinct (map key rows)" "\<And>r. key r = key ex \<Longrightarrow> g (join ex r) = g r + g ex"
  shows "sum_list (map g (upsert key join ex rows)) = sum_list (map g rows) + g ex"
proof (cases "key ex \<in> key ` set rows")
  case True
  then show ?thesis using map_join_sum [OF assms] by (simp add: upsert_present del: map_map)
next
  case False
  then show ?thesis by (simp add: upsert_absent)
qed

lemma fold_upsert_sum:
  fixes g :: "'r \<Rightarrow> int"
  assumes "distinct (map key rows)" "\<And>ex r. key r = key ex \<Longrightarrow> g (join ex r) = g r + g ex"
  shows "sum_list (map g (fold (upsert key join) exs rows)) = sum_list (map g rows) + sum_list (map g exs)"
  using assms(1)
proof (induction exs arbitrary: rows)
  case (Cons ex exs)
  then show ?case
    using upsert_sum [OF Cons.prems(1), of ex g] assms(2) upsert_distinct [OF Cons.prems(1)] by simp
qed simp

lemma upsert_filter:
  "\<not> P (key ex) \<Longrightarrow> filter (\<lambda>r. P (key r)) (upsert key join ex rows) = filter (\<lambda>r. P (key r)) rows"
proof (cases "key ex \<in> key ` set rows")
  case True
  assume n: "\<not> P (key ex)"
  have "filter (\<lambda>r. P (key r)) (map (\<lambda>r. if key r = key ex then join ex r else r) rows) = filter (\<lambda>r. P (key r)) rows"
    using n by (induction rows) (auto simp: key_join)
  then show ?thesis using True by (simp only: upsert_present)
qed (simp add: upsert_absent)

lemma fold_upsert_filter:
  "\<forall>ex \<in> set exs. \<not> P (key ex) \<Longrightarrow>
     filter (\<lambda>r. P (key r)) (fold (upsert key join) exs rows) = filter (\<lambda>r. P (key r)) rows"
  by (induction exs arbitrary: rows) (simp_all add: upsert_filter)

lemma fold_upsert_keys: "set (map key (fold (upsert key join) exs rows)) = set (map key rows) \<union> set (map key exs)"
proof (induction exs arbitrary: rows)
  case (Cons ex exs)
  have "set (map key (upsert key join ex rows)) = insert (key ex) (set (map key rows))"
    unfolding upsert_keys by auto
  then show ?case using Cons.IH [of "upsert key join ex rows"] by simp
qed simp

lemma find_map_join:
  "find (\<lambda>r. key r = k) (map (\<lambda>r. if key r = key ex then join ex r else r) rows)
   = (if key ex = k then map_option (join ex) (find (\<lambda>r. key r = k) rows) else find (\<lambda>r. key r = k) rows)"
  by (induction rows) (auto simp: key_join)

lemma upsert_find:
  "find (\<lambda>r. key r = k) (upsert key join ex rows) =
     (if key ex = k then Some (case find (\<lambda>r. key r = k) rows of None \<Rightarrow> ex | Some r \<Rightarrow> join ex r)
      else find (\<lambda>r. key r = k) rows)"
proof (cases "key ex \<in> key ` set rows")
  case True
  then have "find (\<lambda>r. key r = key ex) rows \<noteq> None" by (simp add: find_key_None)
  then show ?thesis using True by (auto simp: upsert_present find_map_join)
next
  case False
  then have "find (\<lambda>r. key r = key ex) rows = None" by (simp add: find_key_None)
  then show ?thesis using False by (induction rows) (auto simp: upsert_absent split: if_splits)
qed

lemma fold_upsert_find_other:
  "k \<notin> key ` set exs \<Longrightarrow> find (\<lambda>r. key r = k) (fold (upsert key join) exs rows) = find (\<lambda>r. key r = k) rows"
  by (induction exs arbitrary: rows) (auto simp: upsert_find)

lemma fold_upsert_find:
  "distinct (map key exs) \<Longrightarrow> ex \<in> set exs \<Longrightarrow> find (\<lambda>r. key r = key ex) (fold (upsert key join) exs rows)
     = Some (case find (\<lambda>r. key r = key ex) rows of None \<Rightarrow> ex | Some r \<Rightarrow> join ex r)"
proof (induction exs arbitrary: rows)
  case (Cons e exs)
  show ?case
  proof (cases "ex = e")
    case True
    show ?thesis unfolding True using Cons.prems(1) by (simp add: fold_upsert_find_other upsert_find)
  next
    case False
    then have "ex \<in> set exs" "key e \<noteq> key ex" using Cons.prems by (auto simp: image_iff)
    then show ?thesis using Cons.IH [of "upsert key join e rows"] Cons.prems(1) by (simp add: upsert_find)
  qed
qed simp

end

section \<open>The tables\<close>

text \<open>A row of \<open>click_events\<close>, and the rows the dashboards read.\<close>

record stored_click =
  kc_id :: string
  kc_event :: click_event
  kc_rolled :: "int option"

record click_daily =
  cd_link :: string
  cd_workspace :: string
  cd_day :: int
  cd_clicks :: int
  cd_uniques :: int
  cd_scans :: int
  cd_blocked :: int

record breakdown_daily =
  bd_workspace :: string
  bd_link :: string
  bd_day :: int
  bd_dimension :: string
  bd_value :: string
  bd_count :: int

record link_counters =
  lc_link :: string
  lc_clicks :: int
  lc_unique_clicks :: int
  lc_reserved :: int

type_synonym link_day = "string \<times> int"

record roll_db =
  rl_events :: "stored_click list"
  rl_daily :: "click_daily list"
  rl_sketches :: "(link_day \<times> sketch) list"
  rl_breakdown :: "breakdown_daily list"
  rl_counters :: "link_counters list"

datatype rollup_error = CardinalityViolation | OutOfRange | BadVisitor hll_error

definition int4 :: "int \<Rightarrow> bool" where
  "int4 n = (- 2147483648 \<le> n \<and> n \<le> 2147483647)"

definition utc_day :: "int \<Rightarrow> int" where
  "utc_day t = t div 86400000"

definition daily_key :: "click_daily \<Rightarrow> link_day" where
  "daily_key r = (cd_link r, cd_day r)"

definition add_daily :: "click_daily \<Rightarrow> click_daily \<Rightarrow> click_daily" where
  "add_daily ex r =
     r\<lparr>cd_clicks := cd_clicks r + cd_clicks ex, cd_scans := cd_scans r + cd_scans ex,
       cd_blocked := cd_blocked r + cd_blocked ex\<rparr>"

definition breakdown_key :: "breakdown_daily \<Rightarrow> string \<times> string \<times> int \<times> string \<times> string" where
  "breakdown_key r = (bd_workspace r, bd_link r, bd_day r, bd_dimension r, bd_value r)"

definition add_breakdown :: "breakdown_daily \<Rightarrow> breakdown_daily \<Rightarrow> breakdown_daily" where
  "add_breakdown ex r = r\<lparr>bd_count := bd_count r + bd_count ex\<rparr>"

definition set_counters :: "link_counters \<Rightarrow> link_counters \<Rightarrow> link_counters" where
  "set_counters ex r = r\<lparr>lc_clicks := lc_clicks ex, lc_unique_clicks := lc_unique_clicks ex\<rparr>"

section \<open>One pass\<close>

definition claim_batch :: "nat \<Rightarrow> (string \<Rightarrow> bool) \<Rightarrow> stored_click list \<Rightarrow> stored_click list" where
  "claim_batch limit locked rows =
     (let pending = sort_key (\<lambda>c. ce_occurred_at (kc_event c)) (filter (\<lambda>c. kc_rolled c = None) rows);
          ids = map kc_id (take limit (filter (\<lambda>c. \<not> locked (kc_id c)) pending))
      in filter (\<lambda>c. kc_id c \<in> set ids) rows)"

definition counts_as_click :: "stored_click \<Rightarrow> bool" where
  "counts_as_click c = (\<not> ce_is_bot (kc_event c) \<and> ce_blocked_reason (kc_event c) = None)"

definition click_day :: "stored_click \<Rightarrow> int" where
  "click_day c = utc_day (ce_occurred_at (kc_event c))"

definition daily_group :: "stored_click \<Rightarrow> string \<times> string \<times> int" where
  "daily_group c = (ce_link_id (kc_event c), ce_workspace_id (kc_event c), click_day c)"

definition count_where :: "('a \<Rightarrow> bool) \<Rightarrow> 'a list \<Rightarrow> int" where
  "count_where p xs = int (length (filter p xs))"

text \<open>The row the \<open>SELECT ... GROUP BY\<close> offers for a group.\<close>

definition daily_row :: "stored_click list \<Rightarrow> string \<times> string \<times> int \<Rightarrow> click_daily" where
  "daily_row batch g =
     (case g of (link, workspace, day) \<Rightarrow>
       \<lparr> cd_link = link, cd_workspace = workspace, cd_day = day,
         cd_clicks = count_where (\<lambda>c. daily_group c = g \<and> counts_as_click c) batch,
         cd_uniques = 0,
         cd_scans = count_where (\<lambda>c. daily_group c = g \<and> counts_as_click c \<and> ce_is_qr (kc_event c)) batch,
         cd_blocked = count_where (\<lambda>c. daily_group c = g \<and> ce_blocked_reason (kc_event c) \<noteq> None) batch \<rparr>)"

text \<open>
  An \<open>INSERT ... ON CONFLICT DO UPDATE\<close> that meets one row twice is refused, and so is a value that
  does not fit its column.
\<close>

definition upsert_daily :: "stored_click list \<Rightarrow> click_daily list \<Rightarrow> rollup_error + click_daily list" where
  "upsert_daily batch rows =
     (let offered = map (daily_row batch) (remdups (map daily_group batch));
          rows' = fold (upsert daily_key add_daily) offered rows
      in if \<not> distinct (map daily_key offered) then Inl CardinalityViolation
         else if \<not> list_all (\<lambda>r. int4 (cd_clicks r) \<and> int4 (cd_scans r) \<and> int4 (cd_blocked r)) rows' then Inl OutOfRange
         else Inr rows')"

text \<open>One incoming sketch per link and day, in the order of first appearance.\<close>

fun group_visitors :: "stored_click list \<Rightarrow> (link_day \<times> sketch) list \<Rightarrow> hll_error + (link_day \<times> sketch) list" where
  "group_visitors [] groups = Inr groups"
| "group_visitors (c # cs) groups =
     (let k = (ce_link_id (kc_event c), click_day c) in
      case add_hashed (or_else (map_of groups k) create_sketch) (ce_visitor_hash (kc_event c)) of
        Inl e \<Rightarrow> Inl e
      | Inr sk \<Rightarrow> group_visitors cs (AList.update k sk groups))"

text \<open>The merge of one group into its locked row, and \<open>uniques\<close> derived from it.\<close>

definition merge_group :: "(rat \<Rightarrow> rat) \<Rightarrow> link_day \<times> sketch \<Rightarrow> (link_day \<times> sketch) list \<times> click_daily list
    \<Rightarrow> rollup_error + (link_day \<times> sketch) list \<times> click_daily list" where
  "merge_group log_fn g st =
     (case (g, st) of ((k, incoming), (sketches, daily)) \<Rightarrow>
        (case deserialize (or_else (map_of sketches k) create_sketch) of
           Inl e \<Rightarrow> Inl (BadVisitor e)
         | Inr stored \<Rightarrow>
         (case merge_sketch stored incoming of
           Inl e \<Rightarrow> Inl (BadVisitor e)
         | Inr merged \<Rightarrow>
         (case serialize merged of
           Inl e \<Rightarrow> Inl (BadVisitor e)
         | Inr bytes \<Rightarrow>
         (case estimate log_fn merged of
           Inl e \<Rightarrow> Inl (BadVisitor e)
         | Inr uniques \<Rightarrow>
             if \<not> int4 uniques then Inl OutOfRange
             else Inr (AList.update k bytes sketches,
                       map (\<lambda>r. if daily_key r = k then r\<lparr>cd_uniques := uniques\<rparr> else r) daily))))))"

fun merge_groups :: "(rat \<Rightarrow> rat) \<Rightarrow> (link_day \<times> sketch) list \<Rightarrow> (link_day \<times> sketch) list \<times> click_daily list
    \<Rightarrow> rollup_error + (link_day \<times> sketch) list \<times> click_daily list" where
  "merge_groups log_fn [] st = Inr st"
| "merge_groups log_fn (g # gs) st =
     (case merge_group log_fn g st of Inl e \<Rightarrow> Inl e | Inr st' \<Rightarrow> merge_groups log_fn gs st')"

definition device_text :: "device_type \<Rightarrow> string" where
  "device_text d = (case d of Ios \<Rightarrow> ''ios'' | Android \<Rightarrow> ''android'' | Desktop \<Rightarrow> ''desktop'' | Mobile \<Rightarrow> ''mobile'')"

definition dimensions :: "(string \<times> (click_event \<Rightarrow> string option)) list" where
  "dimensions =
     [(''country'', ce_country), (''city'', ce_city), (''device'', \<lambda>e. Some (device_text (ce_device e))),
      (''browser'', \<lambda>e. Some (ce_browser e)), (''referrer'', ce_referrer_host)]"

definition breakdown_group :: "(click_event \<Rightarrow> string option) \<Rightarrow> stored_click \<Rightarrow> string \<times> string \<times> int \<times> string" where
  "breakdown_group column c =
     (ce_workspace_id (kc_event c), ce_link_id (kc_event c), click_day c, or_else (column (kc_event c)) ''Unknown'')"

definition breakdown_row :: "string \<Rightarrow> (click_event \<Rightarrow> string option) \<Rightarrow> stored_click list
    \<Rightarrow> string \<times> string \<times> int \<times> string \<Rightarrow> breakdown_daily" where
  "breakdown_row dimension column clicks g =
     (case g of (workspace, link, day, v) \<Rightarrow>
       \<lparr> bd_workspace = workspace, bd_link = link, bd_day = day, bd_dimension = dimension, bd_value = v,
         bd_count = count_where (\<lambda>c. breakdown_group column c = g) clicks \<rparr>)"

definition upsert_breakdown :: "stored_click list \<Rightarrow> string \<times> (click_event \<Rightarrow> string option) \<Rightarrow> breakdown_daily list
    \<Rightarrow> rollup_error + breakdown_daily list" where
  "upsert_breakdown batch entry rows =
     (case entry of (name, column) \<Rightarrow>
       (let clicks = filter counts_as_click batch;
            offered = map (breakdown_row name column clicks) (remdups (map (breakdown_group column) clicks));
            rows' = fold (upsert breakdown_key add_breakdown) offered rows
        in if list_all (\<lambda>r. int4 (bd_count r)) rows' then Inr rows' else Inl OutOfRange))"

fun upsert_breakdowns :: "stored_click list \<Rightarrow> (string \<times> (click_event \<Rightarrow> string option)) list \<Rightarrow> breakdown_daily list
    \<Rightarrow> rollup_error + breakdown_daily list" where
  "upsert_breakdowns batch [] rows = Inr rows"
| "upsert_breakdowns batch (d # ds) rows =
     (case upsert_breakdown batch d rows of Inl e \<Rightarrow> Inl e | Inr rows' \<Rightarrow> upsert_breakdowns batch ds rows')"

definition link_totals :: "click_daily list \<Rightarrow> string \<Rightarrow> link_counters" where
  "link_totals daily link =
     (let mine = filter (\<lambda>r. cd_link r = link) daily in
      \<lparr> lc_link = link, lc_clicks = sum_list (map cd_clicks mine), lc_unique_clicks = sum_list (map cd_uniques mine),
        lc_reserved = 0 \<rparr>)"

definition refresh_counters :: "stored_click list \<Rightarrow> click_daily list \<Rightarrow> link_counters list \<Rightarrow> rollup_error + link_counters list" where
  "refresh_counters batch daily rows =
     (let links = remdups (map cd_link (filter (\<lambda>r. cd_link r \<in> set (map (\<lambda>c. ce_link_id (kc_event c)) batch)) daily));
          offered = map (link_totals daily) links
      in if list_all (\<lambda>r. int4 (lc_clicks r) \<and> int4 (lc_unique_clicks r)) offered
         then Inr (fold (upsert lc_link set_counters) offered rows) else Inl OutOfRange)"

definition mark_rolled :: "int \<Rightarrow> stored_click list \<Rightarrow> stored_click list \<Rightarrow> stored_click list" where
  "mark_rolled now batch rows =
     map (\<lambda>c. if list_ex (\<lambda>b. kc_id b = kc_id c \<and> ce_occurred_at (kc_event b) = ce_occurred_at (kc_event c)) batch
              then c\<lparr>kc_rolled := Some now\<rparr> else c) rows"

text \<open>\<open>rollupClicks\<close>: an error anywhere rolls the transaction back.\<close>

definition rollup_clicks :: "(rat \<Rightarrow> rat) \<Rightarrow> int \<Rightarrow> nat \<Rightarrow> (string \<Rightarrow> bool) \<Rightarrow> roll_db
    \<Rightarrow> (rollup_error + nat \<times> nat) \<times> roll_db" where
  "rollup_clicks log_fn now batch_size locked db =
     (let batch = claim_batch batch_size locked (rl_events db) in
      if batch = [] then (Inr (0, 0), db)
      else case upsert_daily batch (rl_daily db) of
        Inl e \<Rightarrow> (Inl e, db)
      | Inr daily \<Rightarrow>
      (case group_visitors (filter counts_as_click batch) [] of
        Inl e \<Rightarrow> (Inl (BadVisitor e), db)
      | Inr groups \<Rightarrow>
      (case merge_groups log_fn groups (rl_sketches db, daily) of
        Inl e \<Rightarrow> (Inl e, db)
      | Inr (sketches, daily') \<Rightarrow>
      (case upsert_breakdowns batch dimensions (rl_breakdown db) of
        Inl e \<Rightarrow> (Inl e, db)
      | Inr breakdown \<Rightarrow>
      (case refresh_counters batch daily' (rl_counters db) of
        Inl e \<Rightarrow> (Inl e, db)
      | Inr counters \<Rightarrow>
          (Inr (length batch, card (set (map click_day batch))),
           \<lparr> rl_events = mark_rolled now batch (rl_events db), rl_daily = daily', rl_sketches = sketches,
             rl_breakdown = breakdown, rl_counters = counters \<rparr>))))))"

section \<open>Counting\<close>

interpretation daily: keyed_table daily_key add_daily
  by unfold_locales (simp add: daily_key_def add_daily_def)

interpretation breakdown: keyed_table breakdown_key add_breakdown
  by unfold_locales (simp add: breakdown_key_def add_breakdown_def)

interpretation counters: keyed_table lc_link set_counters
  by unfold_locales (simp add: set_counters_def)

lemma count_where_Nil [simp]: "count_where p [] = 0"
  by (simp add: count_where_def)

lemma count_where_Cons [simp]: "count_where p (x # xs) = (if p x then 1 else 0) + count_where p xs"
  by (simp add: count_where_def)

lemma count_where_append [simp]: "count_where p (xs @ ys) = count_where p xs + count_where p ys"
  by (simp add: count_where_def)

lemma sum_list_single:
  fixes v :: int
  shows "distinct ks \<Longrightarrow> sum_list (map (\<lambda>g. if g = a then v else 0) ks) = (if a \<in> set ks then v else 0)"
  by (induction ks) auto

text \<open>Counting group by group is counting.\<close>

lemma group_counts:
  assumes "distinct ks" "k ` set xs \<subseteq> set ks"
  shows "sum_list (map (\<lambda>g. if Q g then count_where (\<lambda>c. k c = g \<and> P c) xs else 0) ks) = count_where (\<lambda>c. Q (k c) \<and> P c) xs"
  using assms(2)
proof (induction xs)
  case Nil
  show ?case by (induction ks) auto
next
  case (Cons x xs)
  have "sum_list (map (\<lambda>g. if Q g then count_where (\<lambda>c. k c = g \<and> P c) (x # xs) else 0) ks)
      = sum_list (map (\<lambda>g. if g = k x then (if Q (k x) \<and> P x then 1 else 0) else 0) ks)
        + sum_list (map (\<lambda>g. if Q g then count_where (\<lambda>c. k c = g \<and> P c) xs else 0) ks)"
    unfolding sum_list_addf [symmetric] by (rule arg_cong [where f = sum_list]) auto
  then show ?case using Cons sum_list_single [OF assms(1)] by simp
qed

definition on_day :: "string \<Rightarrow> int \<Rightarrow> stored_click \<Rightarrow> bool" where
  "on_day l d c = (ce_link_id (kc_event c) = l \<and> click_day c = d)"

definition daily_sum :: "(click_daily \<Rightarrow> int) \<Rightarrow> string \<Rightarrow> int \<Rightarrow> click_daily list \<Rightarrow> int" where
  "daily_sum f l d rows = sum_list (map (\<lambda>r. if daily_key r = (l, d) then f r else 0) rows)"

lemma daily_key_row [simp]: "daily_key (daily_row batch g) = (fst g, snd (snd g))"
  by (simp add: daily_key_def daily_row_def split: prod.split)

lemma upsert_daily_total:
  assumes "upsert_daily batch rows = Inr rows'" "distinct (map daily_key rows)"
    and f: "\<And>ex r. f (add_daily ex r) = f r + f ex" "\<And>g. f (daily_row batch g) = count_where (\<lambda>c. daily_group c = g \<and> P c) batch"
  shows "sum_list (map (\<lambda>r. if Q (daily_key r) then f r else 0) rows')
    = sum_list (map (\<lambda>r. if Q (daily_key r) then f r else 0) rows) + count_where (\<lambda>c. Q (ce_link_id (kc_event c), click_day c) \<and> P c) batch"
proof -
  let ?gs = "remdups (map daily_group batch)" and ?w = "\<lambda>r. if Q (daily_key r) then f r else 0"
  have r: "rows' = fold (upsert daily_key add_daily) (map (daily_row batch) ?gs) rows"
    using assms(1) by (auto simp: upsert_daily_def Let_def split: if_splits)
  have "sum_list (map ?w rows') = sum_list (map ?w rows) + sum_list (map ?w (map (daily_row batch) ?gs))"
    unfolding r using assms(2) f(1) by (intro daily.fold_upsert_sum) (simp_all add: daily.key_join)
  also have "map ?w (map (daily_row batch) ?gs)
      = map (\<lambda>g. if Q (fst g, snd (snd g)) then count_where (\<lambda>c. daily_group c = g \<and> P c) batch else 0) ?gs"
    by (auto simp: f(2))
  also have "sum_list \<dots> = count_where (\<lambda>c. Q (fst (daily_group c), snd (snd (daily_group c))) \<and> P c) batch"
    by (rule group_counts) auto
  finally show ?thesis by (simp add: daily_group_def)
qed

lemma upsert_daily_sum:
  assumes "upsert_daily batch rows = Inr rows'" "distinct (map daily_key rows)"
    "\<And>ex r. f (add_daily ex r) = f r + f ex" "\<And>g. f (daily_row batch g) = count_where (\<lambda>c. daily_group c = g \<and> P c) batch"
  shows "daily_sum f l d rows' = daily_sum f l d rows + count_where (\<lambda>c. on_day l d c \<and> P c) batch"
  using upsert_daily_total [OF assms, where Q = "\<lambda>k. k = (l, d)"] by (simp add: daily_sum_def on_day_def)

lemma upsert_daily_rows:
  assumes "upsert_daily batch rows = Inr rows'"
  shows "distinct (map daily_key rows) \<Longrightarrow> distinct (map daily_key rows')"
    "daily_key ` set rows' = daily_key ` set rows \<union> (\<lambda>c. (ce_link_id (kc_event c), click_day c)) ` set batch"
    "\<forall>c \<in> set batch. ce_link_id (kc_event c) \<noteq> l \<Longrightarrow> filter (\<lambda>r. cd_link r = l) rows' = filter (\<lambda>r. cd_link r = l) rows"
proof -
  have r: "rows' = fold (upsert daily_key add_daily) (map (daily_row batch) (remdups (map daily_group batch))) rows"
    using assms by (auto simp: upsert_daily_def Let_def split: if_splits)
  show "distinct (map daily_key rows) \<Longrightarrow> distinct (map daily_key rows')"
    unfolding r by (rule daily.fold_upsert_distinct)
  have k: "daily_key (daily_row batch (daily_group c)) = (ce_link_id (kc_event c), click_day c)" for c
    by (simp add: daily_group_def)
  show "daily_key ` set rows' = daily_key ` set rows \<union> (\<lambda>c. (ce_link_id (kc_event c), click_day c)) ` set batch"
    using daily.fold_upsert_keys [of "map (daily_row batch) (remdups (map daily_group batch))" rows] k
    unfolding r by (simp add: image_image)
  show "filter (\<lambda>r. cd_link r = l) rows' = filter (\<lambda>r. cd_link r = l) rows" if "\<forall>c \<in> set batch. ce_link_id (kc_event c) \<noteq> l"
    using daily.fold_upsert_filter [of "map (daily_row batch) (remdups (map daily_group batch))" "\<lambda>k. fst k = l" rows] that k
    unfolding r by (auto simp: daily_key_def)
qed

section \<open>Sketches\<close>

abbreviation visitor :: "stored_click \<Rightarrow> string" where
  "visitor c \<equiv> ce_visitor_hash (kc_event c)"

abbreviation click_key :: "stored_click \<Rightarrow> link_day" where
  "click_key c \<equiv> (ce_link_id (kc_event c), click_day c)"

definition sketch_at :: "link_day \<Rightarrow> (link_day \<times> sketch) list \<Rightarrow> sketch" where
  "sketch_at k sketches = or_else (map_of sketches k) create_sketch"

definition visitors_sketch :: "string list \<Rightarrow> sketch" where
  "visitors_sketch hs = fold (\<lambda>h sk. add_value sk (hash_value h)) hs create_sketch"

definition sketches_fit :: "(link_day \<times> sketch) list \<Rightarrow> bool" where
  "sketches_fit sketches = (\<forall>sk \<in> snd ` set sketches. length sk = hll_byte_size)"

lemma length_visitors_sketch [simp]: "length (visitors_sketch hs) = 16384"
  by (simp add: visitors_sketch_def)

lemma visitors_sketch_set: "set xs = set ys \<Longrightarrow> visitors_sketch xs = visitors_sketch ys"
  unfolding visitors_sketch_def by (rule fold_add_set)

lemma merge_visitors: "merge_loop (visitors_sketch xs) (visitors_sketch ys) = visitors_sketch (ys @ xs)"
  by (simp add: visitors_sketch_def merge_fold_add Hll.merge_empty)

lemma sketch_at_length: "sketches_fit sketches \<Longrightarrow> length (sketch_at k sketches) = 16384"
  by (cases "map_of sketches k") (force simp: sketch_at_def sketches_fit_def dest: map_of_SomeD)+

lemma sketches_fit_update: "sketches_fit sketches \<Longrightarrow> length sk = 16384 \<Longrightarrow> sketches_fit (AList.update k sk sketches)"
  by (induction sketches) (auto simp: sketches_fit_def)

lemma map_of_update: "map_of (AList.update k v al) = (map_of al)(k \<mapsto> v)"
  by (simp add: update_conv')

lemma sketch_at_update: "sketch_at k (AList.update k' sk sketches) = (if k = k' then sk else sketch_at k sketches)"
  by (simp add: sketch_at_def map_of_update)

lemma add_hashed_InrD:
  "add_hashed sk h = Inr sk' \<Longrightarrow> good_hash h \<and> sk' = add_value sk (hash_value h) \<and> length sk = 16384"
  by (auto simp: add_hashed_def hash_hex_to_32bit_def good_hash_def hash_value_def split: if_splits)

lemma group_visitorsD:
  assumes "group_visitors cs groups = Inr groups'" "sketches_fit groups" "distinct (map fst groups)"
  shows "sketches_fit groups' \<and> distinct (map fst groups') \<and> fst ` set groups' = fst ` set groups \<union> click_key ` set cs
    \<and> sketch_at k groups' = fold (\<lambda>h sk. add_value sk (hash_value h)) (map visitor (filter (\<lambda>c. click_key c = k) cs)) (sketch_at k groups)"
  using assms
proof (induction cs arbitrary: groups)
  case (Cons c cs)
  let ?k = "click_key c"
  obtain sk where sk: "add_hashed (sketch_at ?k groups) (visitor c) = Inr sk"
    "group_visitors cs (AList.update ?k sk groups) = Inr groups'"
    using Cons.prems(1) by (auto simp: Let_def sketch_at_def split: sum.splits)
  have v: "sk = add_value (sketch_at ?k groups) (hash_value (visitor c))"
    using add_hashed_InrD [OF sk(1)] by simp
  have f: "sketches_fit (AList.update ?k sk groups)"
    using sketches_fit_update [OF Cons.prems(2)] sketch_at_length [OF Cons.prems(2)] by (simp add: v)
  have d: "distinct (map fst (AList.update ?k sk groups))" using Cons.prems(3) by (rule distinct_update)
  have u: "fst ` set (AList.update ?k sk groups) = insert ?k (fst ` set groups)"
    by (simp add: dom_map_of_conv_image_fst [symmetric] map_of_update)
  show ?case using Cons.IH [OF sk(2) f d] u by (auto simp: sketch_at_update v)
qed simp

lemma merge_groupD:
  assumes "merge_group log_fn (k, sk) (sketches, rows) = Inr (sketches', rows')"
  shows "length sk = 16384 \<and> sketches' = AList.update k (merge_loop (sketch_at k sketches) sk) sketches
    \<and> (\<exists>n. estimate log_fn (merge_loop (sketch_at k sketches) sk) = Inr n
          \<and> rows' = map (\<lambda>r. if daily_key r = k then r\<lparr>cd_uniques := n\<rparr> else r) rows)"
  using assms
  by (auto simp: merge_group_def deserialize_def serialize_def merge_sketch_def sketch_at_def
      split: sum.splits if_splits)

text \<open>What a run over the groups keeps of the rows of \<open>click_daily\<close>, and what it does to the sketches.\<close>

lemma merge_groups_rows:
  assumes "merge_groups log_fn groups (sketches, rows) = Inr (sketches', rows')"
  shows "map daily_key rows' = map daily_key rows \<and> map (\<lambda>r. r\<lparr>cd_uniques := 0\<rparr>) rows' = map (\<lambda>r. r\<lparr>cd_uniques := 0\<rparr>) rows
    \<and> (\<forall>l. l \<notin> fst ` fst ` set groups \<longrightarrow> filter (\<lambda>r. cd_link r = l) rows' = filter (\<lambda>r. cd_link r = l) rows)"
  using assms
proof (induction groups arbitrary: sketches rows)
  case (Cons g groups)
  obtain k sk where g: "g = (k, sk)" by (cases g)
  obtain sketches1 rows1 where m: "merge_group log_fn (k, sk) (sketches, rows) = Inr (sketches1, rows1)"
    "merge_groups log_fn groups (sketches1, rows1) = Inr (sketches', rows')"
    using Cons.prems by (auto simp: g split: sum.splits)
  obtain n where n: "rows1 = map (\<lambda>r. if daily_key r = k then r\<lparr>cd_uniques := n\<rparr> else r) rows"
    using merge_groupD [OF m(1)] by auto
  have k: "map daily_key rows1 = map daily_key rows" "map (\<lambda>r. r\<lparr>cd_uniques := 0\<rparr>) rows1 = map (\<lambda>r. r\<lparr>cd_uniques := 0\<rparr>) rows"
    by (auto simp: n daily_key_def)
  have "filter (\<lambda>r. cd_link r = l) rows1 = filter (\<lambda>r. cd_link r = l) rows" if "l \<noteq> fst k" for l
    unfolding n using that by (induction rows) (auto simp: daily_key_def)
  then show ?case using Cons.IH [OF m(2)] k by (simp add: g)
qed simp

lemma merge_groups_sketches:
  assumes "merge_groups log_fn groups (sketches, rows) = Inr (sketches', rows')" "distinct (map fst groups)" "sketches_fit sketches"
  shows "sketches_fit sketches' \<and> fst ` set sketches' = fst ` set sketches \<union> fst ` set groups
    \<and> (k \<notin> fst ` set groups \<longrightarrow> sketch_at k sketches' = sketch_at k sketches)
    \<and> (k \<in> fst ` set groups \<longrightarrow> sketch_at k sketches' = merge_loop (sketch_at k sketches) (sketch_at k groups))"
  using assms
proof (induction groups arbitrary: sketches rows)
  case (Cons g groups)
  obtain k' sk where g: "g = (k', sk)" by (cases g)
  obtain sketches1 rows1 where m: "merge_group log_fn (k', sk) (sketches, rows) = Inr (sketches1, rows1)"
    "merge_groups log_fn groups (sketches1, rows1) = Inr (sketches', rows')"
    using Cons.prems(1) by (auto simp: g split: sum.splits)
  have s: "sketches1 = AList.update k' (merge_loop (sketch_at k' sketches) sk) sketches" "length sk = 16384"
    using merge_groupD [OF m(1)] by auto
  have f: "sketches_fit sketches1"
    unfolding s(1) using Cons.prems(3) by (rule sketches_fit_update) (simp add: s(2) sketch_at_length [OF Cons.prems(3)])
  have u: "fst ` set sketches1 = insert k' (fst ` set sketches)"
    by (simp add: s(1) dom_map_of_conv_image_fst [symmetric] map_of_update)
  have d: "distinct (map fst groups)" "k' \<notin> fst ` set groups" using Cons.prems(2) by (auto simp: g)
  have a: "sketch_at k' (g # groups) = sk" "k \<noteq> k' \<Longrightarrow> sketch_at k (g # groups) = sketch_at k groups"
    by (simp_all add: g sketch_at_def)
  show ?case
    using Cons.IH [OF m(2) d(1) f] u d(2) a by (cases "k = k'") (auto simp: g s(1) sketch_at_update)
qed simp

lemma merge_groups_uniques:
  assumes "merge_groups log_fn groups (sketches, rows) = Inr (sketches', rows')" "distinct (map fst groups)"
    and "\<forall>r \<in> set rows. estimate log_fn (sketch_at (daily_key r) sketches) = Inr (cd_uniques r)"
  shows "\<forall>r \<in> set rows'. estimate log_fn (sketch_at (daily_key r) sketches') = Inr (cd_uniques r)"
  using assms
proof (induction groups arbitrary: sketches rows)
  case (Cons g groups)
  obtain k sk where g: "g = (k, sk)" by (cases g)
  obtain sketches1 rows1 where m: "merge_group log_fn (k, sk) (sketches, rows) = Inr (sketches1, rows1)"
    "merge_groups log_fn groups (sketches1, rows1) = Inr (sketches', rows')"
    using Cons.prems(1) by (auto simp: g split: sum.splits)
  obtain n where n: "sketches1 = AList.update k (merge_loop (sketch_at k sketches) sk) sketches"
    "estimate log_fn (merge_loop (sketch_at k sketches) sk) = Inr n"
    "rows1 = map (\<lambda>r. if daily_key r = k then r\<lparr>cd_uniques := n\<rparr> else r) rows"
    using merge_groupD [OF m(1)] by auto
  have "\<forall>r \<in> set rows1. estimate log_fn (sketch_at (daily_key r) sketches1) = Inr (cd_uniques r)"
    using Cons.prems(3) n(2) by (auto simp: n(1,3) sketch_at_update daily_key_def)
  then show ?case using Cons.IH [OF m(2)] Cons.prems(2) by (simp add: g)
qed simp

section \<open>What a pass does to each table\<close>

lemma rollup_cases:
  assumes "rollup_clicks log_fn now n locked db = (answer, db')"
  obtains (Same) "db' = db" "claim_batch n locked (rl_events db) = [] \<or> isl answer"
  | (Rolled) batch daily groups sketches daily' breakdown counters
    where "batch = claim_batch n locked (rl_events db)" "upsert_daily batch (rl_daily db) = Inr daily"
      "group_visitors (filter counts_as_click batch) [] = Inr groups"
      "merge_groups log_fn groups (rl_sketches db, daily) = Inr (sketches, daily')"
      "upsert_breakdowns batch dimensions (rl_breakdown db) = Inr breakdown"
      "refresh_counters batch daily' (rl_counters db) = Inr counters"
      "db' = \<lparr> rl_events = mark_rolled now batch (rl_events db), rl_daily = daily', rl_sketches = sketches,
               rl_breakdown = breakdown, rl_counters = counters \<rparr>"
      "answer = Inr (length batch, card (set (map click_day batch)))" "batch \<noteq> []"
proof -
  let ?b = "claim_batch n locked (rl_events db)"
  note d = assms [unfolded rollup_clicks_def Let_def]
  consider "?b = []" | e where "upsert_daily ?b (rl_daily db) = Inl e"
    | daily e where "upsert_daily ?b (rl_daily db) = Inr daily" "group_visitors (filter counts_as_click ?b) [] = Inl e"
    | daily groups where "?b \<noteq> []" "upsert_daily ?b (rl_daily db) = Inr daily" "group_visitors (filter counts_as_click ?b) [] = Inr groups"
    by (metis sum.exhaust)
  then show thesis
  proof cases
    case (4 daily groups)
    note d = d [unfolded 4(2,3) if_not_P [OF 4(1)] sum.case]
    show thesis
    proof (cases "merge_groups log_fn groups (rl_sketches db, daily)")
      case (Inr m)
      obtain sketches daily' where m: "m = (sketches, daily')" by (cases m)
      note d = d [unfolded Inr m sum.case prod.case]
      show thesis
      proof (cases "upsert_breakdowns ?b dimensions (rl_breakdown db)")
        case b: (Inr breakdown)
        show thesis
        proof (cases "refresh_counters ?b daily' (rl_counters db)")
          case c: (Inr counters)
          show thesis by (rule Rolled [OF refl 4(2,3) Inr [unfolded m] b c]) (use d b c 4(1) in simp_all)
        qed (rule Same; use d b in auto)
      qed (rule Same; use d in auto)
    qed (rule Same; use d in auto)
  qed (rule Same; use d in \<open>auto split: if_splits\<close>)+
qed

definition pending :: "stored_click list \<Rightarrow> stored_click list" where
  "pending rows = filter (\<lambda>c. kc_rolled c = None) rows"

lemma claim_batch_pending:
  assumes "distinct (map kc_id rows)"
  shows "set (claim_batch n locked rows) \<subseteq> set (pending rows)" "distinct (map kc_id (claim_batch n locked rows))"
    "c \<in> set rows \<Longrightarrow> b \<in> set (claim_batch n locked rows) \<Longrightarrow> kc_id b = kc_id c \<Longrightarrow> b = c"
proof -
  let ?taken = "take n (filter (\<lambda>c. \<not> locked (kc_id c)) (sort_key (\<lambda>c. ce_occurred_at (kc_event c)) (pending rows)))"
  have b: "claim_batch n locked rows = filter (\<lambda>c. kc_id c \<in> kc_id ` set ?taken) rows"
    unfolding claim_batch_def pending_def Let_def set_map ..
  have "set ?taken \<subseteq> set (pending rows)" by (auto dest: in_set_takeD)
  moreover have one: "x = y" if "x \<in> set rows" "y \<in> set rows" "kc_id x = kc_id y" for x y
    using assms that by (auto simp: distinct_map inj_on_def)
  moreover have "set (pending rows) \<subseteq> set rows" by (auto simp: pending_def)
  ultimately have "x \<in> set (pending rows)" if "x \<in> set rows" "kc_id x = kc_id y" "y \<in> set ?taken" for x y
    using that by (metis subsetD)
  then show "set (claim_batch n locked rows) \<subseteq> set (pending rows)" unfolding b by auto
  show "distinct (map kc_id (claim_batch n locked rows))" unfolding b using assms by (rule distinct_map_filter)
  show "c \<in> set rows \<Longrightarrow> b \<in> set (claim_batch n locked rows) \<Longrightarrow> kc_id b = kc_id c \<Longrightarrow> b = c"
    using one b by auto
qed

lemma mark_rolled_pending:
  assumes "distinct (map kc_id rows)" "batch = claim_batch n locked rows"
  shows "map kc_id (mark_rolled now batch rows) = map kc_id rows"
    "set (pending (mark_rolled now batch rows)) = set (pending rows) - set batch"
proof -
  show "map kc_id (mark_rolled now batch rows) = map kc_id rows" by (simp add: mark_rolled_def)
  have "list_ex (\<lambda>b. kc_id b = kc_id c \<and> ce_occurred_at (kc_event b) = ce_occurred_at (kc_event c)) batch \<longleftrightarrow> c \<in> set batch"
    if "c \<in> set rows" for c
    using claim_batch_pending(3) [OF assms(1) that] assms(2) by (auto simp: list_ex_iff)
  then have "mark_rolled now batch rows = map (\<lambda>c. if c \<in> set batch then c\<lparr>kc_rolled := Some now\<rparr> else c) rows"
    by (simp add: mark_rolled_def)
  then show "set (pending (mark_rolled now batch rows)) = set (pending rows) - set batch"
    by (auto simp: pending_def split: if_splits)
qed

definition breakdown_sum :: "string \<Rightarrow> string \<Rightarrow> int \<Rightarrow> string \<Rightarrow> breakdown_daily list \<Rightarrow> int" where
  "breakdown_sum dimension l d v rows =
     sum_list (map (\<lambda>r. if (bd_dimension r, bd_link r, bd_day r, bd_value r) = (dimension, l, d, v) then bd_count r else 0) rows)"

lemma upsert_breakdown_sum:
  assumes "upsert_breakdown batch (name, column) rows = Inr rows'" "distinct (map breakdown_key rows)"
  shows "distinct (map breakdown_key rows')
    \<and> breakdown_sum dimension l d v rows' = breakdown_sum dimension l d v rows
      + (if dimension = name then count_where (\<lambda>c. on_day l d c \<and> counts_as_click c \<and> or_else (column (kc_event c)) ''Unknown'' = v) batch else 0)"
proof -
  let ?cs = "filter counts_as_click batch" and ?g = "breakdown_group column"
  let ?mine = "\<lambda>g. dimension = name \<and> fst (snd g) = l \<and> fst (snd (snd g)) = d \<and> snd (snd (snd g)) = v"
  have r: "rows' = fold (upsert breakdown_key add_breakdown) (map (breakdown_row name column ?cs) (remdups (map ?g ?cs))) rows"
    using assms(1) by (auto simp: upsert_breakdown_def Let_def split: if_splits)
  have key: "(bd_dimension x, bd_link x, bd_day x, bd_value x) = (bd_dimension y, bd_link y, bd_day y, bd_value y)"
    if "breakdown_key x = breakdown_key y" for x y using that by (simp add: breakdown_key_def)
  have "breakdown_sum dimension l d v rows' = breakdown_sum dimension l d v rows
      + sum_list (map (\<lambda>r. if (bd_dimension r, bd_link r, bd_day r, bd_value r) = (dimension, l, d, v) then bd_count r else 0)
          (map (breakdown_row name column ?cs) (remdups (map ?g ?cs))))"
    unfolding breakdown_sum_def r using assms(2)
    by (intro breakdown.fold_upsert_sum) (auto simp: add_breakdown_def breakdown_key_def)
  also have "map (\<lambda>r. if (bd_dimension r, bd_link r, bd_day r, bd_value r) = (dimension, l, d, v) then bd_count r else 0)
      (map (breakdown_row name column ?cs) (remdups (map ?g ?cs)))
    = map (\<lambda>g. if ?mine g then count_where (\<lambda>c. ?g c = g \<and> True) ?cs else 0) (remdups (map ?g ?cs))"
    by (auto simp: breakdown_row_def split: prod.split)
  also have "sum_list \<dots> = count_where (\<lambda>c. ?mine (?g c) \<and> True) ?cs"
    by (rule group_counts) auto
  also have "\<dots> = (if dimension = name then count_where (\<lambda>c. on_day l d c \<and> counts_as_click c \<and> or_else (column (kc_event c)) ''Unknown'' = v) batch else 0)"
    by (induction batch) (auto simp: breakdown_group_def on_day_def)
  finally show ?thesis unfolding r using breakdown.fold_upsert_distinct [OF assms(2)] by simp
qed

lemma upsert_breakdowns_sum:
  assumes "upsert_breakdowns batch ds rows = Inr rows'" "distinct (map breakdown_key rows)" "distinct (map fst ds)"
  shows "distinct (map breakdown_key rows')
    \<and> breakdown_sum name l d v rows' = breakdown_sum name l d v rows
      + (case map_of ds name of None \<Rightarrow> 0 | Some column \<Rightarrow>
           count_where (\<lambda>c. on_day l d c \<and> counts_as_click c \<and> or_else (column (kc_event c)) ''Unknown'' = v) batch)"
  using assms
proof (induction ds arbitrary: rows)
  case (Cons e ds)
  obtain n column where e: "e = (n, column)" by (cases e)
  obtain rows1 where rows1: "upsert_breakdown batch (n, column) rows = Inr rows1" "upsert_breakdowns batch ds rows1 = Inr rows'"
    using Cons.prems(1) by (auto simp: e split: sum.splits)
  note one = upsert_breakdown_sum [OF rows1(1) Cons.prems(2), of name l d v]
  have "n \<notin> fst ` set ds" using Cons.prems(3) by (simp add: e)
  then show ?case
    using Cons.IH [OF rows1(2)] one Cons.prems(3) by (auto simp: e map_of_eq_None_iff [symmetric])
qed simp

section \<open>Passes, clicks and retention in any order\<close>

text \<open>
  A click is recorded, a pass runs, retention deletes rows that are rolled up, the redirect service
  reserves a click of a limited link. The second component is every click ever recorded.
\<close>

definition reserve_click :: "string \<Rightarrow> roll_db \<Rightarrow> roll_db" where
  "reserve_click l db =
     db\<lparr>rl_counters := upsert lc_link (\<lambda>_ r. r\<lparr>lc_reserved := lc_reserved r + 1\<rparr>)
        \<lparr> lc_link = l, lc_clicks = 0, lc_unique_clicks = 0, lc_reserved = 1 \<rparr> (rl_counters db)\<rparr>"

inductive table_step :: "roll_db \<times> stored_click list \<Rightarrow> roll_db \<times> stored_click list \<Rightarrow> bool" where
  Record: "kc_rolled c = None \<Longrightarrow> kc_id c \<notin> kc_id ` set recorded \<Longrightarrow>
    table_step (db, recorded) (db\<lparr>rl_events := rl_events db @ [c]\<rparr>, recorded @ [c])"
| Expire: "\<forall>c \<in> set (rl_events db). kc_rolled c = None \<longrightarrow> keep c \<Longrightarrow>
    table_step (db, recorded) (db\<lparr>rl_events := filter keep (rl_events db)\<rparr>, recorded)"
| Reserve: "table_step (db, recorded) (reserve_click l db, recorded)"

inductive rollup_step :: "(rat \<Rightarrow> rat) \<Rightarrow> roll_db \<times> stored_click list \<Rightarrow> roll_db \<times> stored_click list \<Rightarrow> bool" for log_fn where
  Other: "table_step st st' \<Longrightarrow> rollup_step log_fn st st'"
| Roll: "rollup_clicks log_fn now n locked db = (answer, db') \<Longrightarrow> rollup_step log_fn (db, recorded) (db', recorded)"

definition empty_rollups :: roll_db where
  "empty_rollups = \<lparr> rl_events = [], rl_daily = [], rl_sketches = [], rl_breakdown = [], rl_counters = [] \<rparr>"

definition counted :: "roll_db \<Rightarrow> stored_click list \<Rightarrow> stored_click list" where
  "counted db recorded = filter (\<lambda>c. c \<notin> set (pending (rl_events db))) recorded"

definition books_ok :: "roll_db \<Rightarrow> stored_click list \<Rightarrow> bool" where
  "books_ok db recorded =
     (distinct (map kc_id recorded) \<and> distinct (map kc_id (rl_events db))
      \<and> kc_id ` set (rl_events db) \<subseteq> kc_id ` set recorded \<and> set (pending (rl_events db)) \<subseteq> set recorded)"

lemma count_where_union:
  assumes "distinct zs" "distinct xs" "distinct ys" "set zs = set xs \<union> set ys" "set xs \<inter> set ys = {}"
  shows "count_where p zs = count_where p xs + count_where p ys"
proof -
  have "{c \<in> set zs. p c} = {c \<in> set xs. p c} \<union> {c \<in> set ys. p c}" using assms(4) by auto
  moreover have "card ({c \<in> set xs. p c} \<union> {c \<in> set ys. p c}) = card {c \<in> set xs. p c} + card {c \<in> set ys. p c}"
    using assms(5) by (intro card_Un_disjoint) auto
  ultimately show ?thesis
    by (simp add: count_where_def distinct_length_filter [OF assms(1)] distinct_length_filter [OF assms(2)]
        distinct_length_filter [OF assms(3)] Int_def conj_commute)
qed

lemma count_where_same:
  "distinct xs \<Longrightarrow> distinct ys \<Longrightarrow> set xs = set ys \<Longrightarrow> count_where p xs = count_where p ys"
  using count_where_union [of xs ys "[]" p] by simp

lemma counted_distinct: "books_ok db recorded \<Longrightarrow> distinct (counted db recorded)"
  by (auto simp: books_ok_def counted_def distinct_map)

lemma rolled_books:
  assumes "books_ok db recorded" "batch = claim_batch n locked (rl_events db)" "rl_events db' = mark_rolled now batch (rl_events db)"
  shows "books_ok db' recorded" "distinct batch" "set batch \<inter> set (counted db recorded) = {}"
    "set (counted db' recorded) = set batch \<union> set (counted db recorded)"
proof -
  have d: "distinct (map kc_id (rl_events db))" using assms(1) by (simp add: books_ok_def)
  note m = mark_rolled_pending [OF d assms(2), of now, folded assms(3)]
  have s: "set batch \<subseteq> set (pending (rl_events db))" and b: "distinct batch"
    using claim_batch_pending(1,2) [OF d, of n locked] assms(2) by (auto simp: distinct_map)
  have i: "kc_id ` set (rl_events db') = kc_id ` set (rl_events db)" using m(1) by (metis list.set_map)
  show "books_ok db' recorded" using assms(1) m i by (auto simp: books_ok_def)
  show "distinct batch" by (rule b)
  show "set batch \<inter> set (counted db recorded) = {}" using s by (auto simp: counted_def)
  show "set (counted db' recorded) = set batch \<union> set (counted db recorded)"
    using s m(2) assms(1) by (auto simp: counted_def books_ok_def)
qed

text \<open>The other steps leave the rows that are counted as they are.\<close>

lemma other_books:
  assumes "books_ok db recorded" "table_step (db, recorded) (db', recorded')"
  shows "books_ok db' recorded' \<and> set (counted db' recorded') = set (counted db recorded)
    \<and> rl_daily db' = rl_daily db \<and> rl_sketches db' = rl_sketches db \<and> rl_breakdown db' = rl_breakdown db"
  using assms(2)
proof cases
  case (Record c)
  have "pending (rl_events db') = pending (rl_events db) @ [c]" using Record by (simp add: pending_def)
  moreover have "c \<notin> set (pending (rl_events db))" "c \<notin> set recorded" "kc_id c \<notin> kc_id ` set (rl_events db)"
    using Record(4) assms(1) by (auto simp: books_ok_def)
  ultimately show ?thesis using Record assms(1) by (auto simp: books_ok_def counted_def)
next
  case (Expire keep)
  have "pending (rl_events db') = pending (rl_events db)"
    using Expire by (auto simp: pending_def intro!: filter_cong)
  then show ?thesis using Expire assms(1) by (auto simp: books_ok_def counted_def distinct_map_filter)
next
  case (Reserve l)
  then show ?thesis using assms(1) by (simp add: books_ok_def counted_def reserve_click_def)
qed

definition tallies_ok :: "roll_db \<Rightarrow> stored_click list \<Rightarrow> bool" where
  "tallies_ok db recorded =
     (distinct (map daily_key (rl_daily db))
      \<and> (\<forall>l d. daily_sum cd_clicks l d (rl_daily db) = count_where (\<lambda>c. on_day l d c \<and> counts_as_click c) (counted db recorded)
           \<and> daily_sum cd_scans l d (rl_daily db)
               = count_where (\<lambda>c. on_day l d c \<and> counts_as_click c \<and> ce_is_qr (kc_event c)) (counted db recorded)
           \<and> daily_sum cd_blocked l d (rl_daily db)
               = count_where (\<lambda>c. on_day l d c \<and> ce_blocked_reason (kc_event c) \<noteq> None) (counted db recorded)))"

definition breakdown_ok :: "roll_db \<Rightarrow> stored_click list \<Rightarrow> bool" where
  "breakdown_ok db recorded =
     (distinct (map breakdown_key (rl_breakdown db))
      \<and> (\<forall>name column l d v. map_of dimensions name = Some column \<longrightarrow>
           breakdown_sum name l d v (rl_breakdown db)
             = count_where (\<lambda>c. on_day l d c \<and> counts_as_click c \<and> or_else (column (kc_event c)) ''Unknown'' = v) (counted db recorded)))"

definition uniques_ok :: "(rat \<Rightarrow> rat) \<Rightarrow> roll_db \<Rightarrow> stored_click list \<Rightarrow> bool" where
  "uniques_ok log_fn db recorded =
     (sketches_fit (rl_sketches db) \<and> fst ` set (rl_sketches db) \<subseteq> daily_key ` set (rl_daily db)
      \<and> (\<forall>l d. sketch_at (l, d) (rl_sketches db)
           = visitors_sketch (map visitor (filter (\<lambda>c. on_day l d c \<and> counts_as_click c) (counted db recorded))))
      \<and> (\<forall>r \<in> set (rl_daily db). estimate log_fn (sketch_at (daily_key r) (rl_sketches db)) = Inr (cd_uniques r)))"

lemma daily_sum_uniques:
  "map (\<lambda>r. r\<lparr>cd_uniques := 0\<rparr>) xs = map (\<lambda>r. r\<lparr>cd_uniques := 0\<rparr>) ys \<Longrightarrow> f \<in> {cd_clicks, cd_scans, cd_blocked} \<Longrightarrow>
     daily_sum f l d xs = daily_sum f l d ys"
proof -
  assume m: "map (\<lambda>r. r\<lparr>cd_uniques := 0\<rparr>) xs = map (\<lambda>r. r\<lparr>cd_uniques := 0\<rparr>) ys" and f: "f \<in> {cd_clicks, cd_scans, cd_blocked}"
  have "daily_sum f l d (map (\<lambda>r. r\<lparr>cd_uniques := 0\<rparr>) zs) = daily_sum f l d zs" for zs
    unfolding daily_sum_def using f by (induction zs) (auto simp: daily_key_def)
  then show ?thesis using m by metis
qed

lemma rolled_tallies:
  assumes "books_ok db recorded" "tallies_ok db recorded" "batch = claim_batch n locked (rl_events db)"
    "upsert_daily batch (rl_daily db) = Inr daily" "merge_groups log_fn groups (rl_sketches db, daily) = Inr (sketches, rl_daily db')"
    "rl_events db' = mark_rolled now batch (rl_events db)"
  shows "tallies_ok db' recorded"
proof -
  note b = rolled_books [OF assms(1,3,6)]
  note g = merge_groups_rows [OF assms(5)]
  have d: "distinct (map daily_key (rl_daily db))" using assms(2) by (simp add: tallies_ok_def)
  have c: "count_where p (counted db' recorded) = count_where p batch + count_where p (counted db recorded)" for p
    using count_where_union [OF counted_distinct [OF b(1)] b(2) counted_distinct [OF assms(1)] b(4,3)] .
  have u: "f \<in> {cd_clicks, cd_scans, cd_blocked} \<Longrightarrow> daily_sum f l d (rl_daily db') = daily_sum f l d daily" for f l d
    using g daily_sum_uniques by blast
  have "daily_sum cd_clicks l d daily = daily_sum cd_clicks l d (rl_daily db) + count_where (\<lambda>c. on_day l d c \<and> counts_as_click c) batch"
    "daily_sum cd_scans l d daily = daily_sum cd_scans l d (rl_daily db)
       + count_where (\<lambda>c. on_day l d c \<and> counts_as_click c \<and> ce_is_qr (kc_event c)) batch"
    "daily_sum cd_blocked l d daily = daily_sum cd_blocked l d (rl_daily db)
       + count_where (\<lambda>c. on_day l d c \<and> ce_blocked_reason (kc_event c) \<noteq> None) batch" for l d
    by (intro upsert_daily_sum [OF assms(4) d]; auto simp: add_daily_def daily_row_def split: prod.split)+
  moreover have "distinct (map daily_key (rl_daily db'))" using upsert_daily_rows(1) [OF assms(4) d] g by simp
  ultimately show ?thesis using assms(2) u c by (simp add: tallies_ok_def)
qed

lemma rolled_breakdown:
  assumes "books_ok db recorded" "breakdown_ok db recorded" "batch = claim_batch n locked (rl_events db)"
    "upsert_breakdowns batch dimensions (rl_breakdown db) = Inr (rl_breakdown db')"
    "rl_events db' = mark_rolled now batch (rl_events db)"
  shows "breakdown_ok db' recorded"
proof -
  note b = rolled_books [OF assms(1,3,5)]
  have d: "distinct (map breakdown_key (rl_breakdown db))" using assms(2) by (simp add: breakdown_ok_def)
  have c: "count_where p (counted db' recorded) = count_where p batch + count_where p (counted db recorded)" for p
    using count_where_union [OF counted_distinct [OF b(1)] b(2) counted_distinct [OF assms(1)] b(4,3)] .
  have n: "distinct (map fst dimensions)" by (simp add: dimensions_def)
  show ?thesis
    using assms(2) upsert_breakdowns_sum [OF assms(4) d n] c unfolding breakdown_ok_def by (auto split: option.splits)
qed

lemma fold_upsert_uniques:
  "\<forall>r \<in> set rows. good (daily_key r) (cd_uniques r) \<Longrightarrow>
   \<forall>ex \<in> set exs. daily_key ex \<in> daily_key ` set rows \<or> good (daily_key ex) (cd_uniques ex) \<Longrightarrow>
   r \<in> set (fold (upsert daily_key add_daily) exs rows) \<Longrightarrow> good (daily_key r) (cd_uniques r)"
proof (induction exs arbitrary: rows)
  case (Cons ex exs)
  let ?rows = "upsert daily_key add_daily ex rows"
  have keys: "daily_key ` set rows \<subseteq> daily_key ` set ?rows"
    using daily.upsert_keys [of ex rows] by (metis Un_upper1 order_refl set_append set_map)
  have "\<forall>x \<in> set ?rows. good (daily_key x) (cd_uniques x)"
  proof (cases "daily_key ex \<in> daily_key ` set rows")
    case True
    have j: "daily_key (add_daily ex x) = daily_key x" "cd_uniques (add_daily ex x) = cd_uniques x" for x
      by (simp_all add: add_daily_def daily_key_def)
    show ?thesis using Cons.prems(1) by (auto simp: daily.upsert_present [OF True] j)
  next
    case False
    then show ?thesis using Cons.prems(1,2) by (auto simp: daily.upsert_absent)
  qed
  moreover have "\<forall>ex \<in> set exs. daily_key ex \<in> daily_key ` set ?rows \<or> good (daily_key ex) (cd_uniques ex)"
    using Cons.prems(2) keys by auto
  ultimately show ?case using Cons.IH Cons.prems(3) by simp
qed simp

lemma rolled_uniques:
  assumes "log_fn 1 = 0" "books_ok db recorded" "uniques_ok log_fn db recorded" "batch = claim_batch n locked (rl_events db)"
    "upsert_daily batch (rl_daily db) = Inr daily" "group_visitors (filter counts_as_click batch) [] = Inr groups"
    "merge_groups log_fn groups (rl_sketches db, daily) = Inr (rl_sketches db', rl_daily db')"
    "rl_events db' = mark_rolled now batch (rl_events db)"
  shows "uniques_ok log_fn db' recorded"
proof -
  note b = rolled_books [OF assms(2,4,8)]
  have fit: "sketches_fit (rl_sketches db)" and sub: "fst ` set (rl_sketches db) \<subseteq> daily_key ` set (rl_daily db)"
    using assms(3) by (simp_all add: uniques_ok_def)
  have g: "distinct (map fst groups)" "fst ` set groups = click_key ` set (filter counts_as_click batch)"
    "sketch_at k groups = visitors_sketch (map visitor (filter (\<lambda>c. click_key c = k) (filter counts_as_click batch)))" for k
    using group_visitorsD [OF assms(6), of k] by (auto simp: sketches_fit_def visitors_sketch_def sketch_at_def)
  note m = merge_groups_sketches [OF assms(7) g(1) fit]
  have mine: "filter (\<lambda>c. click_key c = (l, d)) (filter counts_as_click batch) = filter (\<lambda>c. on_day l d c \<and> counts_as_click c) batch" for l d
    by (auto simp: on_day_def intro!: filter_cong)
  note g3 = g(3) [of "(l, d)" for l d, unfolded mine]
  have sk: "sketch_at (l, d) (rl_sketches db')
      = visitors_sketch (map visitor (filter (\<lambda>c. on_day l d c \<and> counts_as_click c) (counted db' recorded)))" for l d
  proof -
    let ?hs = "\<lambda>cs. map visitor (filter (\<lambda>c. on_day l d c \<and> counts_as_click c) cs)"
    have old: "sketch_at (l, d) (rl_sketches db) = visitors_sketch (?hs (counted db recorded))"
      using assms(3) by (simp add: uniques_ok_def)
    have all: "visitors_sketch (?hs (counted db' recorded)) = visitors_sketch (?hs batch @ ?hs (counted db recorded))"
      using b(4) by (intro visitors_sketch_set) auto
    show ?thesis
    proof (cases "(l, d) \<in> fst ` set groups")
      case True
      then show ?thesis using m [of "(l, d)"] by (simp add: old g3 merge_visitors all)
    next
      case False
      then have "filter (\<lambda>c. on_day l d c \<and> counts_as_click c) batch = []"
        unfolding g(2) by (auto simp: on_day_def filter_empty_conv)
      then show ?thesis using m [of "(l, d)"] old False by (simp add: all)
    qed
  qed
  have keys: "daily_key ` set (rl_daily db') = daily_key ` set (rl_daily db) \<union> click_key ` set batch"
    using upsert_daily_rows(2) [OF assms(5)] merge_groups_rows [OF assms(7)] by (metis list.set_map)
  have "estimate log_fn (sketch_at (daily_key r) (rl_sketches db)) = Inr (cd_uniques r)" if "r \<in> set daily" for r
  proof (rule fold_upsert_uniques [where good = "\<lambda>k u. estimate log_fn (sketch_at k (rl_sketches db)) = Inr u"])
    show "r \<in> set (fold (upsert daily_key add_daily) (map (daily_row batch) (remdups (map daily_group batch))) (rl_daily db))"
      using assms(5) that by (auto simp: upsert_daily_def Let_def split: if_splits)
    show "\<forall>r \<in> set (rl_daily db). estimate log_fn (sketch_at (daily_key r) (rl_sketches db)) = Inr (cd_uniques r)"
      using assms(3) by (simp add: uniques_ok_def)
    have u0: "cd_uniques (daily_row batch g) = 0" for g by (simp add: daily_row_def split: prod.split)
    have "sketch_at k (rl_sketches db) = create_sketch" if "k \<notin> daily_key ` set (rl_daily db)" for k
    proof -
      have "map_of (rl_sketches db) k = None" using sub that by (auto simp: map_of_eq_None_iff)
      then show ?thesis by (simp add: sketch_at_def)
    qed
    then have "k \<in> daily_key ` set (rl_daily db) \<or> estimate log_fn (sketch_at k (rl_sketches db)) = Inr 0" for k
      using estimate_empty [of log_fn] assms(1) by metis
    then show "\<forall>ex \<in> set (map (daily_row batch) (remdups (map daily_group batch))).
        daily_key ex \<in> daily_key ` set (rl_daily db) \<or> estimate log_fn (sketch_at (daily_key ex) (rl_sketches db)) = Inr (cd_uniques ex)"
      unfolding set_map using u0 by (metis (no_types, lifting) imageE)
  qed
  then show ?thesis
    using merge_groups_uniques [OF assms(7) g(1)] m sub keys sk g(2) unfolding uniques_ok_def by auto
qed

definition counters_ok :: "roll_db \<Rightarrow> bool" where
  "counters_ok db =
     (\<forall>r \<in> set (rl_daily db). \<exists>c. find (\<lambda>c. lc_link c = cd_link r) (rl_counters db) = Some c
        \<and> lc_clicks c = sum_list (map cd_clicks (filter (\<lambda>x. cd_link x = cd_link r) (rl_daily db)))
        \<and> lc_unique_clicks c = sum_list (map cd_uniques (filter (\<lambda>x. cd_link x = cd_link r) (rl_daily db))))"

lemma refresh_countersD:
  assumes "refresh_counters batch daily rows = Inr rows'" "r \<in> set daily"
  shows "cd_link r \<in> (\<lambda>c. ce_link_id (kc_event c)) ` set batch \<Longrightarrow>
      \<exists>c. find (\<lambda>c. lc_link c = cd_link r) rows' = Some c
        \<and> lc_clicks c = lc_clicks (link_totals daily (cd_link r)) \<and> lc_unique_clicks c = lc_unique_clicks (link_totals daily (cd_link r))"
    "cd_link r \<notin> (\<lambda>c. ce_link_id (kc_event c)) ` set batch \<Longrightarrow> find (\<lambda>c. lc_link c = cd_link r) rows' = find (\<lambda>c. lc_link c = cd_link r) rows"
proof -
  let ?links = "remdups (map cd_link (filter (\<lambda>r. cd_link r \<in> set (map (\<lambda>c. ce_link_id (kc_event c)) batch)) daily))"
  have r: "rows' = fold (upsert lc_link set_counters) (map (link_totals daily) ?links) rows"
    using assms(1) by (simp add: refresh_counters_def Let_def split: if_splits)
  have k: "lc_link (link_totals daily l) = l" for l by (simp add: link_totals_def Let_def)
  have d: "distinct (map lc_link (map (link_totals daily) ?links))" by (simp add: comp_def k)
  {
    assume "cd_link r \<in> (\<lambda>c. ce_link_id (kc_event c)) ` set batch"
    then have "link_totals daily (cd_link r) \<in> set (map (link_totals daily) ?links)" using assms(2) by auto
    from counters.fold_upsert_find [OF d this, of rows]
    show "\<exists>c. find (\<lambda>c. lc_link c = cd_link r) rows' = Some c
        \<and> lc_clicks c = lc_clicks (link_totals daily (cd_link r)) \<and> lc_unique_clicks c = lc_unique_clicks (link_totals daily (cd_link r))"
      unfolding r k by (auto simp: set_counters_def split: option.splits)
  }
  assume "cd_link r \<notin> (\<lambda>c. ce_link_id (kc_event c)) ` set batch"
  then have "cd_link r \<notin> lc_link ` set (map (link_totals daily) ?links)" by (auto simp: k)
  then show "find (\<lambda>c. lc_link c = cd_link r) rows' = find (\<lambda>c. lc_link c = cd_link r) rows"
    unfolding r by (rule counters.fold_upsert_find_other)
qed

lemma rolled_counters:
  assumes "counters_ok db" "upsert_daily batch (rl_daily db) = Inr daily" "group_visitors (filter counts_as_click batch) [] = Inr groups"
    "merge_groups log_fn groups (rl_sketches db, daily) = Inr (sketches, rl_daily db')"
    "refresh_counters batch (rl_daily db') (rl_counters db) = Inr (rl_counters db')"
  shows "counters_ok db'"
  unfolding counters_ok_def
proof
  fix r assume r: "r \<in> set (rl_daily db')"
  show "\<exists>c. find (\<lambda>c. lc_link c = cd_link r) (rl_counters db') = Some c
        \<and> lc_clicks c = sum_list (map cd_clicks (filter (\<lambda>x. cd_link x = cd_link r) (rl_daily db')))
        \<and> lc_unique_clicks c = sum_list (map cd_uniques (filter (\<lambda>x. cd_link x = cd_link r) (rl_daily db')))"
  proof (cases "cd_link r \<in> (\<lambda>c. ce_link_id (kc_event c)) ` set batch")
    case True
    then show ?thesis using refresh_countersD(1) [OF assms(5) r] by (simp add: link_totals_def Let_def)
  next
    case False
    have "fst ` fst ` set groups \<subseteq> (\<lambda>c. ce_link_id (kc_event c)) ` set batch"
      using group_visitorsD [OF assms(3)] by (auto simp: sketches_fit_def)
    then have "filter (\<lambda>x. cd_link x = cd_link r) (rl_daily db') = filter (\<lambda>x. cd_link x = cd_link r) daily"
      using merge_groups_rows [OF assms(4)] False by blast
    also have "\<dots> = filter (\<lambda>x. cd_link x = cd_link r) (rl_daily db)"
      using False by (intro upsert_daily_rows(3) [OF assms(2)]) (metis image_eqI)
    finally have s: "filter (\<lambda>x. cd_link x = cd_link r) (rl_daily db') = filter (\<lambda>x. cd_link x = cd_link r) (rl_daily db)" .
    moreover have "r \<in> set (filter (\<lambda>x. cd_link x = cd_link r) (rl_daily db'))" using r by simp
    ultimately have "r \<in> set (rl_daily db)" by simp
    then show ?thesis using assms(1) refresh_countersD(2) [OF assms(5) r False] by (simp add: counters_ok_def s)
  qed
qed

interpretation reservations: keyed_table lc_link "\<lambda>_ r. r\<lparr>lc_reserved := lc_reserved r + 1\<rparr>"
  by unfold_locales simp

lemma reserve_counters: "counters_ok db \<Longrightarrow> counters_ok (reserve_click l db)"
  by (fastforce simp: counters_ok_def reserve_click_def reservations.upsert_find split: option.splits)

lemma other_counters:
  assumes "counters_ok db" "table_step (db, recorded) (db', recorded')"
  shows "counters_ok db'"
  using assms(2) by cases (use assms(1) reserve_counters in \<open>auto simp: counters_ok_def\<close>)

definition rollups_ok :: "(rat \<Rightarrow> rat) \<Rightarrow> roll_db \<times> stored_click list \<Rightarrow> bool" where
  "rollups_ok log_fn st =
     (case st of (db, recorded) \<Rightarrow> books_ok db recorded \<and> tallies_ok db recorded \<and> breakdown_ok db recorded
        \<and> uniques_ok log_fn db recorded \<and> counters_ok db)"

lemma table_step_ok:
  assumes "table_step (db, recorded) (db', recorded')" "rollups_ok log_fn (db, recorded)"
  shows "rollups_ok log_fn (db', recorded')"
proof -
  have ok: "books_ok db recorded" "counters_ok db" using assms(2) by (simp_all add: rollups_ok_def)
  note o = other_books [OF ok(1) assms(1)]
  have c: "count_where p (counted db' recorded') = count_where p (counted db recorded)" for p
    using o ok(1) by (intro count_where_same counted_distinct) auto
  have v: "visitors_sketch (map visitor (filter p (counted db' recorded')))
      = visitors_sketch (map visitor (filter p (counted db recorded)))" for p
    using o by (intro visitors_sketch_set) auto
  show ?thesis
    using o assms(2) other_counters [OF ok(2) assms(1)]
    by (simp add: rollups_ok_def tallies_ok_def breakdown_ok_def uniques_ok_def c v)
qed

lemma roll_ok:
  assumes "log_fn 1 = 0" "rollup_clicks log_fn now n locked db = (answer, db')" "rollups_ok log_fn (db, recorded)"
  shows "rollups_ok log_fn (db', recorded)"
  using assms(2)
proof (cases rule: rollup_cases)
  case Same
  then show ?thesis using assms(3) by simp
next
  case (Rolled batch daily groups sketches daily' breakdown counters)
  have db': "rl_events db' = mark_rolled now batch (rl_events db)" "rl_daily db' = daily'" "rl_sketches db' = sketches"
    "rl_breakdown db' = breakdown" "rl_counters db' = counters" using Rolled(7) by simp_all
  note parts = Rolled(1-6) [folded db'(2-5)]
  have ok: "books_ok db recorded" "tallies_ok db recorded" "breakdown_ok db recorded" "uniques_ok log_fn db recorded" "counters_ok db"
    using assms(3) by (simp_all add: rollups_ok_def)
  show ?thesis
    using rolled_books(1) [OF ok(1) parts(1) db'(1)] rolled_tallies [OF ok(1,2) parts(1,2,4) db'(1)]
      rolled_breakdown [OF ok(1,3) parts(1,5) db'(1)] rolled_uniques [OF assms(1) ok(1,4) parts(1-4) db'(1)]
      rolled_counters [OF ok(5) parts(2-4,6)]
    by (simp add: rollups_ok_def)
qed

lemma rollup_step_ok:
  "log_fn 1 = 0 \<Longrightarrow> rollup_step log_fn st st' \<Longrightarrow> rollups_ok log_fn st \<Longrightarrow> rollups_ok log_fn st'"
  by (erule rollup_step.cases) (auto intro: table_step_ok roll_ok)

lemma empty_rollups_ok: "rollups_ok log_fn (empty_rollups, [])"
  by (simp add: rollups_ok_def empty_rollups_def books_ok_def tallies_ok_def breakdown_ok_def uniques_ok_def
      counters_ok_def counted_def pending_def daily_sum_def breakdown_sum_def sketches_fit_def sketch_at_def visitors_sketch_def)

lemma rollup_reach_ok:
  "(rollup_step log_fn)\<^sup>*\<^sup>* (empty_rollups, []) st \<Longrightarrow> log_fn 1 = 0 \<Longrightarrow> rollups_ok log_fn st"
  by (induction rule: rtranclp_induct) (auto intro: empty_rollups_ok rollup_step_ok)

section \<open>What the dashboards show\<close>

text \<open>
  C4. No click is lost and none is counted twice: through clicks, passes of any size over any unlocked
  rows, failed passes, expiry and reservations in any order, what \<open>click_daily\<close> holds for a link and day and
  what is still waiting add up to what was recorded, for clicks, scans and refused clicks alike.
\<close>

theorem clicks_counted_once:
  assumes "log_fn 1 = 0" "(rollup_step log_fn)\<^sup>*\<^sup>* (empty_rollups, []) (db, recorded)"
  shows "daily_sum cd_clicks l d (rl_daily db) + count_where (\<lambda>c. on_day l d c \<and> counts_as_click c) (pending (rl_events db))
      = count_where (\<lambda>c. on_day l d c \<and> counts_as_click c) recorded
    \<and> daily_sum cd_scans l d (rl_daily db)
        + count_where (\<lambda>c. on_day l d c \<and> counts_as_click c \<and> ce_is_qr (kc_event c)) (pending (rl_events db))
      = count_where (\<lambda>c. on_day l d c \<and> counts_as_click c \<and> ce_is_qr (kc_event c)) recorded
    \<and> daily_sum cd_blocked l d (rl_daily db)
        + count_where (\<lambda>c. on_day l d c \<and> ce_blocked_reason (kc_event c) \<noteq> None) (pending (rl_events db))
      = count_where (\<lambda>c. on_day l d c \<and> ce_blocked_reason (kc_event c) \<noteq> None) recorded"
proof -
  have ok: "books_ok db recorded" "tallies_ok db recorded"
    using rollup_reach_ok [of log_fn, OF assms(2,1)] by (simp_all add: rollups_ok_def)
  have d: "distinct recorded" "distinct (pending (rl_events db))"
    using ok(1) by (auto simp: books_ok_def pending_def distinct_map)
  have s: "set recorded = set (counted db recorded) \<union> set (pending (rl_events db))"
    "set (counted db recorded) \<inter> set (pending (rl_events db)) = {}"
    using ok(1) by (auto simp: books_ok_def counted_def)
  have "count_where p recorded = count_where p (counted db recorded) + count_where p (pending (rl_events db))" for p
    by (rule count_where_union [OF d(1) counted_distinct [OF ok(1)] d(2) s])
  then show ?thesis using ok(2) by (simp add: tallies_ok_def)
qed


text \<open>A refused click and a visit, of which the first pass takes the older.\<close>

definition example_click :: "string \<Rightarrow> int \<Rightarrow> effective_gate_kind option \<Rightarrow> stored_click" where
  "example_click i t blocked =
     \<lparr> kc_id = i, kc_event = \<lparr> ce_link_id = ''l'', ce_workspace_id = ''w'', ce_occurred_at = t,
         ce_visitor_hash = replicate 32 (CHR ''a''), ce_country = Some ''IN'', ce_city = None, ce_device = Ios,
         ce_browser = ''Safari'', ce_os = ''iOS'', ce_referrer_host = None, ce_is_qr = False, ce_is_bot = False,
         ce_blocked_reason = blocked, ce_matched_rule_id = None, ce_variant = None \<rparr>, kc_rolled = None \<rparr>"

definition refused_click :: stored_click where
  "refused_click = example_click ''c1'' 5 (Some Disabled)"

definition example_db :: roll_db where
  "example_db = snd (rollup_clicks (\<lambda>_. 0) 9 1 (\<lambda>_. False)
     (empty_rollups\<lparr>rl_events := [refused_click, example_click ''c2'' 7 None]\<rparr>))"

lemma example_db_eq:
  "rl_daily example_db = [\<lparr> cd_link = ''l'', cd_workspace = ''w'', cd_day = 0, cd_clicks = 0, cd_uniques = 0, cd_scans = 0, cd_blocked = 1 \<rparr>]"
  "pending (rl_events example_db) = [example_click ''c2'' 7 None]"
  by (simp_all add: example_db_def rollup_clicks_def claim_batch_def empty_rollups_def refused_click_def example_click_def
      upsert_daily_def Let_def daily_group_def daily_row_def count_where_def counts_as_click_def click_day_def utc_day_def
      upsert_def int4_def dimensions_def upsert_breakdown_def refresh_counters_def link_totals_def mark_rolled_def pending_def)

lemma example_reach:
  "(rollup_step (\<lambda>_. 0))\<^sup>*\<^sup>* (empty_rollups, []) (example_db, [refused_click, example_click ''c2'' 7 None])"
proof -
  let ?c = "example_click ''c2'' 7 None" and ?s = "rollup_step (\<lambda>_. 0)"
  let ?db1 = "empty_rollups\<lparr>rl_events := [refused_click]\<rparr>" and ?db2 = "empty_rollups\<lparr>rl_events := [refused_click, ?c]\<rparr>"
  have 1: "?s (empty_rollups, []) (?db1, [refused_click])"
    using Record [of refused_click "[]" empty_rollups]
    by (intro Other) (simp add: refused_click_def example_click_def empty_rollups_def)
  have 2: "?s (?db1, [refused_click]) (?db2, [refused_click, ?c])"
    using Record [of ?c "[refused_click]" ?db1]
    by (intro Other) (simp add: refused_click_def example_click_def empty_rollups_def)
  have 3: "?s (?db2, [refused_click, ?c]) (example_db, [refused_click, ?c])"
    unfolding example_db_def by (rule Roll [OF surjective_pairing])
  from 3 have "?s\<^sup>*\<^sup>* (?db2, [refused_click, ?c]) (example_db, [refused_click, ?c])" by (rule r_into_rtranclp)
  with 2 have "?s\<^sup>*\<^sup>* (?db1, [refused_click]) (example_db, [refused_click, ?c])" by (rule converse_rtranclp_into_rtranclp)
  with 1 show ?thesis by (rule converse_rtranclp_into_rtranclp)
qed

theorem clicks_counted_once_witness:
  "daily_sum cd_clicks ''l'' 0 (rl_daily example_db) = 0 \<and> daily_sum cd_blocked ''l'' 0 (rl_daily example_db) = 1
   \<and> count_where (\<lambda>c. on_day ''l'' 0 c \<and> counts_as_click c) [refused_click, example_click ''c2'' 7 None] = 1"
  using clicks_counted_once [OF _ example_reach, of "''l''" 0]
  by (simp add: example_db_eq refused_click_def example_click_def on_day_def click_day_def utc_day_def counts_as_click_def)


text \<open>A pass that answers takes as many waiting clicks as it may, and leaves the rest waiting.\<close>

lemma pass_takes_waiting:
  assumes "distinct (map kc_id (rl_events db))" "rollup_clicks log_fn now n (\<lambda>_. False) db = (Inr (events, days), db')"
  shows "events = min n (length (pending (rl_events db))) \<and> length (pending (rl_events db')) = length (pending (rl_events db)) - events"
proof -
  let ?b = "claim_batch n (\<lambda>_. False) (rl_events db)"
  let ?taken = "take n (sort_key (\<lambda>c. ce_occurred_at (kc_event c)) (pending (rl_events db)))"
  have p: "distinct (pending (rl_events db))" using assms(1) by (auto simp: pending_def distinct_map)
  then have t: "distinct ?taken" by simp
  have c: "set ?b \<subseteq> set (pending (rl_events db))" "distinct (map kc_id ?b)"
    using claim_batch_pending [OF assms(1)] by blast+
  have sub: "set ?taken \<subseteq> set (rl_events db)" by (auto simp: pending_def dest: in_set_takeD)
  have inj: "x = y" if "x \<in> set (rl_events db)" "y \<in> set (rl_events db)" "kc_id x = kc_id y" for x y
    using assms(1) that by (auto simp: distinct_map inj_on_def)
  have b: "?b = filter (\<lambda>c. kc_id c \<in> kc_id ` set ?taken) (rl_events db)"
    by (simp add: claim_batch_def pending_def)
  have "set ?b = set ?taken" unfolding b using inj sub by auto
  then have "length ?b = length ?taken" using t c(2) by (metis distinct_card distinct_map)
  then have len: "length ?b = min n (length (pending (rl_events db)))" by simp
  from assms(2) show ?thesis
  proof (cases rule: rollup_cases)
    case Same
    then show ?thesis using assms(2) len by (simp add: rollup_clicks_def)
  next
    case Rolled
    then have ev: "events = length ?b" "rl_events db' = mark_rolled now ?b (rl_events db)" by simp_all
    note m = mark_rolled_pending [OF assms(1) refl, of now n "\<lambda>_. False", folded ev(2)]
    have "distinct (map kc_id (rl_events db'))" using m(1) assms(1) by simp
    then have "distinct (pending (rl_events db'))" by (simp add: pending_def distinct_map)
    then have "length (pending (rl_events db')) = card (set (pending (rl_events db)) - set ?b)"
      using m(2) by (metis distinct_card)
    also have "\<dots> = length (pending (rl_events db)) - length ?b"
      using c p by (simp add: card_Diff_subset distinct_card distinct_map)
    finally show ?thesis using len ev(1) by simp
  qed
qed

text \<open>
  One link at the bound of an \<open>integer\<close> column stops the rollup of every link: its counter is the sum of
  its days, the sum no longer fits, and the transaction that holds everyone's clicks is rolled back on
  every pass.
\<close>

lemma full_counter_stops_rollup:
  assumes "distinct (map daily_key (rl_daily db))"
    "sum_list (map cd_clicks (filter (\<lambda>r. cd_link r = ce_link_id (kc_event c)) (rl_daily db))) = 2147483647"
    "c \<in> set (claim_batch n locked (rl_events db))" "counts_as_click c"
  shows "\<exists>e. rollup_clicks log_fn now n locked db = (Inl e, db)"
proof -
  let ?l = "ce_link_id (kc_event c)" and ?b = "claim_batch n locked (rl_events db)"
  have sums: "sum_list (map cd_clicks (filter (\<lambda>r. cd_link r = ?l) rows)) = sum_list (map (\<lambda>r. if fst (daily_key r) = ?l then cd_clicks r else 0) rows)" for rows
    by (induction rows) (auto simp: daily_key_def)
  have neq: "?b \<noteq> []" using assms(3) by auto
  obtain answer db' where run: "rollup_clicks log_fn now n locked db = (answer, db')" by (cases "rollup_clicks log_fn now n locked db")
  from run show ?thesis
  proof (cases rule: rollup_cases)
    case Same
    then show ?thesis using neq run by (cases answer) auto
  next
    case (Rolled batch daily groups sketches daily' breakdown counters)
    note parts = Rolled(2,4,6) [unfolded Rolled(1)]
    note g = merge_groups_rows [OF parts(2)]
    have "sum_list (map (\<lambda>r. if fst (daily_key r) = ?l then cd_clicks r else 0) daily)
        = 2147483647 + count_where (\<lambda>c. fst (ce_link_id (kc_event c), click_day c) = ?l \<and> counts_as_click c) ?b"
      using upsert_daily_total [OF parts(1) assms(1), of cd_clicks counts_as_click "\<lambda>k. fst k = ?l"] assms(2)
      by (simp add: sums add_daily_def daily_row_def split: prod.splits)
    moreover have "0 < count_where (\<lambda>c. fst (ce_link_id (kc_event c), click_day c) = ?l \<and> counts_as_click c) ?b"
      using assms(3,4) by (auto simp: count_where_def filter_empty_conv)
    moreover have w: "sum_list (map (\<lambda>r. if fst (daily_key r) = ?l then cd_clicks r else 0) (map (\<lambda>r. r\<lparr>cd_uniques := 0\<rparr>) rows))
        = sum_list (map (\<lambda>r. if fst (daily_key r) = ?l then cd_clicks r else 0) rows)" for rows
      by (induction rows) (auto simp: daily_key_def)
    ultimately have big: "2147483647 < lc_clicks (link_totals daily' ?l)"
      using w [of daily] w [of daily'] g by (simp add: link_totals_def Let_def sums)
    have "daily_key ` set daily' = daily_key ` set daily" using g by (metis list.set_map)
    moreover have "(?l, click_day c) \<in> (\<lambda>c. (ce_link_id (kc_event c), click_day c)) ` set ?b" using assms(3) by (rule imageI)
    ultimately have "(?l, click_day c) \<in> daily_key ` set daily'" unfolding upsert_daily_rows(2) [OF parts(1)] by (simp only: Un_iff simp_thms)
    then obtain r where "r \<in> set daily'" "cd_link r = ?l" by (auto simp: daily_key_def)
    moreover have "?l \<in> set (map (\<lambda>c. ce_link_id (kc_event c)) ?b)" using assms(3) by simp
    ultimately have "?l \<in> set (map cd_link (filter (\<lambda>r. cd_link r \<in> set (map (\<lambda>c. ce_link_id (kc_event c)) ?b)) daily'))"
      by (force simp del: set_map simp: set_map [of cd_link])
    then have "link_totals daily' ?l \<in> set (map (link_totals daily') (remdups (map cd_link
        (filter (\<lambda>r. cd_link r \<in> set (map (\<lambda>c. ce_link_id (kc_event c)) ?b)) daily'))))"
      unfolding set_map set_remdups by (rule imageI)
    then have "refresh_counters ?b daily' (rl_counters db) = Inl OutOfRange"
      using big unfolding refresh_counters_def Let_def int4_def list_all_iff by (meson leD)
    then show ?thesis using parts(3) by simp
  qed
qed

text \<open>
  Two passes at once, each with a day of the same link: neither waits for the other in \<open>click_daily\<close>, each
  sums the days it can see, and the one that writes the counter last leaves out the other's day. The row is right
  again only when the link is next clicked.
\<close>

lemma overlapping_passes_undercount:
  defines "b1 \<equiv> [example_click ''c1'' 5 None]" and "b2 \<equiv> [example_click ''c2'' 86400005 None]"
  shows "\<exists>d1 d2 both c1 c2. upsert_daily b1 [] = Inr d1 \<and> upsert_daily b2 [] = Inr d2 \<and> upsert_daily b2 d1 = Inr both
    \<and> refresh_counters b1 d1 [] = Inr c1 \<and> refresh_counters b2 d2 c1 = Inr c2
    \<and> map lc_clicks c2 = [1] \<and> sum_list (map cd_clicks both) = 2"
  by (simp add: b1_def b2_def example_click_def upsert_daily_def Let_def daily_group_def daily_row_def count_where_def
      counts_as_click_def click_day_def utc_day_def upsert_def daily_key_def add_daily_def int4_def refresh_counters_def
      link_totals_def set_counters_def)

end
