(* ===== verification/Retention.thy ===== *)
theory Retention
  imports Rollups Lease "HOL-Library.Multiset"
begin

text \<open>
  Retention of raw clicks (\<open>apps/worker/src/jobs/rollup.ts\<close>, from \<open>ensureClickPartitions\<close> on) and the
  functions of the database it drives (the migrations under \<open>packages/database/drizzle\<close>): provisioning of the
  daily partitions, the backfill loop, the pass that drops spent partitions and enforces the cap, and the salts.
  A partition is named by its day. Which lock attempts lose to write traffic is an argument, indexed by the
  attempts of a pass; the session time zone of the database is UTC where \<open>timestamptz\<close> arithmetic is done.
\<close>

section \<open>The partitioned table\<close>

record click_table =
  ct_default :: "stored_click list"
  ct_parts :: "(int \<times> stored_click list) list"

definition all_rows :: "click_table \<Rightarrow> stored_click list" where
  "all_rows t = ct_default t @ concat (map snd (ct_parts t))"

definition attached :: "click_table \<Rightarrow> int \<Rightarrow> bool" where
  "attached t day = list_ex (\<lambda>p. fst p = day) (ct_parts t)"

text \<open>An insert goes to the partition of its day, or to the default.\<close>

definition route_click :: "stored_click \<Rightarrow> click_table \<Rightarrow> click_table" where
  "route_click c t =
     (if attached t (click_day c)
      then t\<lparr>ct_parts := map (\<lambda>(d, rows). if d = click_day c then (d, rows @ [c]) else (d, rows)) (ct_parts t)\<rparr>
      else t\<lparr>ct_default := ct_default t @ [c]\<rparr>)"

text \<open>\<open>click_events_ensure_partition\<close>: \<open>None\<close> when it declined.\<close>

definition ensure_partition :: "bool \<Rightarrow> int \<Rightarrow> click_table \<Rightarrow> int option \<times> click_table" where
  "ensure_partition lost day t =
     (if attached t day then (Some day, t)
      else if lost then (None, t)
      else (Some day,
            \<lparr> ct_default = filter (\<lambda>c. click_day c \<noteq> day) (ct_default t),
              ct_parts = ct_parts t @ [(day, filter (\<lambda>c. click_day c = day) (ct_default t))] \<rparr>))"

text \<open>\<open>ensureClickPartitions\<close>; the days that lose their lock are those of \<open>lost\<close>.\<close>

fun ensure_days :: "(int \<Rightarrow> bool) \<Rightarrow> int list \<Rightarrow> nat \<times> nat \<Rightarrow> click_table \<Rightarrow> (nat \<times> nat) \<times> click_table" where
  "ensure_days lost [] counts t = (counts, t)"
| "ensure_days lost (d # ds) (ready, declined) t =
     (case ensure_partition (lost d) d t of
        (None, t') \<Rightarrow> ensure_days lost ds (ready, declined + 1) t'
      | (Some _, t') \<Rightarrow> ensure_days lost ds (ready + 1, declined) t')"

definition ensure_click_partitions :: "int \<Rightarrow> (int \<Rightarrow> bool) \<Rightarrow> int \<Rightarrow> int \<Rightarrow> click_table \<Rightarrow> (nat \<times> nat) \<times> click_table" where
  "ensure_click_partitions now lost days_ahead days_back t =
     ensure_days lost [utc_day now - days_back .. utc_day now + days_ahead] (0, 0) t"

section \<open>The backfill\<close>

definition stranded_days :: "click_table \<Rightarrow> int list" where
  "stranded_days t = sort (filter (\<lambda>d. \<not> attached t d) (remdups (map click_day (ct_default t))))"

fun backfill_chunk :: "(int \<Rightarrow> bool) \<Rightarrow> int list \<Rightarrow> nat \<Rightarrow> click_table \<Rightarrow> nat \<times> click_table" where
  "backfill_chunk lost [] got t = (got, t)"
| "backfill_chunk lost (d # ds) got t =
     (case ensure_partition (lost d) d t of
        (None, t') \<Rightarrow> backfill_chunk lost ds got t'
      | (Some _, t') \<Rightarrow> backfill_chunk lost ds (got + 1) t')"

text \<open>\<open>click_events_backfill_days\<close>: the days provisioned, the days that remain, the table.\<close>

definition backfill_days :: "(int \<Rightarrow> bool) \<Rightarrow> int \<Rightarrow> click_table \<Rightarrow> nat \<times> nat \<times> click_table" where
  "backfill_days lost chunk_size t =
     (let size = (if chunk_size < 1 then 200 else nat chunk_size);
          (got, t') = backfill_chunk lost (take size (stranded_days t)) 0 t
      in (got, length (stranded_days t'), t'))"

text \<open>
  The loop of \<open>backfillClickPartitions\<close>. Before the \<open>i\<close>th chunk the clicks \<open>arrive i\<close> are inserted by other
  requests; \<open>lost i\<close> are the days whose lock the chunk loses. \<open>None\<close> would be a loop that does not end.
\<close>

partial_function (option) backfill_loop ::
    "(nat \<Rightarrow> int \<Rightarrow> bool) \<Rightarrow> (nat \<Rightarrow> stored_click list) \<Rightarrow> int \<Rightarrow> nat \<Rightarrow> nat \<Rightarrow> click_table \<Rightarrow> ((nat \<times> nat) \<times> click_table) option" where
  "backfill_loop lost arrive chunk_size provisioned chunks t =
     (let (got, remaining, t') = backfill_days (lost chunks) chunk_size (fold route_click (arrive chunks) t) in
      if remaining = 0 \<or> got = 0 then Some ((provisioned + got, chunks + 1), t')
      else backfill_loop lost arrive chunk_size (provisioned + got) (chunks + 1) t')"

definition backfill_click_partitions :: "(nat \<Rightarrow> int \<Rightarrow> bool) \<Rightarrow> (nat \<Rightarrow> stored_click list) \<Rightarrow> int \<Rightarrow> click_table
    \<Rightarrow> ((nat \<times> nat) \<times> click_table) option" where
  "backfill_click_partitions lost arrive chunk_size t = backfill_loop lost arrive chunk_size 0 0 t"

section \<open>Dropping partitions\<close>

datatype drop_outcome = Dropped | Pinned | Contended | Missing

definition drop_partition :: "bool \<Rightarrow> int \<Rightarrow> click_table \<Rightarrow> drop_outcome \<times> click_table" where
  "drop_partition lost day t =
     (if lost then (Contended, t)
      else case map_of (ct_parts t) day of
             None \<Rightarrow> (Missing, t)
           | Some rows \<Rightarrow>
               if list_ex (\<lambda>c. kc_rolled c = None) rows then (Pinned, t)
               else (Dropped, t\<lparr>ct_parts := filter (\<lambda>p. fst p \<noteq> day) (ct_parts t)\<rparr>))"

definition spent_partitions :: "int \<Rightarrow> click_table \<Rightarrow> int list" where
  "spent_partitions cutoff t =
     sort (map fst (filter (\<lambda>(d, rows). \<not> cutoff < d + 1 \<and> \<not> list_ex (\<lambda>c. kc_rolled c = None) rows) (ct_parts t)))"

type_synonym drop_log = "(int \<times> drop_outcome) list"

definition outcomes :: "drop_outcome \<Rightarrow> drop_log \<Rightarrow> nat" where
  "outcomes what tried = length (filter (\<lambda>a. snd a = what) tried)"

definition attempt_drop :: "(nat \<Rightarrow> bool) \<Rightarrow> int \<Rightarrow> drop_log \<times> click_table \<Rightarrow> drop_log \<times> click_table" where
  "attempt_drop lost day st =
     (case st of (tried, t) \<Rightarrow>
        (case drop_partition (lost (length tried)) day t of (what, t') \<Rightarrow> (tried @ [(day, what)], t')))"

fun drop_each :: "(nat \<Rightarrow> bool) \<Rightarrow> int list \<Rightarrow> drop_log \<times> click_table \<Rightarrow> drop_log \<times> click_table" where
  "drop_each lost [] st = st"
| "drop_each lost (d # ds) st = drop_each lost ds (attempt_drop lost d st)"

section \<open>The cap\<close>

text \<open>
  \<open>MAX_RETAINED_DAYS\<close> is \<open>Number\<close> of the environment's text, unchecked; \<open>overCap\<close> starts at the number of
  attached days less that number and is one less after each drop.
\<close>

datatype day_cap = Days rat | AnyNumber | NotANumber

definition max_retained_days :: "string option \<Rightarrow> day_cap" where
  "max_retained_days raw =
     (case raw of
        None \<Rightarrow> Days 1100
      | Some text \<Rightarrow>
          (case js_number text of
             Some q \<Rightarrow> Days q
           | None \<Rightarrow> if js_trim text = ''Infinity'' \<or> js_trim text = ''+Infinity'' then AnyNumber else NotANumber))"

definition resolve_retention_years :: "string option \<Rightarrow> int" where
  "resolve_retention_years raw =
     (case raw of
        None \<Rightarrow> 3
      | Some text \<Rightarrow>
          (case js_number text of
             Some q \<Rightarrow> if q = of_int \<lfloor>q\<rfloor> \<and> 1 \<le> q then \<lfloor>q\<rfloor> else 3
           | None \<Rightarrow> 3))"

definition under_cap :: "day_cap \<Rightarrow> nat \<Rightarrow> nat \<Rightarrow> bool" where
  "under_cap cap n dropped =
     (case cap of Days q \<Rightarrow> of_nat n - q - of_nat dropped \<le> 0 | AnyNumber \<Rightarrow> True | NotANumber \<Rightarrow> False)"

text \<open>The loop over the attached days; \<open>k\<close> counts its own drops.\<close>

fun cap_loop :: "(nat \<Rightarrow> bool) \<Rightarrow> nat \<Rightarrow> day_cap \<Rightarrow> nat \<Rightarrow> nat \<Rightarrow> int list \<Rightarrow> drop_log \<times> click_table \<Rightarrow> drop_log \<times> click_table" where
  "cap_loop lost max_drops cap n k [] st = st"
| "cap_loop lost max_drops cap n k (d # ds) st =
     (if under_cap cap n k \<or> max_drops \<le> outcomes Dropped (fst st) then st
      else let st' = attempt_drop lost d st in
           cap_loop lost max_drops cap n (if snd (last (fst st')) = Dropped then k + 1 else k) ds st')"

section \<open>The pass\<close>

definition minus_years :: "int \<Rightarrow> int \<Rightarrow> int" where
  "minus_years t n =
     (let (y, m, d) = civil_of_days (t div day_ms)
      in days_of_civil (y - n) m (min d (days_in_month (y - n) m)) * day_ms + t mod day_ms)"

record workspace_window =
  ww_id :: string
  ww_years :: int

text \<open>Whether the \<open>DELETE\<close> takes a row, by its partition.\<close>

definition expired_row :: "int \<Rightarrow> int \<Rightarrow> workspace_window list \<Rightarrow> bool \<Rightarrow> stored_click \<Rightarrow> bool" where
  "expired_row now years spaces in_default c =
     list_ex (\<lambda>w. ww_id w = ce_workspace_id (kc_event c) \<and> kc_rolled c \<noteq> None \<and> (ww_years w < years \<or> in_default)
       \<and> ce_occurred_at (kc_event c) < minus_years now (min (ww_years w) years)) spaces"

definition delete_expired :: "int \<Rightarrow> int \<Rightarrow> workspace_window list \<Rightarrow> click_table \<Rightarrow> click_table" where
  "delete_expired now years spaces t =
     \<lparr> ct_default = filter (\<lambda>c. \<not> expired_row now years spaces True c) (ct_default t),
       ct_parts = map (\<lambda>(d, rows). (d, filter (\<lambda>c. \<not> expired_row now years spaces False c) rows)) (ct_parts t) \<rparr>"

record retention_result =
  rr_dropped :: nat
  rr_deleted :: nat
  rr_pinned :: nat
  rr_contended :: nat
  rr_missing :: nat

definition prune_drops :: "(nat \<Rightarrow> bool) \<Rightarrow> int \<Rightarrow> nat \<Rightarrow> day_cap \<Rightarrow> int \<Rightarrow> click_table \<Rightarrow> drop_log \<times> click_table" where
  "prune_drops lost now max_drops cap years t =
     (let cutoff = utc_day (minus_years (utc_day now * day_ms) years);
          (tried, t1) = drop_each lost (take max_drops (spent_partitions cutoff t)) ([], t)
      in if outcomes Dropped tried < max_drops
         then let days = sort (map fst (ct_parts t1)) in cap_loop lost max_drops cap (length days) 0 days (tried, t1)
         else (tried, t1))"

definition prune_pass :: "(nat \<Rightarrow> bool) \<Rightarrow> int \<Rightarrow> nat \<Rightarrow> day_cap \<Rightarrow> int \<Rightarrow> workspace_window list \<Rightarrow> click_table
    \<Rightarrow> retention_result \<times> click_table" where
  "prune_pass lost now max_drops cap years spaces t =
     (let (tried, t1) = prune_drops lost now max_drops cap years t;
          t2 = delete_expired now years spaces t1
      in (\<lparr> rr_dropped = outcomes Dropped tried, rr_deleted = length (all_rows t1) - length (all_rows t2),
            rr_pinned = outcomes Pinned tried, rr_contended = outcomes Contended tried, rr_missing = outcomes Missing tried \<rparr>, t2))"

text \<open>\<open>pruneRetention\<close>: the pass under its lease; a pass without the lease reports zeroes.\<close>

definition prune_retention :: "int \<Rightarrow> bool \<Rightarrow> string \<Rightarrow> (nat \<Rightarrow> bool) \<Rightarrow> int \<Rightarrow> nat \<Rightarrow> day_cap \<Rightarrow> int \<Rightarrow> workspace_window list
    \<Rightarrow> lease_row list \<times> click_table \<Rightarrow> retention_result \<times> lease_row list \<times> click_table" where
  "prune_retention done_at released holder lost now max_drops cap years spaces db =
     (case with_lease now done_at released holder ''click_events_prune_retention'' 300
             (\<lambda>t. case prune_pass lost now max_drops cap years spaces t of (r, t') \<Rightarrow> (Inr r :: unit + retention_result, t')) db of
        (Inr answer, db') \<Rightarrow> (or_else (lr_value answer) \<lparr> rr_dropped = 0, rr_deleted = 0, rr_pinned = 0, rr_contended = 0, rr_missing = 0 \<rparr>, db')
      | (Inl _, db') \<Rightarrow> (\<lparr> rr_dropped = 0, rr_deleted = 0, rr_pinned = 0, rr_contended = 0, rr_missing = 0 \<rparr>, db'))"

text \<open>\<open>rotateSalts\<close>: \<open>current_date\<close> is the day of the session's time zone, \<open>offset\<close> ahead of UTC.\<close>

definition rotate_salts :: "int \<Rightarrow> int \<Rightarrow> (int \<times> string) list \<Rightarrow> nat \<times> (int \<times> string) list" where
  "rotate_salts now offset salts =
     (let keep = filter (\<lambda>(day, salt). \<not> day < utc_day (now + offset) - 1) salts in (length salts - length keep, keep))"

section \<open>Provisioning moves rows and loses none\<close>

definition days_distinct :: "click_table \<Rightarrow> bool" where
  "days_distinct t = distinct (map fst (ct_parts t))"

lemma attached_iff: "attached t d \<longleftrightarrow> d \<in> fst ` set (ct_parts t)"
  by (auto simp: attached_def list_ex_iff)

lemma ensure_partitionD:
  assumes "ensure_partition lost d t = (r, t')"
  shows "attached t' d' \<longleftrightarrow> attached t d' \<or> d' = d \<and> r \<noteq> None" "mset (all_rows t') = mset (all_rows t)"
    "days_distinct t \<Longrightarrow> days_distinct t'" "click_day ` set (ct_default t') \<subseteq> click_day ` set (ct_default t)"
    "\<not> lost \<Longrightarrow> r \<noteq> None"
proof -
  have "mset (filter (\<lambda>c. click_day c \<noteq> d) xs) + mset (filter (\<lambda>c. click_day c = d) xs) = mset xs" for xs
    by (induction xs) auto
  then show "mset (all_rows t') = mset (all_rows t)"
    using assms by (auto simp: ensure_partition_def all_rows_def split: if_splits)
qed (use assms in \<open>auto simp: ensure_partition_def attached_iff days_distinct_def split: if_splits\<close>)

lemma route_clickD:
  shows "attached (route_click c t) d \<longleftrightarrow> attached t d" "days_distinct t \<Longrightarrow> days_distinct (route_click c t)"
    "click_day ` set (ct_default (route_click c t)) \<subseteq> insert (click_day c) (click_day ` set (ct_default t))"
proof -
  have days: "map fst (map (\<lambda>(d, rows). if d = click_day c then (d, rows @ [c]) else (d, rows)) ps) = map fst ps" for ps
    by auto
  show "attached (route_click c t) d \<longleftrightarrow> attached t d"
    using days [of "ct_parts t"] by (auto simp: route_click_def attached_iff simp flip: set_map simp del: map_map)
  show "days_distinct t \<Longrightarrow> days_distinct (route_click c t)"
    using days [of "ct_parts t"] by (auto simp: route_click_def days_distinct_def simp del: map_map)
qed (auto simp: route_click_def)

lemma route_click_rows:
  assumes "days_distinct t"
  shows "mset (all_rows (route_click c t)) = add_mset c (mset (all_rows t))"
proof -
  have "mset (concat (map snd (map (\<lambda>(d, rows). if d = click_day c then (d, rows @ [c]) else (d, rows)) ps)))
      = (if click_day c \<in> fst ` set ps then add_mset c (mset (concat (map snd ps))) else mset (concat (map snd ps)))"
    if "distinct (map fst ps)" for ps
    using that by (induction ps) (auto simp: image_iff)
  then show ?thesis using assms by (simp add: route_click_def all_rows_def attached_iff days_distinct_def del: map_map)
qed

lemma fold_route_click:
  assumes "days_distinct t"
  shows "days_distinct (fold route_click cs t)" "attached (fold route_click cs t) d \<longleftrightarrow> attached t d"
    "mset (all_rows (fold route_click cs t)) = mset (all_rows t) + mset cs"
    "click_day ` set (ct_default (fold route_click cs t)) \<subseteq> click_day ` set cs \<union> click_day ` set (ct_default t)"
proof -
  have "days_distinct (fold route_click cs t) \<and> (attached (fold route_click cs t) d \<longleftrightarrow> attached t d)
    \<and> mset (all_rows (fold route_click cs t)) = mset (all_rows t) + mset cs
    \<and> click_day ` set (ct_default (fold route_click cs t)) \<subseteq> click_day ` set cs \<union> click_day ` set (ct_default t)"
    using assms
  proof (induction cs arbitrary: t)
    case (Cons c cs)
    note r = route_clickD [where c = c and t = t] route_click_rows [OF Cons.prems, of c]
    note ih = Cons.IH [OF r(2) [OF Cons.prems]]
    have "click_day ` set (ct_default (fold route_click (c # cs) t)) \<subseteq> click_day ` set (c # cs) \<union> click_day ` set (ct_default t)"
      using ih r(3) by (simp only: fold_simps) (simp, blast)
    then show ?case using ih r(1,4) by simp
  qed simp
  then show "days_distinct (fold route_click cs t)" "attached (fold route_click cs t) d \<longleftrightarrow> attached t d"
    "mset (all_rows (fold route_click cs t)) = mset (all_rows t) + mset cs"
    "click_day ` set (ct_default (fold route_click cs t)) \<subseteq> click_day ` set cs \<union> click_day ` set (ct_default t)"
    by blast+
qed

lemma backfill_chunkD:
  assumes "backfill_chunk lost ds got t = (got', t')" "days_distinct t"
  shows "days_distinct t' \<and> mset (all_rows t') = mset (all_rows t) \<and> click_day ` set (ct_default t') \<subseteq> click_day ` set (ct_default t)
    \<and> (\<forall>d. attached t d \<longrightarrow> attached t' d) \<and> got \<le> got' \<and> (got < got' \<longrightarrow> (\<exists>d \<in> set ds. attached t' d))
    \<and> (got' = got \<longrightarrow> (\<forall>d \<in> set ds. lost d))"
  using assms
proof (induction ds arbitrary: got t)
  case (Cons d ds)
  obtain r t1 where e: "ensure_partition (lost d) d t = (r, t1)" by (cases "ensure_partition (lost d) d t")
  note ed = ensure_partitionD [OF e]
  have "backfill_chunk lost ds (if r = None then got else got + 1) t1 = (got', t')"
    using Cons.prems(1) by (cases r) (simp_all add: e)
  note ih = Cons.IH [OF this ed(3) [OF Cons.prems(2)]]
  show ?case using ih ed(1,2,4,5) by (cases r) (auto 0 3)
qed auto

lemma backfill_daysD:
  assumes "backfill_days lost chunk t = (got, remaining, t')" "days_distinct t"
  shows "days_distinct t'" "mset (all_rows t') = mset (all_rows t)" "click_day ` set (ct_default t') \<subseteq> click_day ` set (ct_default t)"
    "attached t d \<Longrightarrow> attached t' d" "remaining = length (stranded_days t')"
    "0 < got \<Longrightarrow> \<exists>d. d \<in> click_day ` set (ct_default t) \<and> \<not> attached t d \<and> attached t' d"
    "got = 0 \<Longrightarrow> \<forall>d. \<not> lost d \<Longrightarrow> remaining = 0"
proof -
  define n where "n = (if chunk < 1 then 200 else nat chunk)"
  have n: "0 < n" by (auto simp: n_def)
  have c: "backfill_chunk lost (take n (stranded_days t)) 0 t = (got, t')" and r: "remaining = length (stranded_days t')"
    using assms(1) by (auto simp: backfill_days_def n_def Let_def split: prod.splits)
  have sd: "set (take n (stranded_days t)) \<subseteq> {d \<in> click_day ` set (ct_default t). \<not> attached t d}"
    by (auto simp: stranded_days_def dest!: in_set_takeD)
  note cd = backfill_chunkD [OF c assms(2)]
  show "days_distinct t'" "mset (all_rows t') = mset (all_rows t)" "click_day ` set (ct_default t') \<subseteq> click_day ` set (ct_default t)"
    "attached t d \<Longrightarrow> attached t' d" "remaining = length (stranded_days t')"
    using cd r by simp_all
  show "\<exists>d. d \<in> click_day ` set (ct_default t) \<and> \<not> attached t d \<and> attached t' d" if "0 < got"
  proof -
    have "\<exists>d \<in> set (take n (stranded_days t)). attached t' d" using cd that by simp
    then obtain d where d: "d \<in> set (take n (stranded_days t))" "attached t' d" by (rule bexE)
    have "d \<in> {d \<in> click_day ` set (ct_default t). \<not> attached t d}" by (rule subsetD [OF sd d(1)])
    then show ?thesis using d(2) by (intro exI [of _ d]) simp
  qed
  assume g: "got = 0" "\<forall>d. \<not> lost d"
  then have "\<forall>d \<in> set (take n (stranded_days t)). False" using cd by simp
  then have "set (take n (stranded_days t)) = {}" by simp
  then have "stranded_days t = []" using n by simp
  then have "t' = t" using c by simp
  then show "remaining = 0" using r \<open>stranded_days t = []\<close> by simp
qed

lemma backfill_loop_ends:
  assumes "finite D" "click_day ` set (ct_default t) \<subseteq> D" "\<And>i. click_day ` set (arrive i) \<subseteq> D" "days_distinct t"
  shows "\<exists>got k t'. backfill_loop lost arrive chunk_size p k0 t = Some ((p + got, k0 + k), t')
    \<and> k \<le> card {d \<in> D. \<not> attached t d} + 1
    \<and> mset (all_rows t') = mset (all_rows t) + mset (concat (map arrive [k0 ..< k0 + k]))
    \<and> ((\<forall>i d. \<not> lost i d) \<longrightarrow> stranded_days t' = [])"
  using assms(2,4)
proof (induction "card {d \<in> D. \<not> attached t d}" arbitrary: t p k0 rule: less_induct)
  case less
  let ?t = "fold route_click (arrive k0) t"
  note f = fold_route_click [OF less.prems(2), where cs = "arrive k0"]
  have default: "click_day ` set (ct_default ?t) \<subseteq> D" using f(4) less.prems(1) assms(3) by blast
  obtain got remaining t1 where b: "backfill_days (lost k0) chunk_size ?t = (got, remaining, t1)"
    by (cases "backfill_days (lost k0) chunk_size ?t")
  note bd = backfill_daysD [OF b f(1)]
  have rows: "mset (all_rows t1) = mset (all_rows t) + mset (arrive k0)" using bd(2) f(3) by simp
  show ?case
  proof (cases "remaining = 0 \<or> got = 0")
    case True
    then have "backfill_loop lost arrive chunk_size p k0 t = Some ((p + got, k0 + 1), t1)"
      by (subst backfill_loop.simps) (simp add: b)
    moreover have "stranded_days t1 = []" if "\<forall>i d. \<not> lost i d" using True that bd(5,7) by auto
    ultimately show ?thesis using rows by (intro exI [of _ got] exI [of _ 1] exI [of _ t1]) simp
  next
    case False
    then have step: "backfill_loop lost arrive chunk_size p k0 t = backfill_loop lost arrive chunk_size (p + got) (k0 + 1) t1"
      by (subst backfill_loop.simps) (simp add: b)
    obtain d where "d \<in> click_day ` set (ct_default ?t)" "\<not> attached ?t d" "attached t1 d" using bd(6) False by auto
    then have d: "d \<in> D" "\<not> attached t d" "attached t1 d" using default f(2) by auto
    have "{d \<in> D. \<not> attached t1 d} \<subset> {d \<in> D. \<not> attached t d}" using d bd(4) f(2) by auto
    then have smaller: "card {d \<in> D. \<not> attached t1 d} < card {d \<in> D. \<not> attached t d}"
      using assms(1) by (intro psubset_card_mono) auto
    obtain got' k t' where ih: "backfill_loop lost arrive chunk_size (p + got) (k0 + 1) t1 = Some ((p + got + got', k0 + 1 + k), t')"
      "k \<le> card {d \<in> D. \<not> attached t1 d} + 1"
      "mset (all_rows t') = mset (all_rows t1) + mset (concat (map arrive [k0 + 1 ..< k0 + 1 + k]))"
      "(\<forall>i d. \<not> lost i d) \<longrightarrow> stranded_days t' = []"
      using less.hyps [OF smaller _ bd(1), of "p + got" "k0 + 1"] bd(3) default by blast
    have "[k0 ..< k0 + (k + 1)] = k0 # [k0 + 1 ..< k0 + 1 + k]" by (simp add: upt_conv_Cons)
    then show ?thesis
      using ih step rows smaller by (intro exI [of _ "got + got'"] exI [of _ "k + 1"] exI [of _ t']) (simp add: ac_simps)
  qed
qed

text \<open>
  C11. The backfill ends: whichever locks its chunks lose, and while clicks keep arriving on finitely many days,
  the loop runs at most once more than there are days without a partition, every row that was there or
  arrived is in the table once, and when no lock is lost no day remains in the default.
\<close>

theorem backfill_terminates:
  assumes "finite D" "click_day ` set (ct_default t) \<subseteq> D" "\<And>i. click_day ` set (arrive i) \<subseteq> D" "days_distinct t"
  shows "\<exists>got chunks t'. backfill_click_partitions lost arrive chunk_size t = Some ((got, chunks), t')
    \<and> chunks \<le> card {d \<in> D. \<not> attached t d} + 1
    \<and> mset (all_rows t') = mset (all_rows t) + mset (concat (map arrive [0 ..< chunks]))
    \<and> ((\<forall>i d. \<not> lost i d) \<longrightarrow> stranded_days t' = [])"
  using backfill_loop_ends [OF assms, where lost = lost and chunk_size = chunk_size and p = 0 and ?k0.0 = 0] by (simp add: backfill_click_partitions_def)

text \<open>Days 0 and 1 wait in the default, and a click of day 1 arrives; the lock of day 1 is lost at first.\<close>

definition stranded_table :: click_table where
  "stranded_table = \<lparr> ct_default = [example_click ''a'' 5 None, example_click ''b'' 86400005 None], ct_parts = [] \<rparr>"

definition late_click :: "nat \<Rightarrow> stored_click list" where
  "late_click i = (if i = 1 then [example_click ''c'' 86400007 None] else [])"

lemma example_day: "click_day (example_click i t b) = t div 86400000"
  by (simp add: example_click_def click_day_def utc_day_def)

theorem backfill_terminates_witness:
  "\<exists>got chunks t'. backfill_click_partitions (\<lambda>i d. i = 0 \<and> d = 1) late_click 200 stranded_table = Some ((got, chunks), t') \<and> chunks \<le> 3"
proof -
  have t: "click_day ` set (ct_default stranded_table) \<subseteq> {0, 1}" "days_distinct stranded_table"
    by (simp_all add: stranded_table_def example_day days_distinct_def)
  have a: "click_day ` set (late_click i) \<subseteq> {0, 1}" for i
    by (cases "i = 1") (auto simp: late_click_def example_day)
  have "{d \<in> {0, 1 :: int}. \<not> attached stranded_table d} = {0, 1}" by (auto simp: stranded_table_def attached_def)
  then have "card {d \<in> {0, 1 :: int}. \<not> attached stranded_table d} = 2" by simp
  then show ?thesis
    using backfill_terminates [where arrive = late_click and lost = "\<lambda>i d. i = 0 \<and> d = 1" and chunk_size = 200, OF _ t(1) a t(2)] by auto
qed

lemma ensure_days_counts:
  "ensure_days lost ds (r, x) t = ((r', x'), t') \<Longrightarrow> r' + x' = r + x + length ds \<and> mset (all_rows t') = mset (all_rows t)"
proof (induction ds arbitrary: r x t)
  case (Cons d ds)
  obtain p t1 where e: "ensure_partition (lost d) d t = (p, t1)" by (cases "ensure_partition (lost d) d t")
  show ?case using Cons e ensure_partitionD(2) [OF e] by (cases p) fastforce+
qed simp

text \<open>Every day of the window is counted once, as ready or as declined, and no row is lost.\<close>

lemma provisioning_counts_window:
  assumes "ensure_click_partitions now lost days_ahead days_back t = ((ready, declined), t')" "0 \<le> days_ahead" "0 \<le> days_back"
  shows "int (ready + declined) = days_ahead + days_back + 1 \<and> mset (all_rows t') = mset (all_rows t)"
  using ensure_days_counts [of lost _ 0 0 t ready declined t'] assms by (auto simp: ensure_click_partitions_def)

section \<open>What a retention pass removes\<close>

abbreviation kept_parts :: "(int \<Rightarrow> bool) \<Rightarrow> click_table \<Rightarrow> click_table" where
  "kept_parts p t \<equiv> t\<lparr>ct_parts := filter (\<lambda>q. p (fst q)) (ct_parts t)\<rparr>"

definition counted_days :: "click_table \<Rightarrow> int set \<Rightarrow> bool" where
  "counted_days t days = (\<forall>(d, rows) \<in> set (ct_parts t). d \<in> days \<longrightarrow> (\<forall>c \<in> set rows. kc_rolled c \<noteq> None))"

abbreviation dropped_days :: "drop_log \<Rightarrow> int set" where
  "dropped_days tried \<equiv> {d. (d, Dropped) \<in> set tried}"

text \<open>
  A log and a table a pass may have reached from a table: what was dropped is what is missing, all of it
  was counted.
\<close>

definition drops_ok :: "click_table \<Rightarrow> drop_log \<times> click_table \<Rightarrow> bool" where
  "drops_ok t st =
     (case st of (tried, t') \<Rightarrow> t' = kept_parts (\<lambda>d. d \<notin> dropped_days tried) t \<and> counted_days t (dropped_days tried)
        \<and> distinct (map fst (filter (\<lambda>a. snd a = Dropped) tried)) \<and> dropped_days tried \<subseteq> fst ` set (ct_parts t))"

lemma drop_partition_cases:
  assumes "drop_partition lost d t = (what, t')"
  obtains "what \<noteq> Dropped" "t' = t"
  | rows where "what = Dropped" "map_of (ct_parts t) d = Some rows" "\<forall>c \<in> set rows. kc_rolled c \<noteq> None" "t' = kept_parts (\<lambda>x. x \<noteq> d) t"
proof (cases "lost \<or> map_of (ct_parts t) d = None")
  case True
  then show ?thesis using assms that(1) by (auto simp: drop_partition_def split: if_splits)
next
  case False
  then obtain rows where rows: "map_of (ct_parts t) d = Some rows" by blast
  show ?thesis
  proof (cases "list_ex (\<lambda>c. kc_rolled c = None) rows")
    case True
    then show ?thesis using assms that(1) False rows by (simp add: drop_partition_def)
  next
    case none: False
    then have "\<forall>c \<in> set rows. kc_rolled c \<noteq> None" by (simp add: list_ex_iff)
    then show ?thesis using assms that(2) [OF _ rows] False none rows by (simp add: drop_partition_def)
  qed
qed

lemma attempt_drop_ok:
  assumes "drops_ok t st" "days_distinct t" "attempt_drop lost d st = (tried', t')"
  shows "drops_ok t (tried', t') \<and> length tried' = length (fst st) + 1 \<and> (\<exists>what. tried' = fst st @ [(d, what)])
    \<and> outcomes Dropped tried' \<le> outcomes Dropped (fst st) + 1"
proof -
  obtain tried t1 where st: "st = (tried, t1)" by (cases st)
  obtain what where w: "drop_partition (lost (length tried)) d t1 = (what, t')" "tried' = tried @ [(d, what)]"
    using assms(3) by (auto simp: attempt_drop_def st split: prod.splits)
  have ok: "t1 = kept_parts (\<lambda>d. d \<notin> dropped_days tried) t" "counted_days t (dropped_days tried)"
    "distinct (map fst (filter (\<lambda>a. snd a = Dropped) tried))" "dropped_days tried \<subseteq> fst ` set (ct_parts t)"
    using assms(1) by (simp_all add: drops_ok_def st)
  from w(1) have "drops_ok t (tried', t')"
  proof (cases rule: drop_partition_cases)
    case 1
    then show ?thesis using ok w(2) by (simp add: drops_ok_def)
  next
    case (2 rows)
    have dd: "dropped_days tried' = insert d (dropped_days tried)" using w(2) 2(1) by auto
    have mem: "(d, rows) \<in> set (ct_parts t)" "d \<notin> dropped_days tried"
      using map_of_SomeD [OF 2(2)] by (auto simp: ok(1))
    have one: "rows' = rows" if "(d, rows') \<in> set (ct_parts t)" for rows'
      using assms(2) mem(1) that by (simp add: days_distinct_def eq_key_imp_eq_value)
    have "counted_days t (dropped_days tried')"
      using ok(2) 2(3) one by (auto simp: counted_days_def dd)
    moreover have "t' = kept_parts (\<lambda>d. d \<notin> dropped_days tried') t"
      unfolding 2(4) ok(1) dd by (simp add: conj_commute)
    moreover have "distinct (map fst (filter (\<lambda>a. snd a = Dropped) tried'))"
      using ok(3) mem(2) 2(1) by (force simp: w(2))
    moreover have "dropped_days tried' \<subseteq> fst ` set (ct_parts t)"
      unfolding dd using ok(4) image_eqI [of d fst, OF _ mem(1)] by simp
    ultimately show ?thesis by (simp add: drops_ok_def)
  qed
  then show ?thesis using w(2) by (auto simp: st outcomes_def)
qed

lemma drop_each_ok:
  "drops_ok t st \<Longrightarrow> days_distinct t \<Longrightarrow> drops_ok t (drop_each lost ds st)
     \<and> (\<exists>more. fst (drop_each lost ds st) = fst st @ more \<and> map fst more = ds)"
proof (induction ds arbitrary: st)
  case (Cons d ds)
  obtain tried' t' where a: "attempt_drop lost d st = (tried', t')" by (cases "attempt_drop lost d st")
  note o = attempt_drop_ok [OF Cons.prems a]
  obtain what where w: "tried' = fst st @ [(d, what)]" using o by blast
  obtain more where "fst (drop_each lost ds (tried', t')) = tried' @ more" "map fst more = ds" "drops_ok t (drop_each lost ds (tried', t'))"
    using Cons.IH [of "(tried', t')"] o Cons.prems(2) by auto
  then show ?case by (intro conjI exI [of _ "(d, what) # more"]) (simp_all add: a w)
qed simp

lemma cap_loop_ok:
  "drops_ok t st \<Longrightarrow> days_distinct t \<Longrightarrow> drops_ok t (cap_loop lost m cap n k ds st)
     \<and> (\<exists>more. fst (cap_loop lost m cap n k ds st) = fst st @ more \<and> set (map fst more) \<subseteq> set ds)
     \<and> (outcomes Dropped (fst st) \<le> m \<longrightarrow> outcomes Dropped (fst (cap_loop lost m cap n k ds st)) \<le> m)"
proof (induction ds arbitrary: k st)
  case (Cons d ds)
  show ?case
  proof (cases "under_cap cap n k \<or> m \<le> outcomes Dropped (fst st)")
    case False
    obtain tried' t' where a: "attempt_drop lost d st = (tried', t')" by (cases "attempt_drop lost d st")
    note o = attempt_drop_ok [OF Cons.prems a]
    obtain what where w: "tried' = fst st @ [(d, what)]" using o by blast
    let ?k = "if snd (last tried') = Dropped then k + 1 else k"
    have e: "cap_loop lost m cap n k (d # ds) st = cap_loop lost m cap n ?k ds (tried', t')"
      using False by (simp only: cap_loop.simps if_False Let_def a fst_conv)
    have "outcomes Dropped tried' \<le> m" using o False by linarith
    moreover obtain more where "fst (cap_loop lost m cap n ?k ds (tried', t')) = tried' @ more" "set (map fst more) \<subseteq> set ds"
      "drops_ok t (cap_loop lost m cap n ?k ds (tried', t'))"
      "outcomes Dropped tried' \<le> m \<longrightarrow> outcomes Dropped (fst (cap_loop lost m cap n ?k ds (tried', t'))) \<le> m"
      using Cons.IH [of "(tried', t')" ?k] o Cons.prems(2) by auto
    ultimately show ?thesis unfolding e by (intro conjI exI [of _ "(d, what) # more"]) (auto simp: w)
  qed (use Cons.prems in auto)
qed simp

lemma outcomes_length: "outcomes what tried \<le> length tried"
  by (simp add: outcomes_def)

text \<open>The pass as a whole: how many days it drops, and which.\<close>

lemma prune_dropsD:
  assumes "prune_drops lost now m cap years t = (tried, t')" "days_distinct t"
  shows "drops_ok t (tried, t')" "outcomes Dropped tried \<le> m"
    "d \<in> dropped_days tried \<Longrightarrow> under_cap cap (length (ct_parts t)) 0 \<Longrightarrow> d + 1 \<le> utc_day (minus_years (utc_day now * day_ms) years)"
proof -
  let ?cutoff = "utc_day (minus_years (utc_day now * day_ms) years)"
  let ?spent = "take m (spent_partitions ?cutoff t)"
  obtain tried1 t1 where a: "drop_each lost ?spent ([], t) = (tried1, t1)" by (cases "drop_each lost ?spent ([], t)")
  have start: "drops_ok t ([], t)" by (simp add: drops_ok_def counted_days_def)
  have 1: "drops_ok t (tried1, t1)" "map fst tried1 = ?spent"
    using drop_each_ok [OF start assms(2), of lost ?spent] by (auto simp: a)
  have "length tried1 \<le> m" using 1(2) by (metis length_map length_take min.cobounded2)
  then have m1: "outcomes Dropped tried1 \<le> m" using outcomes_length [of Dropped tried1] by linarith
  let ?days = "sort (map fst (ct_parts t1))"
  have r: "(tried, t') = (if outcomes Dropped tried1 < m then cap_loop lost m cap (length ?days) 0 ?days (tried1, t1) else (tried1, t1))"
    using assms(1) unfolding prune_drops_def Let_def a prod.case by (rule sym)
  note c = cap_loop_ok [OF 1(1) assms(2), of lost m cap "length ?days" 0 ?days]
  show "drops_ok t (tried, t')" using r c 1(1) by (auto split: if_splits)
  have "outcomes Dropped (fst (cap_loop lost m cap (length ?days) 0 ?days (tried1, t1))) \<le> m" using c m1 by (metis fst_conv)
  then show "outcomes Dropped tried \<le> m" using m1 r by (metis fst_conv)
  assume d: "d \<in> dropped_days tried" "under_cap cap (length (ct_parts t)) 0"
  have "length (ct_parts t1) \<le> length (ct_parts t)" using 1(1) by (simp add: drops_ok_def)
  then have "under_cap cap (length ?days) 0"
    using d(2) by (auto simp: under_cap_def split: day_cap.splits)
  then have "cap_loop lost m cap (length ?days) 0 ?days (tried1, t1) = (tried1, t1)" by (cases ?days) simp_all
  then have "tried = tried1" using r by (auto split: if_splits)
  then have "d \<in> set (map fst tried1)" using d(1) by force
  then have "d \<in> set (spent_partitions ?cutoff t)" using 1(2) by (metis in_set_takeD)
  then show "d + 1 \<le> ?cutoff" by (auto simp: spent_partitions_def)
qed

lemma all_rows_dropped:
  "c \<in> set (all_rows (kept_parts p t)) \<longleftrightarrow> c \<in> set (ct_default t) \<or> (\<exists>(d, rows) \<in> set (ct_parts t). p d \<and> c \<in> set rows)"
  by (auto simp: all_rows_def)

lemma all_rows_deleted:
  "c \<in> set (all_rows (delete_expired now years spaces t)) \<longleftrightarrow>
     c \<in> set (ct_default t) \<and> \<not> expired_row now years spaces True c
     \<or> (\<exists>(d, rows) \<in> set (ct_parts t). c \<in> set rows \<and> \<not> expired_row now years spaces False c)"
  by (fastforce simp: all_rows_def delete_expired_def)

text \<open>
  C10. Retention never discards a click that was not counted, and takes nothing within its window: whichever
  locks a pass loses, every row waiting for the rollup is still in the table, at most the budget of partitions
  is dropped, and, while no more days are attached than the cap allows, every row that went was counted and
  is older than the install's window by whole days, or than its own workspace's window.
\<close>

theorem retention_keeps_window:
  assumes "prune_pass lost now m cap years spaces t = (r, t')" "days_distinct t"
    and "\<forall>(d, rows) \<in> set (ct_parts t). \<forall>c \<in> set rows. click_day c = d"
  shows "rr_dropped r \<le> m \<and> set (all_rows t') \<subseteq> set (all_rows t)
    \<and> (\<forall>c \<in> set (all_rows t). kc_rolled c = None \<longrightarrow> c \<in> set (all_rows t'))
    \<and> (under_cap cap (length (ct_parts t)) 0 \<longrightarrow> (\<forall>c \<in> set (all_rows t) - set (all_rows t').
          click_day c < utc_day (minus_years (utc_day now * day_ms) years)
          \<or> (\<exists>w \<in> set spaces. ww_id w = ce_workspace_id (kc_event c)
               \<and> ce_occurred_at (kc_event c) < minus_years now (min (ww_years w) years))))"
proof -
  obtain tried t1 where p: "prune_drops lost now m cap years t = (tried, t1)" by (cases "prune_drops lost now m cap years t")
  have t': "t' = delete_expired now years spaces t1" and r: "rr_dropped r = outcomes Dropped tried"
    using assms(1) by (auto simp: prune_pass_def p Let_def)
  note d = prune_dropsD [OF p assms(2)]
  have t1: "t1 = kept_parts (\<lambda>d. d \<notin> dropped_days tried) t" and cd: "counted_days t (dropped_days tried)"
    using d(1) by (simp_all add: drops_ok_def)
  have sub1: "set (all_rows t1) \<subseteq> set (all_rows t)" unfolding t1 by (auto simp: all_rows_def)
  have sub2: "set (all_rows t') \<subseteq> set (all_rows t1)"
  proof
    fix c assume "c \<in> set (all_rows t')"
    then show "c \<in> set (all_rows t1)" unfolding t' all_rows_deleted by (fastforce simp: all_rows_def)
  qed
  have gone1: "kc_rolled c \<noteq> None \<and> click_day c \<in> dropped_days tried" if "c \<in> set (all_rows t)" "c \<notin> set (all_rows t1)" for c
    using that cd assms(3) unfolding t1 all_rows_dropped by (fastforce simp: all_rows_def counted_days_def)
  have gone2: "\<exists>b. expired_row now years spaces b c" if "c \<in> set (all_rows t1)" "c \<notin> set (all_rows t')" for c
    using that unfolding t' all_rows_deleted by (fastforce simp: all_rows_def)
  have e: "kc_rolled c \<noteq> None \<and> (\<exists>w \<in> set spaces. ww_id w = ce_workspace_id (kc_event c)
       \<and> ce_occurred_at (kc_event c) < minus_years now (min (ww_years w) years))" if "expired_row now years spaces b c" for b c
    using that by (auto simp: expired_row_def list_ex_iff)
  have "c \<in> set (all_rows t')" if "c \<in> set (all_rows t)" "kc_rolled c = None" for c
    using gone1 [OF that(1)] gone2 [of c] e that(2) by blast
  moreover have "click_day c < utc_day (minus_years (utc_day now * day_ms) years)
      \<or> (\<exists>w \<in> set spaces. ww_id w = ce_workspace_id (kc_event c)
           \<and> ce_occurred_at (kc_event c) < minus_years now (min (ww_years w) years))"
    if "under_cap cap (length (ct_parts t)) 0" "c \<in> set (all_rows t)" "c \<notin> set (all_rows t')" for c
  proof (cases "c \<in> set (all_rows t1)")
    case True
    then show ?thesis using gone2 [OF True that(3)] e by blast
  next
    case False
    then show ?thesis using gone1 [OF that(2) False] d(3) [of "click_day c"] that(1) by auto
  qed
  ultimately show ?thesis using r d(2) sub1 sub2 by auto
qed

text \<open>A counted click of day 0 and a waiting one of day 20000, on that day.\<close>

definition old_and_new :: click_table where
  "old_and_new = \<lparr> ct_default = [],
     ct_parts = [(0, [(example_click ''a'' 5 None)\<lparr>kc_rolled := Some 9\<rparr>]), (20000, [example_click ''b'' (20000 * 86400000) None])] \<rparr>"

theorem retention_keeps_window_witness:
  "\<exists>r t'. prune_pass (\<lambda>_. False) (20000 * 86400000 + 1) 20 (Days 1100) 3 [] old_and_new = (r, t')
     \<and> rr_dropped r \<le> 20 \<and> example_click ''b'' (20000 * 86400000) None \<in> set (all_rows t')"
proof -
  obtain r t' where p: "prune_pass (\<lambda>_. False) (20000 * 86400000 + 1) 20 (Days 1100) 3 [] old_and_new = (r, t')"
    by (cases "prune_pass (\<lambda>_. False) (20000 * 86400000 + 1) 20 (Days 1100) 3 [] old_and_new")
  have "days_distinct old_and_new" "\<forall>(d, rows) \<in> set (ct_parts old_and_new). \<forall>c \<in> set rows. click_day c = d"
    by (simp_all add: old_and_new_def days_distinct_def example_click_def click_day_def utc_day_def)
  note k = retention_keeps_window [OF p this]
  have "example_click ''b'' (20000 * 86400000) None \<in> set (all_rows old_and_new)"
    by (simp add: old_and_new_def all_rows_def)
  then show ?thesis using k p by (intro exI [of _ r] exI [of _ t']) (simp add: example_click_def)
qed

section \<open>Where the settings and the comments go wrong\<close>

lemma unlocked_drop:
  "map_of (ct_parts t) d = Some rows \<Longrightarrow> \<forall>c \<in> set rows. kc_rolled c \<noteq> None \<Longrightarrow>
     attempt_drop (\<lambda>_. False) d (tried, t) = (tried @ [(d, Dropped)], kept_parts (\<lambda>x. x \<noteq> d) t)"
  by (auto simp: attempt_drop_def drop_partition_def list_ex_iff)

text \<open>
  An empty value of the cap is the number 0 and any other unreadable one never stops the loop, so such a setting
  drops the oldest counted day whatever its age; the years beside it fall back to three.
\<close>

lemma blank_cap_drops_recent_day:
  assumes "cap \<in> {max_retained_days (Some []), max_retained_days (Some ''forever'')}" "c = (example_click ''a'' now None)\<lparr>kc_rolled := Some now\<rparr>"
    and "0 \<le> now"
  shows "snd (prune_drops (\<lambda>_. False) now 20 cap (resolve_retention_years (Some [])) \<lparr> ct_default = [], ct_parts = [(click_day c, [c])] \<rparr>)
    = \<lparr> ct_default = [], ct_parts = [] \<rparr>"
proof -
  have "\<not> under_cap cap 1 0"
    using assms(1) by (auto simp: max_retained_days_def js_number_def under_cap_def js_trim_def is_js_space_def
        starts_with_def decimal_number_def is_digit_def cu_def Let_def)
  then show ?thesis
    by (simp add: prune_drops_def Let_def spent_partitions_def attempt_drop_def drop_partition_def outcomes_def list_ex_iff assms(2))
qed

text \<open>
  Only drops are counted against the budget: a pass that loses every lock tries the spent days of the budget
  and then, above the cap, every attached day once more, each for as long as its lock timeout.
\<close>

lemma contended_cap_loop:
  "\<not> under_cap cap n k \<Longrightarrow> outcomes Dropped tried < m \<Longrightarrow>
     cap_loop (\<lambda>_. True) m cap n k ds (tried, t) = (tried @ map (\<lambda>d. (d, Contended)) ds, t)"
proof (induction ds arbitrary: tried)
  case (Cons d ds)
  have "outcomes Dropped (tried @ [(d, Contended)]) < m" using Cons.prems(2) by (simp add: outcomes_def)
  then show ?case using Cons.IH [OF Cons.prems(1)] Cons.prems by (simp add: attempt_drop_def drop_partition_def)
qed simp

lemma contended_drop_each:
  "drop_each (\<lambda>_. True) ds (tried, t) = (tried @ map (\<lambda>d. (d, Contended)) ds, t)"
  by (induction ds arbitrary: tried) (simp_all add: attempt_drop_def drop_partition_def)

lemma contended_pass_tries_every_day:
  assumes "0 < m" "\<not> under_cap cap (length (ct_parts t)) 0"
  shows "length (fst (prune_drops (\<lambda>_. True) now m cap years t))
    = min m (length (spent_partitions (utc_day (minus_years (utc_day now * day_ms) years)) t)) + length (ct_parts t)"
  using assms by (simp add: prune_drops_def Let_def contended_drop_each outcomes_def contended_cap_loop filter_empty_conv comp_def)

text \<open>
  Where the session's clock is ahead of UTC, the salt of yesterday, by the UTC days the salts are keyed with,
  is dropped before the day is over.
\<close>

lemma rotation_ahead_of_utc:
  assumes "utc_day (now + offset) = utc_day now + 1"
  shows "snd (rotate_salts now offset [(utc_day now - 1, s), (utc_day now, s')]) = [(utc_day now, s')]"
  using assms by (simp add: rotate_salts_def)

end
