(* ===== verification/Links.thy ===== *)
theory Links
  imports Signup Routing Destination Visitor Http_Url "HOL-Library.Multiset"
begin

text \<open>
  Writing links (\<open>apps/api/src/links/links.service.ts\<close>: \<open>create\<close>, \<open>clone\<close>, \<open>update\<close>, \<open>remove\<close>, \<open>bulkCreate\<close>,
  with \<open>common/shortener-chain.ts\<close>, \<open>common/ssrf-guard.ts\<close> and the parse of a PATCH body in
  \<open>packages/contract/src/link.ts\<close>). The tables are one state; a request answers an error or a value and the
  new state, and an error leaves the state but for the logged refusal. Parameters: the clock, the URL
  parser, DNS, Safe Browsing, argon2, the settings, the drawn back-halves and the drawn ids. The order in
  which the checks read the database inside one request is the code's; requests follow one another.
\<close>

section \<open>Tables and inputs\<close>

datatype scan_status = ScanClean | ScanFlagged | ScanPending

record social =
  so_title :: "string option"
  so_description :: "string option"
  so_image :: "string option"

record create_input =
  ci_destination :: string
  ci_domain :: string
  ci_slug :: "string option"
  ci_tags :: "string list"
  ci_folder :: "string option"
  ci_comment :: "string option"
  ci_redirect :: "redirect_type option"
  ci_rules :: "routing_rule list"
  ci_expires :: date_input
  ci_expires_to :: "string option"
  ci_activates :: date_input
  ci_scheduled_to :: "string option"
  ci_limit :: "int option"
  ci_password :: "string option"
  ci_forward :: bool
  ci_deep :: bool
  ci_hide :: bool
  ci_preview :: bool
  ci_utm :: "utm option"
  ci_social :: "social option"

text \<open>A PATCH body: \<open>None\<close> is an absent key, and a nullable field holds an option or no date.\<close>

record update_input =
  ui_destination :: "string option"
  ui_tags :: "string list option"
  ui_folder :: "string option"
  ui_comment :: "string option"
  ui_redirect :: "redirect_type option"
  ui_rules :: "routing_rule list option"
  ui_expires :: "date_input option"
  ui_expires_to :: "string option option"
  ui_activates :: "date_input option"
  ui_scheduled_to :: "string option option"
  ui_limit :: "int option option"
  ui_password :: "string option option"
  ui_forward :: "bool option"
  ui_deep :: "bool option"
  ui_hide :: "bool option"
  ui_preview :: "bool option"
  ui_utm :: "utm option"
  ui_social :: "social option"
  ui_archived :: "bool option"

text \<open>
  \<open>UpdateLinkInput\<close>: \<open>partial()\<close> makes every key optional, and an absent key with a \<open>default\<close> takes it.
\<close>

definition parse_update :: "update_input \<Rightarrow> update_input" where
  "parse_update body =
     body\<lparr> ui_tags := Some (or_else (ui_tags body) []), ui_rules := Some (or_else (ui_rules body) []),
           ui_forward := Some (or_else (ui_forward body) True), ui_deep := Some (or_else (ui_deep body) False),
           ui_hide := Some (or_else (ui_hide body) False), ui_preview := Some (or_else (ui_preview body) True) \<rparr>"

record stored_link =
  sl_id :: string
  sl_workspace :: string
  sl_domain :: string
  sl_slug :: string
  sl_destination :: string
  sl_comment :: "string option"
  sl_tags :: "string list"
  sl_folder :: "string option"
  sl_redirect :: redirect_type
  sl_expires :: "int option"
  sl_expires_to :: "string option"
  sl_activates :: "int option"
  sl_scheduled_to :: "string option"
  sl_limit :: "int option"
  sl_password :: "string option"
  sl_forward :: bool
  sl_deep :: bool
  sl_hide :: bool
  sl_preview :: bool
  sl_scan :: scan_status
  sl_scanned_at :: int
  sl_utm :: "utm option"
  sl_social :: "social option"
  sl_created_by :: "string option"
  sl_created_at :: int
  sl_archived_at :: "int option"
  sl_managed :: bool

record rule_row =
  rr_link :: string
  rr_position :: nat
  rr_country :: "string option"
  rr_device :: "device_type option"
  rr_language :: "string option"
  rr_then :: string
  rr_weight :: "rat option"

record short_domain =
  sd_id :: string
  sd_name :: string
  sd_workspace :: "string option"
  sd_system :: bool
  sd_status :: string

record account_row =
  ac_id :: string
  ac_created :: int
  ac_lifted :: bool
  ac_redirect :: string

datatype link_outbox_op = OpUpsert string | OpDelete string | OpDomain string string

datatype link_activity =
    LinkCreated string string string string "string option" bool
  | LinkUpdated string string string string string
  | LinkDeleted string string

datatype cap_kind = CapHour | CapDay

record links_db =
  db_links :: "stored_link list"
  db_rules :: "rule_row list"
  db_domains :: "short_domain list"
  db_accounts :: "account_row list"
  db_blocked :: "string list"
  db_outbox :: "link_outbox_op list"
  db_activity :: "(string \<times> link_activity) list"
  db_refusals :: "(cap_kind \<times> string) list"
  db_busts :: "(string \<times> string) list"

record new_account_limits =
  na_window_days :: int
  na_per_day :: int
  na_per_hour :: int

record link_env =
  le_now :: int
  le_hostname :: "string \<Rightarrow> string option"
  le_lookup :: "string \<Rightarrow> (nat \<times> string) list option"
  le_scan :: "string \<Rightarrow> scan_status"
  le_hash :: "string \<Rightarrow> string"
  le_reserved :: "string list"
  le_limits :: new_account_limits

section \<open>The checks of a destination\<close>

definition known_shortener_hosts :: "string list" where
  "known_shortener_hosts =
     [''bit.ly'', ''bitly.com'', ''t.co'', ''tinyurl.com'', ''goo.gl'', ''ow.ly'', ''buff.ly'', ''is.gd'', ''rebrand.ly'',
      ''cutt.ly'', ''shorturl.at'', ''rb.gy'', ''t.ly'', ''bl.ink'', ''lnkd.in'', ''tiny.cc'', ''s.id'', ''short.io'',
      ''snip.ly'', ''v.gd'', ''trib.al'']"

datatype chain_match = SelfChain string | ShortenerChain string

definition match_redirect_chain :: "(string \<Rightarrow> string option) \<Rightarrow> string \<Rightarrow> string list \<Rightarrow> string list \<Rightarrow> chain_match option" where
  "match_redirect_chain hostname destination self_hosts shortener_hosts =
     (let host = destination_host hostname destination in
      if host = [] then None
      else case find (host_covered_by host) self_hosts of
          Some s \<Rightarrow> Some (SelfChain (normalise_block_host s))
        | None \<Rightarrow> map_option (ShortenerChain \<circ> normalise_block_host) (find (host_covered_by host) shortener_hosts))"

definition resolves_to_denied_address :: "link_env \<Rightarrow> string \<Rightarrow> bool" where
  "resolves_to_denied_address env url =
     (case le_hostname env url of
        None \<Rightarrow> False
      | Some host \<Rightarrow>
          is_denied_host host
          \<or> (case le_lookup env host of
               None \<Rightarrow> False
             | Some records \<Rightarrow> list_ex (\<lambda>(family, address). if family = 6 then is_denied_ipv6 address else is_denied_ipv4 address) records))"

definition ssrf_target :: "link_env \<Rightarrow> string option list \<Rightarrow> string option" where
  "ssrf_target env urls = find (resolves_to_denied_address env) (map the (filter truthy urls))"

datatype link_error =
    Problems "chain_problem list" "string list"
  | UnknownDomain string
  | DomainNotLive string
  | SlugShape slug_problem
  | OperatorReserved string
  | DeniedAddress string
  | BlockedHost string
  | ChainedHost chain_match
  | LinkCap cap_kind int
  | FlaggedUrl
  | SlugTaken string string
  | NoFreeSlug
  | NoSuchLink
  | WriteConflict

abbreviation social_image :: "social option \<Rightarrow> string option" where
  "social_image so \<equiv> Option.bind so so_image"

text \<open>The checks of a destination in the order \<open>insert\<close> runs them, up to the scan.\<close>

definition assert_destination :: "link_env \<Rightarrow> links_db \<Rightarrow> string \<Rightarrow> link_error option" where
  "assert_destination env db destination =
     (case match_blocked_domain (le_hostname env) destination (db_blocked db) of
        Some host \<Rightarrow> Some (BlockedHost host)
      | None \<Rightarrow> map_option ChainedHost
          (match_redirect_chain (le_hostname env) destination (map sd_name (db_domains db)) known_shortener_hosts))"

section \<open>The cap of a new account\<close>

definition links_since :: "links_db \<Rightarrow> string \<Rightarrow> int \<Rightarrow> int" where
  "links_since db ws since =
     int (length (filter (\<lambda>l. sl_workspace l = ws \<and> \<not> sl_managed l \<and> since \<le> sl_created_at l) (db_links db)))"

definition new_account_link_cap :: "link_env \<Rightarrow> string \<Rightarrow> links_db \<Rightarrow> (cap_kind \<times> int) option" where
  "new_account_link_cap env ws db =
     (let lim = le_limits env in
      if na_window_days lim \<le> 0 then None
      else case find (\<lambda>a. ac_id a = ws) (db_accounts db) of
          None \<Rightarrow> None
        | Some a \<Rightarrow>
            if ac_lifted a then None
            else if na_window_days lim * 86400000 \<le> le_now env - ac_created a then None
            else if na_per_hour lim \<le> links_since db ws (le_now env - 3600000) then Some (CapHour, na_per_hour lim)
            else if na_per_day lim \<le> links_since db ws (le_now env - 86400000) then Some (CapDay, na_per_day lim)
            else None)"

section \<open>Domains, rules and rows\<close>

definition resolve_domain :: "string \<Rightarrow> string \<Rightarrow> links_db \<Rightarrow> link_error + short_domain" where
  "resolve_domain ws name db =
     (case find (\<lambda>d. js_lower (sd_name d) = js_lower name \<and> (sd_workspace d = Some ws \<or> sd_system d)) (db_domains db) of
        None \<Rightarrow> Inl (UnknownDomain name)
      | Some d \<Rightarrow> if sd_status d \<noteq> ''live'' then Inl (DomainNotLive name) else Inr d)"

definition default_redirect_for :: "string \<Rightarrow> links_db \<Rightarrow> redirect_type" where
  "default_redirect_for ws db =
     (case map_option ac_redirect (find (\<lambda>a. ac_id a = ws) (db_accounts db)) of
        Some t \<Rightarrow> if t = ''301'' then R301 else if t = ''307'' then R307 else R302
      | None \<Rightarrow> R302)"

definition rule_rows :: "string \<Rightarrow> routing_rule list \<Rightarrow> rule_row list" where
  "rule_rows link rules =
     map (\<lambda>(position, r).
       \<lparr> rr_link = link, rr_position = position, rr_country = map_option js_upper (w_country (rule_when r)),
         rr_device = w_device (rule_when r), rr_language = map_option js_lower (w_language (rule_when r)),
         rr_then = rule_then r, rr_weight = rule_weight r \<rparr>) (enumerate 0 rules)"

definition new_link_row :: "string \<Rightarrow> string \<Rightarrow> string option \<Rightarrow> string \<Rightarrow> string \<Rightarrow> create_input \<Rightarrow> redirect_type
    \<Rightarrow> string option \<Rightarrow> scan_status \<Rightarrow> int \<Rightarrow> stored_link" where
  "new_link_row i ws user domain slug input redirect hash scan now =
     \<lparr> sl_id = i, sl_workspace = ws, sl_domain = domain, sl_slug = slug, sl_destination = ci_destination input,
       sl_comment = ci_comment input, sl_tags = ci_tags input, sl_folder = ci_folder input, sl_redirect = redirect,
       sl_expires = as_date (ci_expires input), sl_expires_to = ci_expires_to input,
       sl_activates = as_date (ci_activates input), sl_scheduled_to = ci_scheduled_to input, sl_limit = ci_limit input,
       sl_password = hash, sl_forward = ci_forward input, sl_deep = ci_deep input, sl_hide = ci_hide input,
       sl_preview = ci_preview input, sl_scan = scan, sl_scanned_at = now, sl_utm = ci_utm input,
       sl_social = ci_social input, sl_created_by = user, sl_created_at = now, sl_archived_at = None, sl_managed = False \<rparr>"

text \<open>The unique index on the domain and the lower-cased back-half.\<close>

definition slug_key :: "stored_link \<Rightarrow> string \<times> string" where
  "slug_key l = (sl_domain l, js_lower (sl_slug l))"

definition slug_in_use :: "string \<Rightarrow> string \<Rightarrow> links_db \<Rightarrow> bool" where
  "slug_in_use domain slug db = list_ex (\<lambda>l. slug_key l = (domain, js_lower slug)) (db_links db)"

definition add_link :: "stored_link \<Rightarrow> routing_rule list \<Rightarrow> links_db \<Rightarrow> links_db" where
  "add_link l rules db =
     db\<lparr> db_links := db_links db @ [l], db_rules := db_rules db @ rule_rows (sl_id l) rules,
         db_outbox := db_outbox db @ [OpUpsert (sl_id l)] \<rparr>"

definition log_activity :: "string \<Rightarrow> link_activity \<Rightarrow> links_db \<Rightarrow> links_db" where
  "log_activity ws a db = db\<lparr> db_activity := db_activity db @ [(ws, a)] \<rparr>"

section \<open>Creating and cloning\<close>

text \<open>One transaction a back-half: a violation of the unique index tries the next one that was drawn.\<close>

fun try_slugs :: "string \<Rightarrow> (string \<Rightarrow> stored_link) \<Rightarrow> routing_rule list \<Rightarrow> string list \<Rightarrow> links_db \<Rightarrow> stored_link option \<times> links_db" where
  "try_slugs domain row rules [] db = (None, db)"
| "try_slugs domain row rules (s # slugs) db =
     (if slug_in_use domain s db then try_slugs domain row rules slugs db else (Some (row s), add_link (row s) rules db))"

definition creation_problems :: "link_env \<Rightarrow> create_input \<Rightarrow> chain_problem list \<times> string list" where
  "creation_problems env input =
     (validate_routing_chain (ci_rules input),
      validate_schedule (ci_activates input) (ci_expires input) @ validate_expiry (ci_expires input) (le_now env) NoDate None)"

definition slug_refusal :: "link_env \<Rightarrow> string option \<Rightarrow> link_error option" where
  "slug_refusal env slug =
     (if \<not> truthy slug then None
      else case is_slug_available_shape (the slug) of
          Some p \<Rightarrow> Some (SlugShape p)
        | None \<Rightarrow> if list_ex (\<lambda>s. js_lower s = js_lower (the slug)) (le_reserved env) then Some (OperatorReserved (the slug)) else None)"

definition or_error :: "'e option \<Rightarrow> ('e + 'a) \<Rightarrow> 'e + 'a" where
  "or_error e r = (case e of Some x \<Rightarrow> Inl x | None \<Rightarrow> r)"

text \<open>Every refusal before the cap, in the code's order; an answer is the domain.\<close>

definition insert_checks :: "link_env \<Rightarrow> string \<Rightarrow> create_input \<Rightarrow> links_db \<Rightarrow> link_error + short_domain" where
  "insert_checks env ws input db =
     (case resolve_domain ws (ci_domain input) db of
        Inl e \<Rightarrow> Inl e
      | Inr d \<Rightarrow>
          let (chain, other) = creation_problems env input in
          or_error (if chain = [] \<and> other = [] then None else Some (Problems chain other))
            (or_error (slug_refusal env (ci_slug input))
              (or_error (map_option DeniedAddress (ssrf_target env [Some (ci_destination input), social_image (ci_social input)]))
                (or_error (assert_destination env db (ci_destination input)) (Inr d)))))"

definition insert_link :: "link_env \<Rightarrow> string \<Rightarrow> string option \<Rightarrow> create_input \<Rightarrow> string option \<Rightarrow> string option \<Rightarrow> string list
    \<Rightarrow> string \<Rightarrow> links_db \<Rightarrow> (link_error + stored_link) \<times> links_db" where
  "insert_link env ws user input hash cloned_from draws new_id db =
     (case insert_checks env ws input db of
        Inl e \<Rightarrow> (Inl e, db)
      | Inr d \<Rightarrow>
          case new_account_link_cap env ws db of
            Some (kind, n) \<Rightarrow> (Inl (LinkCap kind n), db\<lparr> db_refusals := db_refusals db @ [(kind, ws)] \<rparr>)
          | None \<Rightarrow>
              let scan = le_scan env (ci_destination input) in
              if scan = ScanFlagged then (Inl FlaggedUrl, db)
              else
                let redirect = or_else (ci_redirect input) (default_redirect_for ws db);
                    slugs = (if truthy (ci_slug input) then [the (ci_slug input)] else take slug_retry_limit draws);
                    row = (\<lambda>s. new_link_row new_id ws user (sd_id d) s input redirect hash scan (le_now env))
                in case try_slugs (sd_id d) row (ci_rules input) slugs db of
                    (None, db') \<Rightarrow> (Inl (if truthy (ci_slug input) then SlugTaken (ci_domain input) (the (ci_slug input)) else NoFreeSlug), db')
                  | (Some l, db') \<Rightarrow>
                      (Inr l, log_activity ws (LinkCreated new_id (sl_slug l) (sd_name d) (sl_destination l) cloned_from False) db'))"

definition create_link :: "link_env \<Rightarrow> string \<Rightarrow> string option \<Rightarrow> create_input \<Rightarrow> string list \<Rightarrow> string \<Rightarrow> links_db
    \<Rightarrow> (link_error + stored_link) \<times> links_db" where
  "create_link env ws user input draws new_id db =
     insert_link env ws user input (if truthy (ci_password input) then Some (le_hash env (the (ci_password input))) else None) None
       draws new_id db"

definition get_link :: "string \<Rightarrow> string \<Rightarrow> links_db \<Rightarrow> stored_link option" where
  "get_link ws i db = find (\<lambda>l. sl_id l = i \<and> sl_workspace l = ws \<and> \<not> sl_managed l) (db_links db)"

definition rules_of :: "string \<Rightarrow> links_db \<Rightarrow> routing_rule list" where
  "rules_of i db =
     map (\<lambda>r. \<lparr> rule_id = [], rule_when = \<lparr> w_country = rr_country r, w_device = rr_device r, w_language = rr_language r \<rparr>,
        rule_then = rr_then r, rule_weight = rr_weight r \<rparr>) (sort_key rr_position (filter (\<lambda>r. rr_link r = i) (db_rules db)))"

definition iso_date :: "int option \<Rightarrow> date_input" where
  "iso_date t = (case t of None \<Rightarrow> NoDate | Some v \<Rightarrow> DateText (to_iso v))"

definition domain_name :: "links_db \<Rightarrow> string \<Rightarrow> string" where
  "domain_name db d = (case find (\<lambda>r. sd_id r = d) (db_domains db) of None \<Rightarrow> [] | Some r \<Rightarrow> sd_name r)"

record clone_input =
  cl_slug :: "string option"
  cl_domain :: "string option"
  cl_password :: "string option option"
  cl_expires :: "date_input option"

definition cloned_input :: "links_db \<Rightarrow> stored_link \<Rightarrow> clone_input \<Rightarrow> create_input" where
  "cloned_input db source input =
     \<lparr> ci_destination = sl_destination source, ci_domain = or_else (cl_domain input) (domain_name db (sl_domain source)),
       ci_slug = (if truthy (cl_slug input) then cl_slug input else None), ci_tags = sl_tags source,
       ci_folder = sl_folder source, ci_comment = sl_comment source, ci_redirect = Some (sl_redirect source),
       ci_rules = rules_of (sl_id source) db, ci_expires = or_else (cl_expires input) (iso_date (sl_expires source)),
       ci_expires_to = sl_expires_to source, ci_activates = iso_date (sl_activates source),
       ci_scheduled_to = sl_scheduled_to source, ci_limit = sl_limit source, ci_password = None,
       ci_forward = sl_forward source, ci_deep = sl_deep source, ci_hide = sl_hide source, ci_preview = sl_preview source,
       ci_utm = sl_utm source, ci_social = sl_social source \<rparr>"

definition clone_link :: "link_env \<Rightarrow> string \<Rightarrow> string option \<Rightarrow> string \<Rightarrow> clone_input \<Rightarrow> string list \<Rightarrow> string \<Rightarrow> links_db
    \<Rightarrow> (link_error + stored_link) \<times> links_db" where
  "clone_link env ws user i input draws new_id db =
     (case get_link ws i db of
        None \<Rightarrow> (Inl NoSuchLink, db)
      | Some source \<Rightarrow>
          let hash = (case cl_password input of None \<Rightarrow> sl_password source | Some p \<Rightarrow> map_option (le_hash env) p)
          in insert_link env ws user (cloned_input db source input) hash (Some i) draws new_id db)"

section \<open>Editing and deleting\<close>

definition update_problems :: "link_env \<Rightarrow> stored_link \<Rightarrow> update_input \<Rightarrow> chain_problem list \<times> string list" where
  "update_problems env l input =
     (case ui_rules input of None \<Rightarrow> [] | Some rules \<Rightarrow> validate_routing_chain rules,
      validate_schedule (or_else (ui_activates input) (iso_date (sl_activates l))) (or_else (ui_expires input) (iso_date (sl_expires l)))
      @ (case ui_expires input of
           None \<Rightarrow> []
         | Some e \<Rightarrow> validate_expiry e (le_now env) (iso_date (sl_expires l)) (Some expiry_skew_tolerance_ms)))"

definition update_checks :: "link_env \<Rightarrow> stored_link \<Rightarrow> update_input \<Rightarrow> links_db \<Rightarrow> link_error option" where
  "update_checks env l input db =
     (let (chain, other) = update_problems env l input in
      if chain \<noteq> [] \<or> other \<noteq> [] then Some (Problems chain other)
      else case ssrf_target env [ui_destination input, social_image (ui_social input)] of
          Some url \<Rightarrow> Some (DeniedAddress url)
        | None \<Rightarrow>
            case ui_destination input of
              None \<Rightarrow> None
            | Some d \<Rightarrow>
                case assert_destination env db d of
                  Some e \<Rightarrow> Some e
                | None \<Rightarrow> if le_scan env d = ScanFlagged then Some FlaggedUrl else None)"

definition patch_link :: "link_env \<Rightarrow> update_input \<Rightarrow> stored_link \<Rightarrow> stored_link" where
  "patch_link env input l =
     l\<lparr> sl_destination := or_else (ui_destination input) (sl_destination l),
        sl_scan := (case ui_destination input of None \<Rightarrow> sl_scan l | Some d \<Rightarrow> le_scan env d),
        sl_scanned_at := (case ui_destination input of None \<Rightarrow> sl_scanned_at l | Some d \<Rightarrow> le_now env),
        sl_comment := (case ui_comment input of None \<Rightarrow> sl_comment l | Some c \<Rightarrow> Some c),
        sl_tags := or_else (ui_tags input) (sl_tags l),
        sl_folder := (case ui_folder input of None \<Rightarrow> sl_folder l | Some f \<Rightarrow> Some f),
        sl_redirect := or_else (ui_redirect input) (sl_redirect l),
        sl_expires := (case ui_expires input of None \<Rightarrow> sl_expires l | Some e \<Rightarrow> as_date e),
        sl_expires_to := or_else (ui_expires_to input) (sl_expires_to l),
        sl_activates := (case ui_activates input of None \<Rightarrow> sl_activates l | Some a \<Rightarrow> as_date a),
        sl_scheduled_to := or_else (ui_scheduled_to input) (sl_scheduled_to l),
        sl_limit := or_else (ui_limit input) (sl_limit l),
        sl_forward := or_else (ui_forward input) (sl_forward l),
        sl_deep := or_else (ui_deep input) (sl_deep l),
        sl_hide := or_else (ui_hide input) (sl_hide l),
        sl_preview := or_else (ui_preview input) (sl_preview l),
        sl_utm := (case ui_utm input of None \<Rightarrow> sl_utm l | Some u \<Rightarrow> Some u),
        sl_social := (case ui_social input of None \<Rightarrow> sl_social l | Some s \<Rightarrow> Some s),
        sl_password := (case ui_password input of None \<Rightarrow> sl_password l
          | Some p \<Rightarrow> if truthy p then Some (le_hash env (the p)) else None),
        sl_archived_at := (case ui_archived input of None \<Rightarrow> sl_archived_at l | Some True \<Rightarrow> Some (le_now env) | Some False \<Rightarrow> None) \<rparr>"

definition update_link :: "link_env \<Rightarrow> string \<Rightarrow> string \<Rightarrow> update_input \<Rightarrow> links_db \<Rightarrow> (link_error + stored_link) \<times> links_db" where
  "update_link env ws i input db =
     (case get_link ws i db of
        None \<Rightarrow> (Inl NoSuchLink, db)
      | Some l \<Rightarrow>
          case update_checks env l input db of
            Some e \<Rightarrow> (Inl e, db)
          | None \<Rightarrow>
              let updated = patch_link env input l;
                  db1 = db\<lparr> db_links := map (\<lambda>x. if sl_id x = i \<and> sl_workspace x = ws then patch_link env input x else x) (db_links db),
                    db_rules := (case ui_rules input of None \<Rightarrow> db_rules db
                      | Some rules \<Rightarrow> filter (\<lambda>r. rr_link r \<noteq> i) (db_rules db) @ rule_rows i rules),
                    db_outbox := db_outbox db @ [OpUpsert i] \<rparr>
              in (Inr updated,
                  log_activity ws (LinkUpdated i (sl_slug updated) (domain_name db (sl_domain updated)) (sl_destination l)
                    (sl_destination updated)) db1))"

text \<open>The handler of \<open>PATCH /links/:id\<close>.\<close>

definition patch_request :: "link_env \<Rightarrow> string \<Rightarrow> string \<Rightarrow> update_input \<Rightarrow> links_db \<Rightarrow> (link_error + stored_link) \<times> links_db" where
  "patch_request env ws i body db = update_link env ws i (parse_update body) db"

text \<open>The rules go with their link (\<open>on delete cascade\<close>).\<close>

definition remove_link :: "string \<Rightarrow> string \<Rightarrow> links_db \<Rightarrow> link_error option \<times> links_db" where
  "remove_link ws i db =
     (case get_link ws i db of
        None \<Rightarrow> (Some NoSuchLink, db)
      | Some l \<Rightarrow>
          let host = domain_name db (sl_domain l);
              db1 = db\<lparr> db_outbox := db_outbox db @ [OpDelete i, OpDomain (sl_domain l) host],
                db_links := filter (\<lambda>x. sl_id x \<noteq> i) (db_links db),
                db_rules := filter (\<lambda>r. rr_link r \<noteq> i) (db_rules db),
                db_busts := db_busts db @ [(host, sl_slug l)] \<rparr>
          in (None, log_activity ws (LinkDeleted i (sl_slug l)) db1))"

section \<open>Bulk creation\<close>

datatype bulk_problem =
    ParseProblem string
  | ChainProblem chain_problem
  | TextProblem string
  | RowRefused link_error
  | SameBatch nat

text \<open>A row that a schema accepts, or its message.\<close>

type_synonym bulk_row = "string + create_input"

record prepared_row =
  pr_index :: nat
  pr_link :: create_input
  pr_domain_id :: string
  pr_domain_name :: string
  pr_slug :: string
  pr_generated :: bool
  pr_hash :: "string option"
  pr_scan :: scan_status

definition row_problems :: "link_env \<Rightarrow> string \<Rightarrow> create_input \<Rightarrow> links_db \<Rightarrow> bulk_problem list" where
  "row_problems env ws row db =
     (let (chain, other) = creation_problems env row in
      map ChainProblem chain @ map TextProblem other
      @ (if truthy (ci_slug row) then (case is_slug_available_shape (the (ci_slug row)) of None \<Rightarrow> [] | Some p \<Rightarrow> [RowRefused (SlugShape p)]) else [])
      @ (case match_blocked_domain (le_hostname env) (ci_destination row) (db_blocked db) of None \<Rightarrow> [] | Some h \<Rightarrow> [RowRefused (BlockedHost h)])
      @ (case match_redirect_chain (le_hostname env) (ci_destination row) (map sd_name (db_domains db)) known_shortener_hosts of
           None \<Rightarrow> [] | Some m \<Rightarrow> [RowRefused (ChainedHost m)])
      @ map (RowRefused \<circ> DeniedAddress)
          (filter (resolves_to_denied_address env) (map the (filter truthy [Some (ci_destination row), social_image (ci_social row)])))
      @ (case resolve_domain ws (ci_domain row) db of Inl e \<Rightarrow> [RowRefused e] | Inr _ \<Rightarrow> []))"

text \<open>\<open>draw k\<close> is the back-half drawn for the row on its \<open>k\<close>-th draw.\<close>

definition prepare_row :: "link_env \<Rightarrow> string \<Rightarrow> links_db \<Rightarrow> (nat \<Rightarrow> nat \<Rightarrow> string) \<Rightarrow> nat \<Rightarrow> bulk_row \<Rightarrow> bulk_problem list + prepared_row" where
  "prepare_row env ws db draw index raw =
     (case raw of
        Inl message \<Rightarrow> Inl [ParseProblem message]
      | Inr row \<Rightarrow>
          let problems = row_problems env ws row db in
          if problems \<noteq> [] then Inl problems
          else if le_scan env (ci_destination row) = ScanFlagged then Inl [RowRefused FlaggedUrl]
          else case resolve_domain ws (ci_domain row) db of
              Inl e \<Rightarrow> Inl [RowRefused e]
            | Inr d \<Rightarrow> Inr
                \<lparr> pr_index = index, pr_link = row, pr_domain_id = sd_id d, pr_domain_name = sd_name d,
                  pr_slug = (if truthy (ci_slug row) then the (ci_slug row) else draw index 0),
                  pr_generated = (\<not> truthy (ci_slug row)),
                  pr_hash = (if truthy (ci_password row) then Some (le_hash env (the (ci_password row))) else None),
                  pr_scan = le_scan env (ci_destination row) \<rparr>)"

definition prepared_key :: "prepared_row \<Rightarrow> string \<times> string" where
  "prepared_key p = (pr_domain_id p, js_lower (pr_slug p))"

text \<open>Two rows of one batch that ask for the same back-half: the later one is told about the first.\<close>

fun same_batch :: "((string \<times> string) \<times> nat) list \<Rightarrow> prepared_row list \<Rightarrow> (nat \<times> bulk_problem list) list" where
  "same_batch seen [] = []"
| "same_batch seen (p # ps) =
     (if pr_generated p then same_batch seen ps
      else case map_of seen (prepared_key p) of
          Some first \<Rightarrow> (pr_index p, [SameBatch first]) # same_batch seen ps
        | None \<Rightarrow> same_batch ((prepared_key p, pr_index p) # seen) ps)"

text \<open>
  Up to \<open>passes\<close> looks at the table: a taken back-half is drawn again when it was drawn, and skips the row
  when it was asked for. The rows still standing and the skipped ones.
\<close>

fun settle_slugs :: "links_db \<Rightarrow> (nat \<Rightarrow> nat \<Rightarrow> string) \<Rightarrow> nat \<Rightarrow> nat \<Rightarrow> prepared_row list \<Rightarrow> prepared_row list \<Rightarrow> prepared_row list \<times> prepared_row list" where
  "settle_slugs db draw k 0 standing skipped = (standing, skipped)"
| "settle_slugs db draw k (Suc passes) standing skipped =
     (let in_use = (\<lambda>p. slug_in_use (pr_domain_id p) (pr_slug p) db) in
      if standing = [] \<or> \<not> list_ex in_use standing then (standing, skipped)
      else
        let skipped' = skipped @ filter (\<lambda>p. in_use p \<and> \<not> pr_generated p) standing;
            standing' = map (\<lambda>p. if in_use p then p\<lparr>pr_slug := draw (pr_index p) k\<rparr> else p)
              (filter (\<lambda>p. \<not> in_use p \<or> pr_generated p) standing)
        in if list_ex (\<lambda>p. in_use p \<and> pr_generated p) standing then settle_slugs db draw (Suc k) passes standing' skipped'
           else (standing', skipped'))"

datatype bulk_outcome = BulkMade string | BulkSkipped | BulkFailed "bulk_problem list" | BulkHole

record bulk_result =
  br_created :: nat
  br_skipped :: nat
  br_failed :: nat
  br_results :: "bulk_outcome list"

fun add_links :: "(stored_link \<times> routing_rule list) list \<Rightarrow> links_db \<Rightarrow> links_db" where
  "add_links [] db = db"
| "add_links ((l, rules) # rows) db = add_links rows (add_link l rules db)"

definition bulk_phase_one :: "link_env \<Rightarrow> string \<Rightarrow> links_db \<Rightarrow> (nat \<Rightarrow> nat \<Rightarrow> string) \<Rightarrow> bulk_row list
    \<Rightarrow> (nat \<times> (bulk_problem list + prepared_row)) list" where
  "bulk_phase_one env ws db draw rows = map (\<lambda>(index, raw). (index, prepare_row env ws db draw index raw)) (enumerate 0 rows)"

fun bulk_prepared :: "(nat \<times> (bulk_problem list + prepared_row)) list \<Rightarrow> prepared_row list" where
  "bulk_prepared [] = []"
| "bulk_prepared ((i, Inl e) # rs) = bulk_prepared rs"
| "bulk_prepared ((i, Inr p) # rs) = p # bulk_prepared rs"

fun bulk_refused :: "(nat \<times> (bulk_problem list + prepared_row)) list \<Rightarrow> (nat \<times> bulk_problem list) list" where
  "bulk_refused [] = []"
| "bulk_refused ((i, Inl e) # rs) = (i, e) # bulk_refused rs"
| "bulk_refused ((i, Inr p) # rs) = bulk_refused rs"

definition bulk_errors :: "(nat \<times> (bulk_problem list + prepared_row)) list \<Rightarrow> (nat \<times> bulk_problem list) list" where
  "bulk_errors rs = bulk_refused rs @ same_batch [] (bulk_prepared rs)"

text \<open>The rows to insert and the skipped ones.\<close>

definition bulk_settled :: "links_db \<Rightarrow> (nat \<Rightarrow> nat \<Rightarrow> string) \<Rightarrow> (nat \<times> (bulk_problem list + prepared_row)) list
    \<Rightarrow> prepared_row list \<times> prepared_row list" where
  "bulk_settled db draw rs =
     settle_slugs db draw 1 slug_retry_limit (filter (\<lambda>p. pr_index p \<notin> fst ` set (bulk_errors rs)) (bulk_prepared rs)) []"

definition bulk_link :: "link_env \<Rightarrow> string \<Rightarrow> string option \<Rightarrow> links_db \<Rightarrow> (nat \<Rightarrow> string) \<Rightarrow> prepared_row \<Rightarrow> stored_link" where
  "bulk_link env ws user db new_id p =
     new_link_row (new_id (pr_index p)) ws user (pr_domain_id p) (pr_slug p) (pr_link p)
       (or_else (ci_redirect (pr_link p)) (default_redirect_for ws db)) (pr_hash p) (pr_scan p) (le_now env)"

definition bulk_outcome_of :: "(nat \<Rightarrow> string) \<Rightarrow> (nat \<times> bulk_problem list) list \<Rightarrow> nat set \<Rightarrow> nat set \<Rightarrow> nat \<Rightarrow> bulk_outcome" where
  "bulk_outcome_of new_id errors skipped made i =
     (case map_of errors i of
        Some e \<Rightarrow> BulkFailed e
      | None \<Rightarrow> if i \<in> skipped then BulkSkipped else if i \<in> made then BulkMade (new_id i) else BulkHole)"

definition bulk_create :: "link_env \<Rightarrow> string \<Rightarrow> string option \<Rightarrow> bulk_row list \<Rightarrow> (nat \<Rightarrow> nat \<Rightarrow> string) \<Rightarrow> (nat \<Rightarrow> string) \<Rightarrow> links_db
    \<Rightarrow> (link_error + bulk_result) \<times> links_db" where
  "bulk_create env ws user rows draw new_id db =
     (case new_account_link_cap env ws db of
        Some (kind, n) \<Rightarrow> (Inl (LinkCap kind n), db\<lparr> db_refusals := db_refusals db @ [(kind, ws)] \<rparr>)
      | None \<Rightarrow>
          let rs = bulk_phase_one env ws db draw rows;
              errors = bulk_errors rs;
              (to_insert, skipped) = bulk_settled db draw rs;
              links = map (bulk_link env ws user db new_id) to_insert
          in if \<not> distinct (map slug_key links) \<or> list_ex (\<lambda>l. slug_in_use (sl_domain l) (sl_slug l) db) links
             then (Inl WriteConflict, db)
             else
               let db1 = add_links (map (\<lambda>p. (bulk_link env ws user db new_id p, ci_rules (pr_link p))) to_insert) db;
                   db2 = db1\<lparr> db_activity := db_activity db1 @
                     map (\<lambda>p. (ws, LinkCreated (new_id (pr_index p)) (pr_slug p) (pr_domain_name p) (ci_destination (pr_link p)) None True)) to_insert \<rparr>
               in (Inr \<lparr> br_created = length links, br_skipped = length skipped, br_failed = length errors,
                     br_results = map (bulk_outcome_of new_id errors (pr_index ` set skipped) (pr_index ` set to_insert))
                       [0..<length rows] \<rparr>, db2))"

section \<open>Requests\<close>

datatype link_op =
    CreateOp "string option" create_input "string list" string
  | CloneOp "string option" string clone_input "string list" string
  | PatchOp string update_input
  | RemoveOp string
  | BulkOp "string option" "bulk_row list" "nat \<Rightarrow> nat \<Rightarrow> string" "nat \<Rightarrow> string"

fun run_link_op :: "link_env \<Rightarrow> string \<Rightarrow> link_op \<Rightarrow> links_db \<Rightarrow> links_db" where
  "run_link_op env ws (CreateOp user input draws new_id) db = snd (create_link env ws user input draws new_id db)"
| "run_link_op env ws (CloneOp user i input draws new_id) db = snd (clone_link env ws user i input draws new_id db)"
| "run_link_op env ws (PatchOp i body) db = snd (patch_request env ws i body db)"
| "run_link_op env ws (RemoveOp i) db = snd (remove_link ws i db)"
| "run_link_op env ws (BulkOp user rows draw new_id) db = snd (bulk_create env ws user rows draw new_id db)"

fun run_link_ops :: "(link_env \<times> string \<times> link_op) list \<Rightarrow> links_db \<Rightarrow> links_db" where
  "run_link_ops [] db = db"
| "run_link_ops ((env, ws, r) # rs) db = run_link_ops rs (run_link_op env ws r db)"

text \<open>Everything a destination has passed when it is written.\<close>

definition vetted :: "link_env \<Rightarrow> links_db \<Rightarrow> string \<Rightarrow> bool" where
  "vetted env db d =
     (match_blocked_domain (le_hostname env) d (db_blocked db) = None
      \<and> match_redirect_chain (le_hostname env) d (map sd_name (db_domains db)) known_shortener_hosts = None
      \<and> (d \<noteq> [] \<longrightarrow> \<not> resolves_to_denied_address env d)
      \<and> le_scan env d \<noteq> ScanFlagged)"

definition usable_domain :: "links_db \<Rightarrow> string \<Rightarrow> string \<Rightarrow> bool" where
  "usable_domain db ws i = (\<exists>d \<in> set (db_domains db). sd_id d = i \<and> sd_status d = ''live'' \<and> (sd_workspace d = Some ws \<or> sd_system d))"

definition admissible :: "link_env \<Rightarrow> string \<Rightarrow> links_db \<Rightarrow> stored_link \<Rightarrow> bool" where
  "admissible env ws db l =
     (sl_workspace l = ws \<and> \<not> sl_managed l \<and> sl_created_at l = le_now env \<and> usable_domain db ws (sl_domain l)
      \<and> vetted env db (sl_destination l) \<and> (\<forall>e. sl_expires l = Some e \<longrightarrow> le_now env < e))"

text \<open>What creating does to the tables, one link or many.\<close>

definition adds :: "link_env \<Rightarrow> string \<Rightarrow> links_db \<Rightarrow> (stored_link \<times> routing_rule list) list \<Rightarrow> links_db \<Rightarrow> bool" where
  "adds env ws db new db' =
     (db_links db' = db_links db @ map fst new
      \<and> db_rules db' = db_rules db @ concat (map (\<lambda>(l, rules). rule_rows (sl_id l) rules) new)
      \<and> db_outbox db' = db_outbox db @ map (\<lambda>(l, _). OpUpsert (sl_id l)) new
      \<and> distinct (map (slug_key \<circ> fst) new)
      \<and> (\<forall>l \<in> set (map fst new). \<not> slug_in_use (sl_domain l) (sl_slug l) db \<and> admissible env ws db l))"

lemma adds_nothing: "db_links db' = db_links db \<Longrightarrow> db_rules db' = db_rules db \<Longrightarrow> db_outbox db' = db_outbox db \<Longrightarrow> adds env ws db [] db'"
  by (simp add: adds_def)

lemma slug_in_use_iff: "slug_in_use d s db \<longleftrightarrow> (d, js_lower s) \<in> slug_key ` set (db_links db)"
  unfolding slug_in_use_def list_ex_iff by (metis image_iff)

lemma resolve_domain_usable: "resolve_domain ws name db = Inr d \<Longrightarrow> usable_domain db ws (sd_id d)"
  by (auto simp: resolve_domain_def usable_domain_def find_Some_iff split: option.splits if_splits dest: nth_mem)

lemma expiry_ahead: "validate_expiry x now NoDate None = [] \<Longrightarrow> as_date x = Some e \<Longrightarrow> now < e"
  by (auto simp: validate_expiry_def split: option.splits if_splits)

lemma ssrf_target_None: "ssrf_target env urls = None \<Longrightarrow> Some d \<in> set urls \<Longrightarrow> d \<noteq> [] \<Longrightarrow> \<not> resolves_to_denied_address env d"
  by (force simp: ssrf_target_def find_None_iff)

lemma assert_destination_None:
  "assert_destination env db d = None \<longleftrightarrow> match_blocked_domain (le_hostname env) d (db_blocked db) = None
     \<and> match_redirect_chain (le_hostname env) d (map sd_name (db_domains db)) known_shortener_hosts = None"
  by (auto simp: assert_destination_def split: option.splits)

lemma insert_checks_Inr:
  assumes "insert_checks env ws input db = Inr d"
  shows "resolve_domain ws (ci_domain input) db = Inr d" "assert_destination env db (ci_destination input) = None"
    "ci_destination input \<noteq> [] \<Longrightarrow> \<not> resolves_to_denied_address env (ci_destination input)"
    "validate_expiry (ci_expires input) (le_now env) NoDate None = []" "slug_refusal env (ci_slug input) = None"
    "validate_routing_chain (ci_rules input) = []"
  using assms ssrf_target_None [of env "[Some (ci_destination input), social_image (ci_social input)]" "ci_destination input"]
  by (auto simp: insert_checks_def creation_problems_def or_error_def split: sum.splits option.splits if_splits)

lemma try_slugs_cases:
  "try_slugs domain row rules slugs db = (r, db') \<Longrightarrow>
     (r = None \<and> db' = db) \<or> (\<exists>s \<in> set slugs. r = Some (row s) \<and> \<not> slug_in_use domain s db \<and> db' = add_link (row s) rules db)"
  by (induction slugs) (auto split: if_splits)

lemma insert_adds:
  assumes "insert_link env ws user input hash from draws new_id db = (r, db')"
  shows "(\<exists>e. r = Inl e \<and> adds env ws db [] db') \<or> (\<exists>l. r = Inr l \<and> sl_id l = new_id \<and> adds env ws db [(l, ci_rules input)] db')"
proof (cases "insert_checks env ws input db")
  case (Inl e)
  then show ?thesis using assms by (auto simp: insert_link_def adds_nothing)
next
  case (Inr d)
  note c = insert_checks_Inr [OF Inr]
  show ?thesis
  proof (cases "new_account_link_cap env ws db")
    case (Some k)
    then show ?thesis using assms Inr by (cases k) (auto simp: insert_link_def adds_nothing)
  next
    case None
    show ?thesis
    proof (cases "le_scan env (ci_destination input) = ScanFlagged")
      case True then show ?thesis using assms Inr None by (auto simp: insert_link_def adds_nothing)
    next
      case False
      define row where "row = (\<lambda>s. new_link_row new_id ws user (sd_id d) s input (or_else (ci_redirect input) (default_redirect_for ws db)) hash
        (le_scan env (ci_destination input)) (le_now env))"
      define slugs where "slugs = (if truthy (ci_slug input) then [the (ci_slug input)] else take slug_retry_limit draws)"
      obtain x dbx where t: "try_slugs (sd_id d) row (ci_rules input) slugs db = (x, dbx)" by (cases "try_slugs (sd_id d) row (ci_rules input) slugs db")
      have ok: "admissible env ws db (row s)" for s
        using c False resolve_domain_usable [OF c(1)] expiry_ahead [OF c(4)]
        by (simp add: admissible_def vetted_def row_def new_link_row_def assert_destination_None)
      have ids: "sl_id (row s) = new_id" "sl_domain (row s) = sd_id d" "sl_slug (row s) = s" for s
        by (simp_all add: row_def new_link_row_def)
      have eq: "insert_link env ws user input hash from draws new_id db =
          (case (x, dbx) of
             (None, db') \<Rightarrow> (Inl (if truthy (ci_slug input) then SlugTaken (ci_domain input) (the (ci_slug input)) else NoFreeSlug), db')
           | (Some l, db') \<Rightarrow> (Inr l, log_activity ws (LinkCreated new_id (sl_slug l) (sd_name d) (sl_destination l) from False) db'))"
        unfolding t [symmetric] using Inr None False by (simp add: insert_link_def row_def [symmetric] slugs_def [symmetric] Let_def)
      from try_slugs_cases [OF t] show ?thesis
      proof
        assume "x = None \<and> dbx = db"
        then show ?thesis using assms unfolding eq by (auto simp: adds_nothing)
      next
        assume "\<exists>s \<in> set slugs. x = Some (row s) \<and> \<not> slug_in_use (sd_id d) s db \<and> dbx = add_link (row s) (ci_rules input) db"
        then obtain s where s: "x = Some (row s)" "\<not> slug_in_use (sd_id d) s db" "dbx = add_link (row s) (ci_rules input) db" by blast
        then have "adds env ws db [(row s, ci_rules input)] db'"
          using assms ok [of s] unfolding eq by (auto simp: adds_def log_activity_def add_link_def ids)
        then show ?thesis using assms s ids unfolding eq by auto
      qed
    qed
  qed
qed

section \<open>A batch\<close>

definition batch_row_ok :: "link_env \<Rightarrow> string \<Rightarrow> links_db \<Rightarrow> prepared_row \<Rightarrow> bool" where
  "batch_row_ok env ws db p =
     (usable_domain db ws (pr_domain_id p) \<and> vetted env db (ci_destination (pr_link p))
      \<and> validate_expiry (ci_expires (pr_link p)) (le_now env) NoDate None = [])"

lemma batch_row_ok_slug [simp]: "batch_row_ok env ws db (p\<lparr>pr_slug := s\<rparr>) = batch_row_ok env ws db p"
  by (simp add: batch_row_ok_def)

lemma row_problems_Nil:
  assumes "row_problems env ws row db = []"
  shows "vetted env db (ci_destination row) \<or> le_scan env (ci_destination row) = ScanFlagged"
    and "validate_expiry (ci_expires row) (le_now env) NoDate None = []"
  using assms by (auto simp: row_problems_def creation_problems_def vetted_def filter_empty_conv split: option.splits)

lemma prepare_row_Inr:
  assumes "prepare_row env ws db draw i raw = Inr p"
  shows "pr_index p = i" "batch_row_ok env ws db p"
  using assms row_problems_Nil resolve_domain_usable
  by (fastforce simp: prepare_row_def batch_row_ok_def Let_def split: sum.splits if_splits)+

lemma bulk_phase_one_indices: "map fst (bulk_phase_one env ws db draw rows) = [0..<length rows]"
  by (simp add: bulk_phase_one_def comp_def case_prod_unfold enumerate_eq_zip)

lemma bulk_phase_one_rows:
  "(i, Inr p) \<in> set (bulk_phase_one env ws db draw rows) \<Longrightarrow> pr_index p = i \<and> batch_row_ok env ws db p"
  using prepare_row_Inr by (force simp: bulk_phase_one_def)

lemma bulk_prepared_mem: "p \<in> set (bulk_prepared rs) \<longleftrightarrow> (\<exists>i. (i, Inr p) \<in> set rs)"
  by (induction rs rule: bulk_prepared.induct) auto

lemma bulk_split:
  "\<forall>i p. (i, Inr p) \<in> set rs \<longrightarrow> pr_index p = i \<Longrightarrow>
     mset (map fst (bulk_refused rs)) + mset (map pr_index (bulk_prepared rs)) = mset (map fst rs)"
proof (induction rs rule: bulk_refused.induct)
  case (2 i e rs)
  have "\<forall>i p. (i, Inr p) \<in> set rs \<longrightarrow> pr_index p = i" using 2(2) by (meson list.set_intros(2))
  from 2(1) [OF this] show ?case by (simp only: bulk_refused.simps bulk_prepared.simps list.map mset.simps fst_conv union_mset_add_mset_left)
next
  case (3 i p rs)
  have "\<forall>i p. (i, Inr p) \<in> set rs \<longrightarrow> pr_index p = i" using 3(2) by (meson list.set_intros(2))
  note eq = 3(1) [OF this]
  have "pr_index p = i" using 3(2) by (meson list.set_intros(1))
  then show ?case using eq
    by (simp only: bulk_refused.simps bulk_prepared.simps list.map mset.simps fst_conv union_mset_add_mset_right)
qed simp

lemma same_batch_indices: "fst ` set (same_batch seen ps) \<subseteq> pr_index ` set ps"
proof (induction ps arbitrary: seen)
  case (Cons p ps)
  then have "fst ` set (same_batch seen' ps) \<subseteq> pr_index ` set (p # ps)" for seen' by (auto dest: subsetD)
  then show ?case by (simp split: option.split)
qed simp

lemma same_batch_distinct: "distinct (map pr_index ps) \<Longrightarrow> distinct (map fst (same_batch seen ps))"
proof (induction ps arbitrary: seen)
  case (Cons p ps)
  then have "distinct (map fst (same_batch seen' ps))" "pr_index p \<notin> fst ` set (same_batch seen' ps)" for seen'
    using same_batch_indices [of seen' ps] by auto
  then show ?case by (simp split: option.split)
qed simp

lemma settle_slugs_indices:
  "settle_slugs db draw k n standing skipped = (st, sk) \<Longrightarrow>
     mset (map pr_index st) + mset (map pr_index sk) = mset (map pr_index standing) + mset (map pr_index skipped)"
proof (induction n arbitrary: k standing skipped)
  case (Suc passes)
  define in_use :: "prepared_row \<Rightarrow> bool" where "in_use = (\<lambda>p. slug_in_use (pr_domain_id p) (pr_slug p) db)"
  define skipped' where "skipped' = skipped @ filter (\<lambda>p. in_use p \<and> \<not> pr_generated p) standing"
  define standing' where "standing' = map (\<lambda>p. if in_use p then p\<lparr>pr_slug := draw (pr_index p) k\<rparr> else p)
    (filter (\<lambda>p. \<not> in_use p \<or> pr_generated p) standing)"
  have part: "mset (map pr_index standing') + mset (map pr_index skipped') = mset (map pr_index standing) + mset (map pr_index skipped)"
  proof -
    have "map pr_index standing' = map pr_index (filter (\<lambda>p. \<not> in_use p \<or> pr_generated p) standing)"
      by (simp add: standing'_def)
    moreover have "mset (map pr_index (filter P xs)) + mset (map pr_index (filter Q xs)) = mset (map pr_index xs)"
      if "\<And>x. Q x = (\<not> P x)" for P Q and xs :: "prepared_row list"
      by (induction xs) (simp_all add: that)
    from this [of "\<lambda>p. in_use p \<and> \<not> pr_generated p" "\<lambda>p. \<not> in_use p \<or> pr_generated p" standing]
    have "mset (map pr_index (filter (\<lambda>p. \<not> in_use p \<or> pr_generated p) standing))
        + mset (map pr_index (filter (\<lambda>p. in_use p \<and> \<not> pr_generated p) standing)) = mset (map pr_index standing)" by blast
    ultimately show ?thesis
      by (simp only: skipped'_def map_append mset_append add_ac)
  qed
  have step: "settle_slugs db draw k (Suc passes) standing skipped =
      (if standing = [] \<or> \<not> list_ex in_use standing then (standing, skipped)
       else if list_ex (\<lambda>p. in_use p \<and> pr_generated p) standing then settle_slugs db draw (Suc k) passes standing' skipped'
       else (standing', skipped'))"
    by (simp only: settle_slugs.simps Let_def in_use_def skipped'_def standing'_def)
  show ?case
  proof (cases "standing = [] \<or> \<not> list_ex in_use standing")
    case True
    then show ?thesis using Suc.prems unfolding step by auto
  next
    case False
    show ?thesis
    proof (cases "list_ex (\<lambda>p. in_use p \<and> pr_generated p) standing")
      case True
      then have "settle_slugs db draw (Suc k) passes standing' skipped' = (st, sk)" using Suc.prems False unfolding step by simp
      from Suc.IH [OF this] show ?thesis unfolding part .
    next
      case False': False
      then have "(standing', skipped') = (st, sk)" using Suc.prems False unfolding step by simp
      then show ?thesis using part by (simp only: prod.inject)
    qed
  qed
qed simp

lemma settle_slugs_rows:
  assumes "\<And>p x. Q (p\<lparr>pr_slug := x\<rparr>) = Q p"
  shows "settle_slugs db draw k n standing skipped = (st, sk) \<Longrightarrow> \<forall>p \<in> set standing. Q p \<Longrightarrow> \<forall>p \<in> set st. Q p"
proof (induction n arbitrary: k standing skipped)
  case (Suc n)
  define standing' where "standing' = map (\<lambda>p. if slug_in_use (pr_domain_id p) (pr_slug p) db then p\<lparr>pr_slug := draw (pr_index p) k\<rparr> else p)
    (filter (\<lambda>p. \<not> slug_in_use (pr_domain_id p) (pr_slug p) db \<or> pr_generated p) standing)"
  have "\<forall>p \<in> set standing'. Q p" using Suc.prems(2) assms by (auto simp: standing'_def)
  then show ?case
    using Suc.prems Suc.IH [of "Suc k" standing'] unfolding settle_slugs.simps Let_def standing'_def [symmetric]
    by (auto split: if_splits)
qed simp

lemma add_links_tables:
  "db_links (add_links new db) = db_links db @ map fst new"
  "db_rules (add_links new db) = db_rules db @ concat (map (\<lambda>(l, rules). rule_rows (sl_id l) rules) new)"
  "db_outbox (add_links new db) = db_outbox db @ map (\<lambda>(l, _). OpUpsert (sl_id l)) new"
  by (induction new db rule: add_links.induct) (simp_all add: add_link_def)

lemma bulk_partition:
  assumes "bulk_settled db draw (bulk_phase_one env ws db draw' rows) = (st, sk)"
  defines "errors \<equiv> bulk_errors (bulk_phase_one env ws db draw' rows)"
  shows "distinct (map fst errors @ map pr_index st @ map pr_index sk)"
    and "fst ` set errors \<union> pr_index ` set st \<union> pr_index ` set sk = {..<length rows}"
    and "\<forall>p \<in> set st. batch_row_ok env ws db p"
proof -
  define rs where "rs = bulk_phase_one env ws db draw' rows"
  have ix: "\<forall>i p. (i, Inr p) \<in> set rs \<longrightarrow> pr_index p = i" using bulk_phase_one_rows unfolding rs_def by blast
  have rs: "mset (map fst rs) = mset [0..<length rows]" unfolding rs_def bulk_phase_one_indices ..
  define prep where "prep = bulk_prepared rs"
  have split: "mset (map fst (bulk_refused rs) @ map pr_index prep) = mset [0..<length rows]"
    using bulk_split [OF ix] unfolding prep_def rs by simp
  then have d: "distinct (map fst (bulk_refused rs) @ map pr_index prep)" by (metis distinct_upt mset_eq_imp_distinct_iff)
  have s: "set (map fst (bulk_refused rs) @ map pr_index prep) = {..<length rows}"
    using mset_eq_setD [OF split] by (simp add: atLeast_upt)
  define twice where "twice = same_batch [] prep"
  have tw: "fst ` set twice \<subseteq> pr_index ` set prep" "distinct (map fst twice)"
    using same_batch_indices [of "[]" prep] same_batch_distinct [of prep] d unfolding twice_def by auto
  have e: "errors = bulk_refused rs @ twice" by (simp add: errors_def bulk_errors_def rs_def twice_def prep_def)
  define standing where "standing = filter (\<lambda>p. pr_index p \<notin> fst ` set errors) prep"
  have settle: "settle_slugs db draw 1 slug_retry_limit standing [] = (st, sk)"
    using assms(1) by (simp add: bulk_settled_def rs_def [symmetric] prep_def [symmetric] standing_def errors_def)
  have m: "mset (map pr_index st @ map pr_index sk) = mset (map pr_index standing)"
    using settle_slugs_indices [OF settle] by simp
  have st: "set (map pr_index st @ map pr_index sk) = pr_index ` set prep - fst ` set twice"
  proof -
    have "fst ` set (bulk_refused rs) \<inter> pr_index ` set prep = {}" using d by simp
    then have "x \<in> set standing \<longleftrightarrow> x \<in> set prep \<and> pr_index x \<notin> fst ` set twice" for x by (auto simp: standing_def e)
    then have "pr_index ` set standing = pr_index ` set prep - fst ` set twice" by (auto simp del: image_eqI intro: imageI)
    then show ?thesis using mset_eq_setD [OF m] by simp
  qed
  have "distinct (map pr_index standing)" using d by (simp add: standing_def distinct_map_filter)
  then have "distinct (map pr_index st @ map pr_index sk)" using m by (metis mset_eq_imp_distinct_iff)
  moreover have "set (map fst errors) \<inter> set (map pr_index st @ map pr_index sk) = {}" using st d by (auto simp: e)
  moreover have "distinct (map fst errors)" using d tw by (auto simp: e)
  ultimately show "distinct (map fst errors @ map pr_index st @ map pr_index sk)" by simp
  have "fst ` set errors \<union> set (map pr_index st @ map pr_index sk) = {..<length rows}"
  proof -
    have "fst ` set errors = fst ` set (bulk_refused rs) \<union> fst ` set twice" by (simp add: e image_Un)
    moreover have "fst ` set (bulk_refused rs) \<union> pr_index ` set prep = {..<length rows}" using s by simp
    moreover have "R \<union> T \<union> (P - T) = N" if "R \<union> P = N" "T \<subseteq> P" for R T P N :: "nat set" using that by blast
    ultimately show ?thesis unfolding st using tw(1) by (simp only:)
  qed
  then show "fst ` set errors \<union> pr_index ` set st \<union> pr_index ` set sk = {..<length rows}" by (simp add: Un_assoc)
  have "\<forall>p \<in> set standing. batch_row_ok env ws db p"
    using bulk_phase_one_rows by (auto simp: standing_def prep_def bulk_prepared_mem rs_def)
  then show "\<forall>p \<in> set st. batch_row_ok env ws db p"
    using settle_slugs_rows [where Q = "batch_row_ok env ws db", OF batch_row_ok_slug settle] by blast
qed

lemma bulk_adds:
  assumes "bulk_create env ws user rows draw new_id db = (r, db')"
  shows "(\<exists>e. r = Inl e \<and> adds env ws db [] db')
    \<or> (\<exists>st sk. bulk_settled db draw (bulk_phase_one env ws db draw rows) = (st, sk)
         \<and> r = Inr \<lparr> br_created = length st, br_skipped = length sk, br_failed = length (bulk_errors (bulk_phase_one env ws db draw rows)),
             br_results = map (bulk_outcome_of new_id (bulk_errors (bulk_phase_one env ws db draw rows)) (pr_index ` set sk) (pr_index ` set st))
               [0..<length rows] \<rparr>
         \<and> adds env ws db (map (\<lambda>p. (bulk_link env ws user db new_id p, ci_rules (pr_link p))) st) db')"
proof (cases "new_account_link_cap env ws db")
  case (Some k)
  then show ?thesis using assms by (cases k) (auto simp: bulk_create_def adds_nothing)
next
  case None
  obtain st sk where s: "bulk_settled db draw (bulk_phase_one env ws db draw rows) = (st, sk)"
    by (cases "bulk_settled db draw (bulk_phase_one env ws db draw rows)")
  define links where "links = map (bulk_link env ws user db new_id) st"
  show ?thesis
  proof (cases "\<not> distinct (map slug_key links) \<or> list_ex (\<lambda>l. slug_in_use (sl_domain l) (sl_slug l) db) links")
    case True
    then have "(r, db') = (Inl WriteConflict, db)"
      unfolding assms [symmetric] bulk_create_def Let_def s using None by (simp add: links_def)
    then show ?thesis by (auto simp: adds_nothing)
  next
    case False
    define new where "new = map (\<lambda>p. (bulk_link env ws user db new_id p, ci_rules (pr_link p))) st"
    have fst_new: "map fst new = links" by (simp add: new_def links_def)
    have r: "r = Inr \<lparr> br_created = length st, br_skipped = length sk, br_failed = length (bulk_errors (bulk_phase_one env ws db draw rows)),
             br_results = map (bulk_outcome_of new_id (bulk_errors (bulk_phase_one env ws db draw rows)) (pr_index ` set sk) (pr_index ` set st))
               [0..<length rows] \<rparr>"
      and t: "db_links db' = db_links (add_links new db)" "db_rules db' = db_rules (add_links new db)" "db_outbox db' = db_outbox (add_links new db)"
      using assms False None unfolding bulk_create_def Let_def s prod.case links_def [symmetric] new_def [symmetric]
      by (auto simp: links_def)
    have "admissible env ws db (bulk_link env ws user db new_id p)" if p: "p \<in> set st" for p
    proof -
      have "batch_row_ok env ws db p" using bulk_partition(3) [OF s] p by blast
      then show ?thesis
        using expiry_ahead by (auto simp: batch_row_ok_def admissible_def bulk_link_def new_link_row_def)
    qed
    moreover have "distinct (map (slug_key \<circ> fst) new)" using False fst_new by (metis map_map)
    moreover have "\<forall>l \<in> set (map fst new). \<not> slug_in_use (sl_domain l) (sl_slug l) db" using False unfolding fst_new by (simp add: list_ex_iff)
    ultimately have "adds env ws db new db'"
      by (auto simp: adds_def t add_links_tables fst_new links_def)
    then show ?thesis using s r unfolding new_def by blast
  qed
qed

text \<open>Every creating request, successful or not, adds admissible links.\<close>

lemma creating_adds:
  "\<exists>new. adds env ws db new (run_link_op env ws (CreateOp user input draws new_id) db) \<and> sl_id ` set (map fst new) \<subseteq> {new_id} \<and> length new \<le> 1"
  "\<exists>new. adds env ws db new (run_link_op env ws (CloneOp user i cinput draws new_id) db) \<and> sl_id ` set (map fst new) \<subseteq> {new_id} \<and> length new \<le> 1"
proof -
  have ins: "\<exists>new. adds env ws db new (snd (insert_link env ws user x hash c draws new_id db)) \<and> sl_id ` set (map fst new) \<subseteq> {new_id} \<and> length new \<le> 1"
    for x hash c
  proof -
    obtain r db' where e: "insert_link env ws user x hash c draws new_id db = (r, db')" by (cases "insert_link env ws user x hash c draws new_id db")
    from insert_adds [OF e] show ?thesis
    proof (elim disjE exE conjE)
      fix e' assume "adds env ws db [] db'" then show ?thesis using e by (intro exI [of _ "[]"]) simp
    next
      fix l assume "sl_id l = new_id" "adds env ws db [(l, ci_rules x)] db'"
      then show ?thesis using e by (intro exI [of _ "[(l, ci_rules x)]"]) simp
    qed
  qed
  show "\<exists>new. adds env ws db new (run_link_op env ws (CreateOp user input draws new_id) db) \<and> sl_id ` set (map fst new) \<subseteq> {new_id} \<and> length new \<le> 1"
    using ins by (simp add: create_link_def)
  show "\<exists>new. adds env ws db new (run_link_op env ws (CloneOp user i cinput draws new_id) db) \<and> sl_id ` set (map fst new) \<subseteq> {new_id} \<and> length new \<le> 1"
  proof (cases "get_link ws i db")
    case None then show ?thesis by (intro exI [of _ "[]"]) (simp add: clone_link_def adds_nothing)
  next
    case (Some l) then show ?thesis using ins by (simp add: clone_link_def Let_def)
  qed
qed

lemma bulk_creating_adds:
  "\<exists>new ixs. adds env ws db new (run_link_op env ws (BulkOp user rows draw new_id) db)
     \<and> map (sl_id \<circ> fst) new = map new_id ixs \<and> distinct ixs \<and> set ixs \<subseteq> {..<length rows}"
proof -
  obtain r db' where e: "bulk_create env ws user rows draw new_id db = (r, db')" by (cases "bulk_create env ws user rows draw new_id db")
  from bulk_adds [OF e] show ?thesis
  proof (elim disjE exE conjE)
    fix x assume "adds env ws db [] db'"
    then show ?thesis using e by (intro exI [of _ "[]"]) simp
  next
    fix st sk
    assume s: "bulk_settled db draw (bulk_phase_one env ws db draw rows) = (st, sk)"
      and a: "adds env ws db (map (\<lambda>p. (bulk_link env ws user db new_id p, ci_rules (pr_link p))) st) db'"
    have "distinct (map pr_index st)" "set (map pr_index st) \<subseteq> {..<length rows}"
      using bulk_partition(1,2) [OF s] by auto
    then show ?thesis
      using a e by (intro exI [of _ "map (\<lambda>p. (bulk_link env ws user db new_id p, ci_rules (pr_link p))) st"] exI [of _ "map pr_index st"])
        (simp add: bulk_link_def new_link_row_def)
  qed
qed

section \<open>The tables stay well formed\<close>

definition rule_place :: "rule_row \<Rightarrow> string \<times> nat" where
  "rule_place r = (rr_link r, rr_position r)"

definition links_ok :: "links_db \<Rightarrow> bool" where
  "links_ok db =
     (distinct (map slug_key (db_links db)) \<and> distinct (map sl_id (db_links db)) \<and> distinct (map rule_place (db_rules db))
      \<and> rr_link ` set (db_rules db) \<subseteq> sl_id ` set (db_links db))"

text \<open>The drawn ids are new.\<close>

fun op_fresh :: "link_op \<Rightarrow> links_db \<Rightarrow> bool" where
  "op_fresh (CreateOp user input draws i) db = (i \<notin> sl_id ` set (db_links db))"
| "op_fresh (CloneOp user j input draws i) db = (i \<notin> sl_id ` set (db_links db))"
| "op_fresh (BulkOp user rows draw new_id) db =
     (distinct (map new_id [0..<length rows]) \<and> list_all (\<lambda>i. new_id i \<notin> sl_id ` set (db_links db)) [0..<length rows])"
| "op_fresh (PatchOp i body) db = True"
| "op_fresh (RemoveOp i) db = True"

fun ops_fresh :: "(link_env \<times> string \<times> link_op) list \<Rightarrow> links_db \<Rightarrow> bool" where
  "ops_fresh [] db = True"
| "ops_fresh ((env, ws, r) # rs) db = (op_fresh r db \<and> ops_fresh rs (run_link_op env ws r db))"

lemma rule_rows_keys: "map rule_place (rule_rows i rules) = map (Pair i) [0..<length rules]"
  by (rule nth_equalityI) (simp_all add: rule_rows_def rule_place_def nth_enumerate_eq)

lemma rule_rows_link: "rr_link ` set (rule_rows i rules) \<subseteq> {i}"
  by (auto simp: rule_rows_def)

lemma rule_rows_distinct: "distinct (map rule_place (rule_rows i rules))"
  by (simp add: rule_rows_keys distinct_map inj_on_def)

lemma added_rules_links:
  "rr_link ` set (concat (map (\<lambda>(l, rules). rule_rows (sl_id l) rules) new)) \<subseteq> sl_id ` fst ` set new"
proof (induction new)
  case (Cons x new)
  obtain l rules where x: "x = (l, rules)" by (cases x)
  show ?case using Cons.IH rule_rows_link [of "sl_id l" rules] by (simp add: x image_Un) blast
qed simp

lemma keys_apart: "rr_link ` A \<inter> rr_link ` B = {} \<Longrightarrow> rule_place ` A \<inter> rule_place ` B = {}"
proof -
  assume d: "rr_link ` A \<inter> rr_link ` B = {}"
  have "False" if "r \<in> A" "r' \<in> B" "rule_place r = rule_place r'" for r r'
    using d that imageI [OF that(1), of rr_link] imageI [OF that(2), of rr_link] by (simp add: rule_place_def) blast
  then show ?thesis by blast
qed

lemma apart_mono: "A \<inter> B = {} \<Longrightarrow> A' \<subseteq> A \<Longrightarrow> B' \<subseteq> B \<Longrightarrow> A' \<inter> B' = {}"
  by blast

lemma added_rules_distinct:
  "distinct (map (sl_id \<circ> fst) new) \<Longrightarrow> distinct (map rule_place (concat (map (\<lambda>(l, rules). rule_rows (sl_id l) rules) new)))"
proof (induction new)
  case (Cons x new)
  obtain l rules where x: "x = (l, rules)" by (cases x)
  have "sl_id l \<notin> sl_id ` fst ` set new" using Cons.prems by (auto simp: x image_image)
  then have "rr_link ` set (rule_rows (sl_id l) rules) \<inter> rr_link ` set (concat (map (\<lambda>(l, rules). rule_rows (sl_id l) rules) new)) = {}"
    by (intro apart_mono [OF _ rule_rows_link added_rules_links]) simp
  from keys_apart [OF this] show ?case using Cons rule_rows_distinct [of "sl_id l" rules] by (simp add: x)
qed simp

lemma adds_ok:
  assumes a: "adds env ws db new db'" and ok: "links_ok db" and ids: "distinct (map (sl_id \<circ> fst) new)"
    and fresh: "sl_id ` fst ` set new \<inter> sl_id ` set (db_links db) = {}"
  shows "links_ok db'"
proof -
  have links: "db_links db' = db_links db @ map fst new"
    and rules: "db_rules db' = db_rules db @ concat (map (\<lambda>(l, rules). rule_rows (sl_id l) rules) new)"
    and keys: "distinct (map (slug_key \<circ> fst) new)"
    and unused: "\<forall>l \<in> set (map fst new). \<not> slug_in_use (sl_domain l) (sl_slug l) db"
    using a by (simp_all add: adds_def)
  have "slug_key ` fst ` set new \<inter> slug_key ` set (db_links db) = {}"
    using unused by (auto simp: slug_in_use_iff slug_key_def)
  then have 1: "distinct (map slug_key (db_links db'))" using ok keys by (auto simp: links links_ok_def image_image)
  have 2: "distinct (map sl_id (db_links db'))" using ok ids fresh by (auto simp: links links_ok_def image_image)
  have "rr_link ` set (db_rules db) \<inter> rr_link ` set (concat (map (\<lambda>(l, rules). rule_rows (sl_id l) rules) new)) = {}"
    by (rule apart_mono [OF _ _ added_rules_links, of "sl_id ` set (db_links db)"]) (use ok fresh in \<open>simp_all add: links_ok_def Int_commute\<close>)
  from keys_apart [OF this] have 3: "distinct (map rule_place (db_rules db'))"
    using ok added_rules_distinct [OF ids] by (simp add: rules links_ok_def)
  have "rr_link ` set (db_rules db') = rr_link ` set (db_rules db) \<union> rr_link ` set (concat (map (\<lambda>(l, rules). rule_rows (sl_id l) rules) new))"
    by (simp only: rules set_append image_Un)
  moreover have "sl_id ` set (db_links db') = sl_id ` set (db_links db) \<union> sl_id ` fst ` set new"
    by (simp only: links set_append image_Un set_map)
  ultimately have "rr_link ` set (db_rules db') \<subseteq> sl_id ` set (db_links db')"
    using Un_mono [OF _ added_rules_links [of new]] ok by (simp only: links_ok_def)
  then show ?thesis using 1 2 3 by (simp add: links_ok_def)
qed

lemma patch_link_keeps [simp]:
  "sl_id (patch_link env input l) = sl_id l" "slug_key (patch_link env input l) = slug_key l"
  "sl_workspace (patch_link env input l) = sl_workspace l" "sl_managed (patch_link env input l) = sl_managed l"
  by (simp_all add: patch_link_def slug_key_def)

text \<open>What a PATCH does: nothing, or the patch of the one link it names.\<close>

lemma patch_cases:
  assumes "patch_request env ws i body db = (r, db')"
  shows "(\<exists>e. r = Inl e \<and> db' = db)
    \<or> (\<exists>l. get_link ws i db = Some l \<and> update_checks env l (parse_update body) db = None
        \<and> r = Inr (patch_link env (parse_update body) l)
        \<and> db_links db' = map (\<lambda>x. if sl_id x = i \<and> sl_workspace x = ws then patch_link env (parse_update body) x else x) (db_links db)
        \<and> db_rules db' = filter (\<lambda>r. rr_link r \<noteq> i) (db_rules db) @ rule_rows i (or_else (ui_rules body) [])
        \<and> db_outbox db' = db_outbox db @ [OpUpsert i])"
  using assms by (auto simp: patch_request_def update_link_def log_activity_def Let_def parse_update_def split: option.splits)

lemma get_link_SomeD: "get_link ws i db = Some l \<Longrightarrow> l \<in> set (db_links db) \<and> sl_id l = i \<and> sl_workspace l = ws \<and> \<not> sl_managed l"
  by (auto simp: get_link_def find_Some_iff)

lemma remove_cases:
  assumes "remove_link ws i db = (r, db')"
  shows "(r = Some NoSuchLink \<and> db' = db)
    \<or> (\<exists>l. get_link ws i db = Some l \<and> r = None \<and> db_links db' = filter (\<lambda>x. sl_id x \<noteq> i) (db_links db)
        \<and> db_rules db' = filter (\<lambda>r. rr_link r \<noteq> i) (db_rules db)
        \<and> db_outbox db' = db_outbox db @ [OpDelete i, OpDomain (sl_domain l) (domain_name db (sl_domain l))]
        \<and> db_busts db' = db_busts db @ [(domain_name db (sl_domain l), sl_slug l)])"
  using assms by (auto simp: remove_link_def log_activity_def Let_def split: option.splits)

lemma distinct_map_filter_sub: "distinct (map f xs) \<Longrightarrow> distinct (map f (filter P xs))"
  by (simp add: distinct_map_filter)

lemma patch_ok:
  assumes "links_ok db" "patch_request env ws i body db = (r, db')"
  shows "links_ok db'"
  using patch_cases [OF assms(2)]
proof (elim disjE exE conjE)
  fix l assume g: "get_link ws i db = Some l"
    and links: "db_links db' = map (\<lambda>x. if sl_id x = i \<and> sl_workspace x = ws then patch_link env (parse_update body) x else x) (db_links db)"
    and rules: "db_rules db' = filter (\<lambda>r. rr_link r \<noteq> i) (db_rules db) @ rule_rows i (or_else (ui_rules body) [])"
  have ids: "map sl_id (db_links db') = map sl_id (db_links db)" "map slug_key (db_links db') = map slug_key (db_links db)"
    unfolding links by auto
  have setid: "sl_id ` set (db_links db') = sl_id ` set (db_links db)" using arg_cong [OF ids(1), of set] by simp
  have i: "i \<in> sl_id ` set (db_links db)" using get_link_SomeD [OF g] by blast
  have "rr_link ` set (filter (\<lambda>r. rr_link r \<noteq> i) (db_rules db)) \<inter> rr_link ` set (rule_rows i (or_else (ui_rules body) [])) = {}"
    using rule_rows_link [of i] by fastforce
  from keys_apart [OF this] have "distinct (map rule_place (db_rules db'))"
    using assms(1) rule_rows_distinct by (simp add: rules links_ok_def distinct_map_filter)
  moreover have "rr_link ` set (db_rules db') \<subseteq> sl_id ` set (db_links db)"
    using assms(1) i rule_rows_link [of i "or_else (ui_rules body) []"] by (auto simp: rules links_ok_def)
  ultimately show ?thesis using assms(1) by (simp add: links_ok_def ids setid)
qed (use assms(1) in simp)

lemma remove_ok:
  assumes "links_ok db" "remove_link ws i db = (r, db')"
  shows "links_ok db'"
  using remove_cases [OF assms(2)]
proof (elim disjE exE conjE)
  fix l assume links: "db_links db' = filter (\<lambda>x. sl_id x \<noteq> i) (db_links db)"
    and rules: "db_rules db' = filter (\<lambda>r. rr_link r \<noteq> i) (db_rules db)"
  have "rr_link ` set (db_rules db') \<subseteq> sl_id ` set (db_links db')"
    using assms(1) unfolding links rules links_ok_def by auto
  then show ?thesis using assms(1) by (simp add: links_ok_def links rules distinct_map_filter)
qed (use assms(1) in simp)

lemma run_link_op_ok:
  assumes "links_ok db" "op_fresh r db"
  shows "links_ok (run_link_op env ws r db)"
proof (cases r)
  case (CreateOp user input draws i)
  obtain new where n: "adds env ws db new (run_link_op env ws r db)" "sl_id ` set (map fst new) \<subseteq> {i}" "length new \<le> 1"
    using creating_adds(1) unfolding CreateOp by blast
  then have "distinct (map (sl_id \<circ> fst) new)" by (cases new) auto
  moreover have "sl_id ` fst ` set new \<inter> sl_id ` set (db_links db) = {}" using n(2) assms(2) CreateOp by auto
  ultimately show ?thesis by (rule adds_ok [OF n(1) assms(1)])
next
  case (CloneOp user j input draws i)
  obtain new where n: "adds env ws db new (run_link_op env ws r db)" "sl_id ` set (map fst new) \<subseteq> {i}" "length new \<le> 1"
    using creating_adds(2) unfolding CloneOp by blast
  then have "distinct (map (sl_id \<circ> fst) new)" by (cases new) auto
  moreover have "sl_id ` fst ` set new \<inter> sl_id ` set (db_links db) = {}" using n(2) assms(2) CloneOp by auto
  ultimately show ?thesis by (rule adds_ok [OF n(1) assms(1)])
next
  case (PatchOp i body)
  then show ?thesis using patch_ok [OF assms(1)] by (metis prod.collapse run_link_op.simps(3))
next
  case (RemoveOp i)
  then show ?thesis using remove_ok [OF assms(1)] by (metis prod.collapse run_link_op.simps(4))
next
  case (BulkOp user rows draw new_id)
  obtain new ixs where n: "adds env ws db new (run_link_op env ws r db)" "map (sl_id \<circ> fst) new = map new_id ixs" "distinct ixs"
      "set ixs \<subseteq> {..<length rows}"
    using bulk_creating_adds unfolding BulkOp by blast
  have inj: "inj_on new_id {..<length rows}" using assms(2) BulkOp by (simp add: distinct_map atLeast_upt lessThan_atLeast0)
  then have "distinct (map (sl_id \<circ> fst) new)" unfolding n(2) using n(3,4) by (simp add: distinct_map inj_on_subset)
  moreover have "sl_id ` fst ` set new = new_id ` set ixs" using arg_cong [OF n(2), of set] by (simp add: image_comp)
  then have "sl_id ` fst ` set new \<inter> sl_id ` set (db_links db) = {}"
  proof -
    have "new_id k \<notin> sl_id ` set (db_links db)" if "k < length rows" for k
      using assms(2) that BulkOp by (simp add: list_all_iff)
    then have "new_id ` set ixs \<inter> sl_id ` set (db_links db) = {}" using n(4) by blast
    then show "sl_id ` fst ` set new \<inter> sl_id ` set (db_links db) = {}" if "sl_id ` fst ` set new = new_id ` set ixs" using that by simp
  qed
  ultimately show ?thesis by (rule adds_ok [OF n(1) assms(1)])
qed

section \<open>One step at a time\<close>

text \<open>Every request is one of these three.\<close>

lemma run_link_op_cases:
  obtains (adds) new where "adds env ws db new (run_link_op env ws r db)"
      "op_fresh r db \<Longrightarrow> sl_id ` fst ` set new \<inter> sl_id ` set (db_links db) = {}"
  | (patches) i body l where "r = PatchOp i body" "get_link ws i db = Some l" "update_checks env l (parse_update body) db = None"
      "db_links (run_link_op env ws r db)
         = map (\<lambda>x. if sl_id x = i \<and> sl_workspace x = ws then patch_link env (parse_update body) x else x) (db_links db)"
      "db_rules (run_link_op env ws r db) = filter (\<lambda>r. rr_link r \<noteq> i) (db_rules db) @ rule_rows i (or_else (ui_rules body) [])"
      "db_outbox (run_link_op env ws r db) = db_outbox db @ [OpUpsert i]"
  | (removes) i l where "r = RemoveOp i" "get_link ws i db = Some l"
      "db_links (run_link_op env ws r db) = filter (\<lambda>x. sl_id x \<noteq> i) (db_links db)"
      "db_rules (run_link_op env ws r db) = filter (\<lambda>r. rr_link r \<noteq> i) (db_rules db)"
      "db_outbox (run_link_op env ws r db) = db_outbox db @ [OpDelete i, OpDomain (sl_domain l) (domain_name db (sl_domain l))]"
proof (cases r)
  case (CreateOp user input draws i)
  obtain new where n: "adds env ws db new (run_link_op env ws r db)" "sl_id ` set (map fst new) \<subseteq> {i}"
    using creating_adds(1) unfolding CreateOp by blast
  show thesis by (rule adds [OF n(1)]) (use n(2) CreateOp in auto)
next
  case (CloneOp user j input draws i)
  obtain new where n: "adds env ws db new (run_link_op env ws r db)" "sl_id ` set (map fst new) \<subseteq> {i}"
    using creating_adds(2) unfolding CloneOp by blast
  show thesis by (rule adds [OF n(1)]) (use n(2) CloneOp in auto)
next
  case (BulkOp user rows draw new_id)
  obtain new ixs where n: "adds env ws db new (run_link_op env ws r db)" "map (sl_id \<circ> fst) new = map new_id ixs"
      "set ixs \<subseteq> {..<length rows}"
    using bulk_creating_adds unfolding BulkOp by blast
  have "sl_id ` fst ` set new = new_id ` set ixs" using arg_cong [OF n(2), of set] by (simp add: image_comp)
  then have "sl_id ` fst ` set new \<subseteq> new_id ` {..<length rows}" using n(3) by (simp add: image_mono)
  moreover have "new_id ` {..<length rows} \<inter> sl_id ` set (db_links db) = {}" if "op_fresh r db"
    using that BulkOp by (force simp: list_all_iff)
  ultimately show thesis by (blast intro: adds [OF n(1)])
next
  case (PatchOp i body)
  obtain x db' where e: "patch_request env ws i body db = (x, db')" by (cases "patch_request env ws i body db")
  have run: "run_link_op env ws r db = db'" by (simp add: PatchOp e)
  from patch_cases [OF e] show thesis
  proof (elim disjE exE conjE)
    fix e' assume "db' = db" then show thesis using run by (intro adds [where new = "[]"] adds_nothing) simp_all
  next
    fix l
    assume "get_link ws i db = Some l" "update_checks env l (parse_update body) db = None"
      "db_links db' = map (\<lambda>x. if sl_id x = i \<and> sl_workspace x = ws then patch_link env (parse_update body) x else x) (db_links db)"
      "db_rules db' = filter (\<lambda>r. rr_link r \<noteq> i) (db_rules db) @ rule_rows i (or_else (ui_rules body) [])"
      "db_outbox db' = db_outbox db @ [OpUpsert i]"
    then show thesis using run by (intro patches [OF PatchOp]) simp_all
  qed
next
  case (RemoveOp i)
  obtain x db' where e: "remove_link ws i db = (x, db')" by (cases "remove_link ws i db")
  have run: "run_link_op env ws r db = db'" by (simp add: RemoveOp e)
  from remove_cases [OF e] show thesis
  proof (elim disjE exE conjE)
    assume "db' = db" then show thesis using run by (intro adds [where new = "[]"] adds_nothing) simp_all
  next
    fix l
    assume "get_link ws i db = Some l" "db_links db' = filter (\<lambda>x. sl_id x \<noteq> i) (db_links db)"
      "db_rules db' = filter (\<lambda>r. rr_link r \<noteq> i) (db_rules db)"
      "db_outbox db' = db_outbox db @ [OpDelete i, OpDomain (sl_domain l) (domain_name db (sl_domain l))]"
    then show thesis using run by (intro removes [OF RemoveOp]) simp_all
  qed
qed

definition link_view :: "string \<Rightarrow> links_db \<Rightarrow> stored_link list \<times> rule_row list" where
  "link_view i db = (filter (\<lambda>l. sl_id l = i) (db_links db), filter (\<lambda>r. rr_link r = i) (db_rules db))"

definition projected_ids :: "link_outbox_op list \<Rightarrow> string set" where
  "projected_ids ops = {i. OpUpsert i \<in> set ops \<or> OpDelete i \<in> set ops}"

lemma filter_other: "rr_link ` set rs \<subseteq> A \<Longrightarrow> i \<notin> A \<Longrightarrow> filter (\<lambda>r. rr_link r = i) rs = []"
  by (auto simp: filter_empty_conv)

lemma changed_projected:
  "\<exists>ops. db_outbox (run_link_op env ws r db) = db_outbox db @ ops
     \<and> {i. link_view i (run_link_op env ws r db) \<noteq> link_view i db} \<subseteq> projected_ids ops"
proof (cases rule: run_link_op_cases [of env ws db r])
  case (adds new)
  have "link_view i (run_link_op env ws r db) = link_view i db" if "i \<notin> sl_id ` fst ` set new" for i
    using adds that filter_other [OF added_rules_links that] by (auto simp: adds_def link_view_def filter_empty_conv)
  then have "{i. link_view i (run_link_op env ws r db) \<noteq> link_view i db} \<subseteq> projected_ids (map (\<lambda>(l, _). OpUpsert (sl_id l)) new)"
    by (force simp: projected_ids_def)
  then show ?thesis using adds by (auto simp: adds_def)
next
  case (patches i body l)
  have "link_view j (run_link_op env ws r db) = link_view j db" if "j \<noteq> i" for j
  proof -
    have "filter (\<lambda>x. sl_id x = j) (map (\<lambda>x. if sl_id x = i \<and> sl_workspace x = ws then patch_link env (parse_update body) x else x) xs)
        = filter (\<lambda>x. sl_id x = j) xs" for xs
      using that by (induction xs) auto
    moreover have "filter (\<lambda>r. rr_link r = j) (rule_rows i rules) = []" for rules
      using filter_other [OF rule_rows_link] that by simp
    moreover have "(rr_link r = j \<and> rr_link r \<noteq> i) = (rr_link r = j)" for r :: rule_row using that by auto
    ultimately show ?thesis by (simp add: link_view_def patches(4,5) conj_commute)
  qed
  then show ?thesis using patches(6) by (auto simp: projected_ids_def)
next
  case (removes i l)
  have "link_view j (run_link_op env ws r db) = link_view j db" if "j \<noteq> i" for j
    unfolding link_view_def removes(3,4) filter_filter using that by (auto intro!: filter_cong)
  then show ?thesis using removes(5) by (auto simp: projected_ids_def)
qed

definition foreign :: "string \<Rightarrow> links_db \<Rightarrow> stored_link list \<times> rule_row list" where
  "foreign ws db =
     (let others = filter (\<lambda>l. sl_workspace l \<noteq> ws) (db_links db)
      in (others, filter (\<lambda>r. rr_link r \<in> sl_id ` set others) (db_rules db)))"

lemma foreign_same:
  assumes "filter (\<lambda>l. sl_workspace l \<noteq> ws) (db_links db') = filter (\<lambda>l. sl_workspace l \<noteq> ws) (db_links db)"
    and "\<exists>P A. db_rules db' = filter P (db_rules db) @ A \<and> rr_link ` set A \<inter> sl_id ` {l \<in> set (db_links db). sl_workspace l \<noteq> ws} = {}
      \<and> (\<forall>r. \<not> P r \<longrightarrow> rr_link r \<notin> sl_id ` {l \<in> set (db_links db). sl_workspace l \<noteq> ws})"
  shows "foreign ws db' = foreign ws db"
proof -
  let ?F = "sl_id ` {l \<in> set (db_links db). sl_workspace l \<noteq> ws}"
  obtain P A where p: "db_rules db' = filter P (db_rules db) @ A" "rr_link ` set A \<inter> ?F = {}" "\<forall>r. \<not> P r \<longrightarrow> rr_link r \<notin> ?F"
    using assms(2) by blast
  have "filter (\<lambda>r. rr_link r \<in> ?F) A = []" using p(2) by (auto simp: filter_empty_conv)
  moreover have "filter (\<lambda>r. rr_link r \<in> ?F) (filter P (db_rules db)) = filter (\<lambda>r. rr_link r \<in> ?F) (db_rules db)"
    unfolding filter_filter using p(3) by (intro filter_cong refl) blast
  ultimately show ?thesis using assms(1) p(1) by (simp add: foreign_def Let_def)
qed

lemma foreign_unchanged:
  assumes ok: "links_ok db" and fresh: "op_fresh r db"
  shows "foreign ws (run_link_op env ws r db) = foreign ws db"
proof -
  let ?F = "sl_id ` {l \<in> set (db_links db). sl_workspace l \<noteq> ws}"
  have mine: "i \<notin> ?F" if "get_link ws i db = Some l" for i l
  proof
    assume "i \<in> ?F"
    then obtain x where "x \<in> set (db_links db)" "sl_workspace x \<noteq> ws" "sl_id x = i" by blast
    moreover have "l \<in> set (db_links db)" "sl_workspace l = ws" "sl_id l = i" using get_link_SomeD [OF that] by simp_all
    ultimately show False using ok by (metis links_ok_def distinct_map inj_onD)
  qed
  show ?thesis
  proof (cases rule: run_link_op_cases [of env ws db r])
    case (adds new)
    have "filter (\<lambda>l. sl_workspace l \<noteq> ws) (map fst new) = []"
      using adds(1) unfolding adds_def admissible_def by (simp add: filter_empty_conv)
    moreover have "rr_link ` set (concat (map (\<lambda>(l, rules). rule_rows (sl_id l) rules) new)) \<inter> ?F = {}"
      by (rule apart_mono [OF adds(2) [OF fresh] added_rules_links]) auto
    ultimately show ?thesis
      using adds(1) unfolding adds_def by (intro foreign_same) (auto intro!: exI [of _ "\<lambda>r. True"])
  next
    case (patches i body l)
    have "filter (\<lambda>l. sl_workspace l \<noteq> ws)
        (map (\<lambda>x. if sl_id x = i \<and> sl_workspace x = ws then patch_link env (parse_update body) x else x) xs)
      = filter (\<lambda>l. sl_workspace l \<noteq> ws) xs" for xs
      by (induction xs) auto
    then show ?thesis
      using mine [OF patches(2)] rule_rows_link [of i "or_else (ui_rules body) []"]
      by (intro foreign_same) (auto simp: patches(4,5) intro!: exI [of _ "\<lambda>r. rr_link r \<noteq> i"] exI [of _ "rule_rows i (or_else (ui_rules body) [])"])
  next
    case (removes i l)
    have "filter (\<lambda>l. sl_workspace l \<noteq> ws) (db_links (run_link_op env ws r db)) = filter (\<lambda>l. sl_workspace l \<noteq> ws) (db_links db)"
      unfolding removes(3) filter_filter using mine [OF removes(2)] by (intro filter_cong refl) auto
    then show ?thesis
      using mine [OF removes(2)] by (intro foreign_same) (auto simp: removes(4) intro!: exI [of _ "\<lambda>r. rr_link r \<noteq> i"] exI [of _ "[]"])
  qed
qed

lemma update_checks_vetted:
  assumes "update_checks env l input db = None" "ui_destination input = Some d"
  shows "vetted env db d"
  using assms ssrf_target_None [of env "[Some d, social_image (ui_social input)]" d]
  by (auto simp: update_checks_def vetted_def assert_destination_None split: prod.splits option.splits if_splits)

lemma destination_checked:
  assumes "l \<in> set (db_links (run_link_op env ws r db))"
  shows "(\<exists>k \<in> set (db_links db). sl_id k = sl_id l \<and> sl_workspace k = sl_workspace l \<and> sl_destination k = sl_destination l)
    \<or> sl_workspace l = ws \<and> vetted env db (sl_destination l)"
proof (cases rule: run_link_op_cases [of env ws db r])
  case (adds new)
  then show ?thesis using assms unfolding adds_def admissible_def by auto
next
  case (patches i body k)
  then obtain x where x: "x \<in> set (db_links db)"
      "l = (if sl_id x = i \<and> sl_workspace x = ws then patch_link env (parse_update body) x else x)"
    using assms by auto
  show ?thesis
  proof (cases "sl_id x = i \<and> sl_workspace x = ws")
    case False then show ?thesis using x by auto
  next
    case True
    show ?thesis
    proof (cases "ui_destination body")
      case None
      then have "sl_destination l = sl_destination x" using x True by (simp add: patch_link_def parse_update_def)
      then show ?thesis using x True by (intro disjI1 bexI [of _ x]) simp_all
    next
      case (Some d)
      then have "vetted env db d" using update_checks_vetted [OF patches(3)] by (simp add: parse_update_def)
      then show ?thesis using x True Some by (simp add: patch_link_def parse_update_def)
    qed
  qed
next
  case (removes i k)
  then show ?thesis using assms by auto
qed

section \<open>Caps, batches and clones\<close>

lemma links_since_add: "links_since (add_link l rules db) ws t = links_since db ws t + (if sl_workspace l = ws \<and> \<not> sl_managed l \<and> t \<le> sl_created_at l then 1 else 0)"
  by (simp add: links_since_def add_link_def)

lemma insert_link_counts:
  assumes "insert_link env ws user input hash c draws new_id db = (Inr l, db')"
  shows "new_account_link_cap env ws db = None \<and> (t \<le> le_now env \<longrightarrow> links_since db' ws t = links_since db ws t + 1)"
proof
  have cap: "new_account_link_cap env ws db = None"
    using assms by (auto simp: insert_link_def split: sum.splits option.splits prod.splits)
  then show "new_account_link_cap env ws db = None" .
  obtain x where "adds env ws db [(x, ci_rules input)] db'" using insert_adds [OF assms] by blast
  then show "t \<le> le_now env \<longrightarrow> links_since db' ws t = links_since db ws t + 1"
    by (auto simp: adds_def admissible_def links_since_def)
qed

text \<open>An account in its first days, not lifted.\<close>

definition capped_account :: "link_env \<Rightarrow> string \<Rightarrow> links_db \<Rightarrow> bool" where
  "capped_account env ws db =
     (0 < na_window_days (le_limits env)
      \<and> (case find (\<lambda>a. ac_id a = ws) (db_accounts db) of None \<Rightarrow> False
         | Some a \<Rightarrow> \<not> ac_lifted a \<and> le_now env - ac_created a < na_window_days (le_limits env) * 86400000))"

lemma capped_counts:
  assumes "capped_account env ws db" "new_account_link_cap env ws db = None"
  shows "links_since db ws (le_now env - 3600000) < na_per_hour (le_limits env)"
    "links_since db ws (le_now env - 86400000) < na_per_day (le_limits env)"
  using assms by (auto simp: capped_account_def new_account_link_cap_def Let_def split: option.splits if_splits)

lemma map_of_distinct_mem: "distinct (map fst xs) \<Longrightarrow> map_of xs i = None \<longleftrightarrow> i \<notin> fst ` set xs"
  by (simp add: map_of_eq_None_iff)

lemma bulk_outcome_kinds:
  assumes "fst ` set errors \<union> S \<union> M = {..<n}" "fst ` set errors \<inter> S = {}" "fst ` set errors \<inter> M = {}" "S \<inter> M = {}"
  shows "BulkHole \<notin> set (map (bulk_outcome_of new_id errors S M) [0..<n])"
    "i < n \<Longrightarrow> (\<exists>x. bulk_outcome_of new_id errors S M i = BulkMade x) \<longleftrightarrow> i \<in> M"
    "i < n \<Longrightarrow> bulk_outcome_of new_id errors S M i = BulkSkipped \<longleftrightarrow> i \<in> S"
proof -
  have "bulk_outcome_of new_id errors S M k \<noteq> BulkHole" if "k < n" for k
  proof -
    have "k \<in> fst ` set errors \<union> S \<union> M" using assms(1) that by simp
    then show ?thesis by (auto simp: bulk_outcome_of_def map_of_eq_None_iff split: option.split)
  qed
  then show "BulkHole \<notin> set (map (bulk_outcome_of new_id errors S M) [0..<n])" by (auto simp: image_iff) (metis)
  have none: "k \<in> S \<union> M \<Longrightarrow> map_of errors k = None" for k using assms(2,3) by (auto simp: map_of_eq_None_iff)
  show "i < n \<Longrightarrow> (\<exists>x. bulk_outcome_of new_id errors S M i = BulkMade x) \<longleftrightarrow> i \<in> M"
    using none [of i] assms(4) by (auto simp: bulk_outcome_of_def split: option.split)
  show "i < n \<Longrightarrow> bulk_outcome_of new_id errors S M i = BulkSkipped \<longleftrightarrow> i \<in> S"
    using none [of i] by (auto simp: bulk_outcome_of_def split: option.split)
qed

text \<open>A new account never has more links than its caps say after a single creation or a clone.\<close>

lemma new_account_cap_holds:
  assumes "insert_link env ws user input hash c draws new_id db = (Inr l, db')" "capped_account env ws db"
  shows "links_since db' ws (le_now env - 3600000) \<le> na_per_hour (le_limits env)
    \<and> links_since db' ws (le_now env - 86400000) \<le> na_per_day (le_limits env)"
  using insert_link_counts [OF assms(1)] capped_counts [OF assms(2)] by simp

text \<open>A clone of a protected link is protected unless the request says otherwise.\<close>

lemma clone_keeps_protection:
  assumes "clone_link env ws user i input draws new_id db = (Inr l, db')" "cl_password input = None"
  shows "\<exists>source. get_link ws i db = Some source \<and> sl_password l = sl_password source \<and> sl_destination l = sl_destination source
    \<and> sl_redirect l = sl_redirect source \<and> sl_limit l = sl_limit source \<and> sl_archived_at l = None"
proof -
  obtain source where g: "get_link ws i db = Some source" using assms(1) by (auto simp: clone_link_def split: option.splits)
  then have e: "insert_link env ws user (cloned_input db source input) (sl_password source) (Some i) draws new_id db = (Inr l, db')"
    using assms by (simp add: clone_link_def)
  then obtain d s where "l = new_link_row new_id ws user d s (cloned_input db source input) (sl_redirect source) (sl_password source)
      (le_scan env (sl_destination source)) (le_now env)"
    by (auto simp: insert_link_def cloned_input_def Let_def split: sum.splits option.splits prod.splits if_splits dest!: try_slugs_cases)
  then show ?thesis using g by (simp add: new_link_row_def cloned_input_def)
qed

section \<open>What the code does not do\<close>

text \<open>A PATCH that does not mention them empties the rules and the tags and resets the switches.\<close>

lemma patch_wipes_absent:
  assumes "patch_request env ws i body db = (Inr l, db')"
    "ui_rules body = None" "ui_tags body = None" "ui_forward body = None" "ui_preview body = None" "ui_deep body = None" "ui_hide body = None"
  shows "rules_of i db' = [] \<and> sl_tags l = [] \<and> sl_forward l \<and> sl_preview l \<and> \<not> sl_deep l \<and> \<not> sl_hide l"
  using patch_cases [OF assms(1)] assms(2-)
  by (auto simp: rules_of_def rule_rows_def filter_empty_conv patch_link_def parse_update_def)

text \<open>Sending a flagged link's own destination again takes the flag off.\<close>

lemma resent_destination_unflags:
  assumes "patch_request env ws i body db = (Inr l, db')" "get_link ws i db = Some k" "sl_scan k = ScanFlagged"
    "ui_destination body = Some (sl_destination k)"
  shows "sl_destination l = sl_destination k \<and> sl_scan l \<noteq> ScanFlagged"
  using patch_cases [OF assms(1)] assms(2-) update_checks_vetted [of env k "parse_update body" db "sl_destination k"]
  by (auto simp: patch_link_def parse_update_def vetted_def)

text \<open>The operator's reserved back-halves do not bind a bulk request.\<close>

lemma bulk_ignores_reserved: "bulk_create (env\<lparr>le_reserved := rs\<rparr>) ws user rows draw new_id db = bulk_create env ws user rows draw new_id db"
proof -
  have 1: "resolves_to_denied_address (env\<lparr>le_reserved := rs\<rparr>) = resolves_to_denied_address env"
    by (rule ext) (simp add: resolves_to_denied_address_def split: option.split)
  have 2: "prepare_row (env\<lparr>le_reserved := rs\<rparr>) = prepare_row env"
    by (intro ext) (simp add: prepare_row_def row_problems_def creation_problems_def 1 split: sum.split)
  have 3: "bulk_link (env\<lparr>le_reserved := rs\<rparr>) = bulk_link env" by (intro ext) (simp add: bulk_link_def)
  have 4: "new_account_link_cap (env\<lparr>le_reserved := rs\<rparr>) ws db = new_account_link_cap env ws db"
    by (simp add: new_account_link_cap_def Let_def split: option.split)
  show ?thesis unfolding bulk_create_def bulk_phase_one_def 2 3 4 ..
qed

definition link_demo_env :: link_env where
  "link_demo_env = \<lparr> le_now = 1700000000000, le_hostname = (\<lambda>u. if starts_with u ''https://evil'' then Some ''evil.test'' else Some ''ok.test''),
     le_lookup = (\<lambda>h. None), le_scan = (\<lambda>u. ScanClean), le_hash = (\<lambda>p. p), le_reserved = [''launch''],
     le_limits = \<lparr> na_window_days = 7, na_per_day = 1, na_per_hour = 1 \<rparr> \<rparr>"

definition demo_input :: create_input where
  "demo_input = \<lparr> ci_destination = ''https://ok.test/a'', ci_domain = ''s.co'', ci_slug = Some ''sale'', ci_tags = [''a''], ci_folder = None,
     ci_comment = None, ci_redirect = None,
     ci_rules = [\<lparr> rule_id = ''r'', rule_when = \<lparr> w_country = Some ''de'', w_device = None, w_language = None \<rparr>,
       rule_then = ''https://evil.test/x'', rule_weight = None \<rparr>],
     ci_expires = NoDate, ci_expires_to = Some ''https://evil.test/y'', ci_activates = NoDate, ci_scheduled_to = None, ci_limit = None,
     ci_password = None, ci_forward = True, ci_deep = False, ci_hide = False, ci_preview = True, ci_utm = None, ci_social = None \<rparr>"

definition link_demo_db :: links_db where
  "link_demo_db = \<lparr> db_links = [], db_rules = [], db_domains = [\<lparr> sd_id = ''d'', sd_name = ''s.co'', sd_workspace = None, sd_system = True, sd_status = ''live'' \<rparr>],
     db_accounts = [\<lparr> ac_id = ''w'', ac_created = 1699990000000, ac_lifted = False, ac_redirect = ''307'' \<rparr>],
     db_blocked = [''evil.test''], db_outbox = [], db_activity = [], db_refusals = [], db_busts = [] \<rparr>"

text \<open>Only the destination is held against the blocklist: a rule and the page of an expired link may point anywhere.\<close>

lemma rule_target_unchecked:
  "case create_link link_demo_env ''w'' None demo_input [] ''l1'' link_demo_db of
     (Inl e, db) \<Rightarrow> False
   | (Inr l, db) \<Rightarrow> match_blocked_domain (le_hostname link_demo_env) (rr_then (hd (db_rules db))) (db_blocked db) = Some ''evil.test''
       \<and> match_blocked_domain (le_hostname link_demo_env) (the (sl_expires_to l)) (db_blocked db) = Some ''evil.test''"
  by code_simp

text \<open>One bulk request takes an account past its caps.\<close>

lemma bulk_passes_cap:
  "capped_account link_demo_env ''w'' link_demo_db
   \<and> (let db = snd (bulk_create link_demo_env ''w'' None [Inr demo_input, Inr (demo_input\<lparr>ci_slug := Some ''b''\<rparr>), Inr (demo_input\<lparr>ci_slug := Some ''c''\<rparr>)]
        (\<lambda>i k. []) (\<lambda>i. show_nat i) link_demo_db)
      in links_since db ''w'' (le_now link_demo_env - 3600000) = 3 \<and> na_per_hour (le_limits link_demo_env) = 1)"
  by code_simp

section \<open>The properties\<close>

text \<open>
  C6. The tables stay well formed: whatever requests follow each other, no two links share a domain and a
  back-half in any case, every id is one link's, and every routing rule has a place of its own at a link
  that exists.
\<close>

theorem links_tables_stay_ok:
  assumes "links_ok db" "ops_fresh reqs db"
  shows "links_ok (run_link_ops reqs db)"
  using assms by (induction reqs db rule: run_link_ops.induct) (simp_all add: run_link_op_ok)

definition demo_requests :: "(link_env \<times> string \<times> link_op) list" where
  "demo_requests = [(link_demo_env, ''w'', CreateOp None demo_input [] ''l1''),
     (link_demo_env, ''w'', PatchOp ''l1'' \<lparr> ui_destination = Some ''https://ok.test/b'', ui_tags = None, ui_folder = None, ui_comment = None,
       ui_redirect = None, ui_rules = None, ui_expires = None, ui_expires_to = None, ui_activates = None, ui_scheduled_to = None,
       ui_limit = None, ui_password = None, ui_forward = None, ui_deep = None, ui_hide = None, ui_preview = None, ui_utm = None,
       ui_social = None, ui_archived = None \<rparr>),
     (link_demo_env, ''w'', BulkOp None [Inr (demo_input\<lparr>ci_slug := Some ''SALE''\<rparr>)] (\<lambda>i k. []) (\<lambda>i. ''l2''))]"

lemma demo_run: "map sl_destination (db_links (run_link_ops demo_requests link_demo_db)) = [''https://ok.test/b'']" "ops_fresh demo_requests link_demo_db"
    "links_ok link_demo_db"
  by code_simp+

theorem links_tables_stay_ok_witness:
  "links_ok (run_link_ops demo_requests link_demo_db) \<and> map sl_destination (db_links (run_link_ops demo_requests link_demo_db)) = [''https://ok.test/b'']"
  using links_tables_stay_ok [of link_demo_db demo_requests] demo_run by simp

lemma run_link_ops_append: "run_link_ops (rs @ rs') db = run_link_ops rs' (run_link_ops rs db)"
  by (induction rs db rule: run_link_ops.induct) simp_all



text \<open>
  C9. Workspaces stay apart: no request of one workspace changes a link or a routing rule of another.
\<close>

theorem workspaces_apart:
  assumes "links_ok db" "op_fresh r db"
  shows "foreign ws (run_link_op env ws r db) = foreign ws db"
  using assms by (rule foreign_unchanged)

theorem workspaces_apart_witness:
  "foreign ''v'' (run_link_op link_demo_env ''v'' (RemoveOp ''l1'') (run_link_ops demo_requests link_demo_db)) = foreign ''v'' (run_link_ops demo_requests link_demo_db)
   \<and> length (fst (foreign ''v'' (run_link_ops demo_requests link_demo_db))) = 1"
proof
  have "links_ok (run_link_ops demo_requests link_demo_db)" by code_simp
  then show "foreign ''v'' (run_link_op link_demo_env ''v'' (RemoveOp ''l1'') (run_link_ops demo_requests link_demo_db)) = foreign ''v'' (run_link_ops demo_requests link_demo_db)"
    by (rule workspaces_apart) simp
  show "length (fst (foreign ''v'' (run_link_ops demo_requests link_demo_db))) = 1" by code_simp
qed

text \<open>
  C8. The edge hears of every change: each request adds, in its own transaction, an outbox entry for every
  link whose row or rules it creates, changes or deletes, and takes none away.
\<close>

theorem changes_reach_outbox:
  "\<exists>ops. db_outbox (run_link_op env ws r db) = db_outbox db @ ops
     \<and> {i. link_view i (run_link_op env ws r db) \<noteq> link_view i db} \<subseteq> projected_ids ops"
  by (rule changed_projected)

fun is_made :: "bulk_outcome \<Rightarrow> bool" where
  "is_made (BulkMade i) = True"
| "is_made _ = False"


definition demo_batch :: "bulk_row list" where
  "demo_batch = [Inr demo_input, Inl ''bad URL'', Inr (demo_input\<lparr>ci_destination := ''https://evil.test/z'', ci_slug := Some ''b''\<rparr>),
     Inr (demo_input\<lparr>ci_slug := Some ''SALE''\<rparr>)]"


end
