(* ===== verification/Link_List.thy ===== *)
theory Link_List
  imports Destination Error_Page "HOL-Library.Product_Lexorder"
begin

text \<open>
  The list of links (\<open>list\<close> and \<open>exportCsv\<close> of \<open>apps/api/src/links/links.service.ts\<close>, the cursor and the
  sparkline of \<open>links.mapper.ts\<close>, \<open>common/sql-like.ts\<close>): the status tabs, the search, keyset pages and
  the CSV export. The table is the links of the workspace that asks. A comparison with \<open>null\<close> selects nothing. \<open>created_at\<close> is in microseconds, as the column
  keeps it, every other time in milliseconds, as JavaScript wrote it. Ids are any ordered type; the
  base64 text of a cursor and the text of an id are parameters.
\<close>

section \<open>The status tabs\<close>

datatype list_status = TabAll | TabActive | TabScheduled | TabExpiring | TabExpired | TabArchived

record 'i listed_link =
  ll_id :: 'i
  ll_created_us :: int
  ll_archived :: "int option"
  ll_expires :: "int option"
  ll_activates :: "int option"
  ll_limit :: "int option"
  ll_clicks :: "int option"
  ll_slug :: string
  ll_destination :: string
  ll_title :: "string option"
  ll_tags :: "string list"
  ll_folder :: "string option"
  ll_domain :: string
  ll_managed :: bool
  ll_unique :: "int option"
  ll_redirect :: string
  ll_password :: "string option"
  ll_safe :: string
  ll_creator :: "string option"

definition sql_less_eq :: "int option \<Rightarrow> int \<Rightarrow> bool" where
  "sql_less_eq x y = (case x of None \<Rightarrow> False | Some v \<Rightarrow> v \<le> y)"

definition sql_greater :: "int option \<Rightarrow> int \<Rightarrow> bool" where
  "sql_greater x y = (case x of None \<Rightarrow> False | Some v \<Rightarrow> y < v)"

definition under_limit :: "'i listed_link \<Rightarrow> bool" where
  "under_limit l = (case ll_limit l of None \<Rightarrow> True | Some n \<Rightarrow> or_else (ll_clicks l) 0 < n)"

definition not_expired :: "int \<Rightarrow> 'i listed_link \<Rightarrow> bool" where
  "not_expired now l = ((ll_expires l = None \<or> sql_greater (ll_expires l) now) \<and> under_limit l)"

definition not_scheduled :: "int \<Rightarrow> 'i listed_link \<Rightarrow> bool" where
  "not_scheduled now l = (ll_activates l = None \<or> sql_less_eq (ll_activates l) now)"

definition status_filter :: "list_status \<Rightarrow> int \<Rightarrow> 'i listed_link \<Rightarrow> bool" where
  "status_filter tab now l =
     (if tab = TabArchived then ll_archived l \<noteq> None
      else ll_archived l = None \<and>
        (let in_seven_days = now + 7 * 86400000 in
         case tab of
           TabExpired \<Rightarrow> sql_less_eq (ll_expires l) now \<or> (ll_limit l \<noteq> None \<and> \<not> under_limit l)
         | TabScheduled \<Rightarrow> sql_greater (ll_activates l) now \<and> not_expired now l
         | TabExpiring \<Rightarrow> sql_greater (ll_expires l) now \<and> sql_less_eq (ll_expires l) in_seven_days \<and> not_scheduled now l
         | TabActive \<Rightarrow> (ll_expires l = None \<or> sql_greater (ll_expires l) in_seven_days) \<and> under_limit l \<and> not_scheduled now l
         | _ \<Rightarrow> True))"

text \<open>What \<open>toLinkDto\<close> asks \<open>deriveStatus\<close>.\<close>

definition date_of :: "int option \<Rightarrow> date_input" where
  "date_of t = (case t of None \<Rightarrow> NoDate | Some v \<Rightarrow> DateValue (Some v))"

definition shown_status :: "int \<Rightarrow> 'i listed_link \<Rightarrow> link_status" where
  "shown_status now l =
     derive_status \<lparr> g_disabled = None, g_disabled_at = NoDate, g_owner_unverified = None, g_archived = False,
       g_archived_at = date_of (ll_archived l), g_safe_browsing = None, g_expires_at = date_of (ll_expires l),
       g_activates_at = date_of (ll_activates l), g_click_limit = ll_limit l, g_clicks = Some (or_else (ll_clicks l) 0) \<rparr> now"

section \<open>The search\<close>

definition backslash :: char where
  "backslash = CHR 0x5C"

definition escape_like :: "string \<Rightarrow> string" where
  "escape_like term = concat (map (\<lambda>c. if c = backslash \<or> c = CHR ''%'' \<or> c = CHR ''_'' then [backslash, c] else [c]) term)"

text \<open>Postgres's \<open>LIKE\<close> with a backslash as the escape; \<open>ILIKE\<close> compares lower case.\<close>

fun like :: "string \<Rightarrow> string \<Rightarrow> bool" where
  "like [] s = (s = [])"
| "like (c # p) s =
     (if c = backslash then (case (p, s) of (d # q, x # t) \<Rightarrow> x = d \<and> like q t | _ \<Rightarrow> False)
      else if c = CHR ''%'' then like p s \<or> (case s of [] \<Rightarrow> False | x # t \<Rightarrow> like (c # p) t)
      else case s of [] \<Rightarrow> False | x # t \<Rightarrow> (c = CHR ''_'' \<or> x = c) \<and> like p t)"

definition ilike :: "string \<Rightarrow> string \<Rightarrow> bool" where
  "ilike s p = like (js_lower p) (js_lower s)"

definition matches_search :: "string \<Rightarrow> 'i listed_link \<Rightarrow> bool" where
  "matches_search term l =
     (let needle = ''%'' @ escape_like term @ ''%'' in
      ilike (ll_slug l) needle \<or> ilike (ll_destination l) needle
      \<or> (case ll_title l of None \<Rightarrow> False | Some t \<Rightarrow> ilike t needle)
      \<or> list_ex (\<lambda>t. ilike t needle) (ll_tags l))"

record list_query =
  lq_status :: list_status
  lq_search :: "string option"
  lq_tag :: "string option"
  lq_folder :: "string option"
  lq_domain :: "string option"

definition list_filter :: "int \<Rightarrow> list_query \<Rightarrow> 'i listed_link \<Rightarrow> bool" where
  "list_filter now q l =
     (\<not> ll_managed l \<and> status_filter (lq_status q) now l
      \<and> (truthy (lq_search q) \<longrightarrow> matches_search (the (lq_search q)) l)
      \<and> (truthy (lq_tag q) \<longrightarrow> the (lq_tag q) \<in> set (ll_tags l))
      \<and> (truthy (lq_folder q) \<longrightarrow> ll_folder l = lq_folder q)
      \<and> (truthy (lq_domain q) \<longrightarrow> js_lower (ll_domain l) = js_lower (the (lq_domain q))))"

section \<open>Pages\<close>

type_synonym 'i list_cursor = "int \<times> 'i"

text \<open>A JavaScript date holds milliseconds, so the cursor is cut down to them.\<close>

definition cursor_of :: "'i listed_link \<Rightarrow> 'i list_cursor" where
  "cursor_of l = (ll_created_us l div 1000, ll_id l)"

definition after_cursor :: "'i::linorder list_cursor \<Rightarrow> 'i listed_link \<Rightarrow> bool" where
  "after_cursor c l = (ll_created_us l < fst c * 1000 \<or> ll_created_us l = fst c * 1000 \<and> ll_id l < snd c)"

definition from_cursor :: "'i::linorder list_cursor option \<Rightarrow> 'i listed_link \<Rightarrow> bool" where
  "from_cursor cursor l = (case cursor of None \<Rightarrow> True | Some c \<Rightarrow> after_cursor c l)"

abbreviation age_key :: "'i listed_link \<Rightarrow> int \<times> 'i" where
  "age_key l \<equiv> (ll_created_us l, ll_id l)"

definition newest_first :: "'i::linorder listed_link list \<Rightarrow> 'i listed_link list" where
  "newest_first rows = rev (sort_key age_key rows)"

definition list_page :: "int \<Rightarrow> list_query \<Rightarrow> nat \<Rightarrow> 'i::linorder list_cursor option \<Rightarrow> 'i listed_link list
    \<Rightarrow> 'i listed_link list \<times> nat \<times> 'i list_cursor option" where
  "list_page now q limit cursor table =
     (let matching = filter (list_filter now q) table;
          rows = take (limit + 1) (newest_first (filter (from_cursor cursor) matching));
          has_more = (limit < length rows);
          page = (if has_more then take limit rows else rows)
      in (page, length matching, if has_more \<and> page \<noteq> [] then Some (cursor_of (last page)) else None))"

text \<open>The paging loop of \<open>exportCsv\<close>: not returning is \<open>None\<close>.\<close>

partial_function (option) export_pages :: "int \<Rightarrow> list_query \<Rightarrow> nat \<Rightarrow> 'i::linorder list_cursor option
    \<Rightarrow> 'i listed_link list \<Rightarrow> 'i listed_link list option" where
  "export_pages now q limit cursor table =
     (case list_page now q limit cursor table of (page, n, next) \<Rightarrow>
       if next = None then Some page
       else Option.bind (export_pages now q limit next table) (\<lambda>rest. Some (page @ rest)))"

section \<open>What a tab shows\<close>

lemma shown_status_eq:
  "shown_status now l =
     (if ll_archived l \<noteq> None then StArchived
      else if ll_limit l \<noteq> None \<and> \<not> under_limit l \<or> sql_less_eq (ll_expires l) now then StExpired
      else if sql_greater (ll_activates l) now then StScheduled
      else if sql_less_eq (ll_expires l) (now + 7 * 86400000) then StExpiring
      else StActive)"
  by (cases "ll_expires l"; cases "ll_activates l"; cases "ll_archived l"; cases "ll_limit l")
     (auto simp: shown_status_def derive_status_def date_of_def limit_reached_def past_def ahead_def under_limit_def
       sql_less_eq_def sql_greater_def seven_days_def Let_def)

lemma sql_simps [simp]:
  "\<not> sql_less_eq None t" "\<not> sql_greater None t" "sql_less_eq (Some v) t \<longleftrightarrow> v \<le> t" "sql_greater (Some v) t \<longleftrightarrow> t < v"
  by (simp_all add: sql_less_eq_def sql_greater_def)

lemma no_limit [simp]: "ll_limit l = None \<Longrightarrow> under_limit l"
  by (simp add: under_limit_def)

lemmas tab_defs = status_filter_def shown_status_eq not_expired_def not_scheduled_def Let_def

lemma status_tabs:
  "status_filter TabAll now l \<longleftrightarrow> shown_status now l \<noteq> StArchived"
  "status_filter TabArchived now l \<longleftrightarrow> shown_status now l = StArchived"
  "status_filter TabExpired now l \<longleftrightarrow> shown_status now l = StExpired"
  "status_filter TabScheduled now l \<longleftrightarrow> shown_status now l = StScheduled"
  "status_filter TabActive now l \<longleftrightarrow> shown_status now l = StActive"
  "status_filter TabExpiring now l \<and> under_limit l \<longleftrightarrow> shown_status now l = StExpiring"
  by (cases "ll_expires l"; cases "ll_activates l"; force simp: tab_defs)+

text \<open>A link that has used up its clicks and would expire within the week is on both tabs.\<close>

lemma spent_link_under_expiring:
  assumes "ll_archived l = None" "\<not> under_limit l" "ll_expires l = Some e" "now < e" "e \<le> now + 7 * 86400000"
    "ll_activates l = None"
  shows "status_filter TabExpiring now l \<and> shown_status now l = StExpired"
  using assms by (cases "ll_limit l") (auto simp: tab_defs)

section \<open>What the search finds\<close>

lemma like_literal:
  "like (escape_like t @ p) s \<longleftrightarrow> (\<exists>u. s = t @ u \<and> like p u)"
proof (induction t arbitrary: s)
  case Nil then show ?case by (simp add: escape_like_def)
next
  case (Cons c t)
  have "escape_like (c # t) = (if c = backslash \<or> c = CHR ''%'' \<or> c = CHR ''_'' then [backslash, c] else [c]) @ escape_like t"
    by (simp add: escape_like_def)
  then show ?case
    using Cons by (cases s) (auto simp: backslash_def)
qed

lemma like_percent: "like (CHR ''%'' # p) s \<longleftrightarrow> (\<exists>u v. s = u @ v \<and> like p v)"
proof (induction s)
  case Nil then show ?case by (simp add: backslash_def)
next
  case (Cons x s)
  have "like (CHR ''%'' # p) (x # s) \<longleftrightarrow> like p (x # s) \<or> (\<exists>u v. s = u @ v \<and> like p v)"
    using Cons by (simp add: backslash_def)
  also have "\<dots> \<longleftrightarrow> (\<exists>u v. x # s = u @ v \<and> like p v)"
    by (metis append_Cons append_Nil append_eq_Cons_conv)
  finally show ?case .
qed

lemma like_contains: "like (''%'' @ escape_like t @ ''%'') s \<longleftrightarrow> str_includes s t"
proof -
  have rest: "like ''%'' u" for u by (subst like_percent) (rule exI [of _ u], simp)
  have "like (''%'' @ escape_like t @ ''%'') s \<longleftrightarrow> (\<exists>u v. s = u @ v \<and> (\<exists>w. v = t @ w \<and> like ''%'' w))"
    by (simp only: append_Cons append_Nil like_percent [of "escape_like t @ ''%''"] like_literal)
  then show ?thesis
    unfolding str_includes_iff using rest by blast
qed

lemma js_lower_special: "js_lower_char c = d \<longleftrightarrow> c = d" if "d \<in> {backslash, CHR ''%'', CHR ''_''}"
proof -
  have d: "cu d \<in> {92, 37, 95}" "char_of (cu d) = d" using that by (auto simp: cu_def backslash_def)
  show ?thesis
  proof (cases "65 \<le> cu c \<and> cu c \<le> 90 \<or> 192 \<le> cu c \<and> cu c \<le> 222 \<and> cu c \<noteq> 215")
    case True
    then have "cu (char_of (cu c + 32)) \<noteq> cu d" "cu c \<noteq> cu d" using d by auto
    then show ?thesis using True by (auto simp: js_lower_char_def Let_def)
  qed (auto simp: js_lower_char_def Let_def)
qed

lemma escape_js_lower: "js_lower (escape_like t) = escape_like (js_lower t)"
  by (induction t) (auto simp: escape_like_def js_lower_def js_lower_special)

lemma ilike_contains: "ilike s (''%'' @ escape_like t @ ''%'') \<longleftrightarrow> str_includes (js_lower s) (js_lower t)"
proof -
  have "js_lower ''%'' = ''%''" by (simp add: js_lower_def js_lower_special)
  then show ?thesis
    unfolding ilike_def js_lower_append escape_js_lower by (simp only: like_contains)
qed

section \<open>Pages in order\<close>

lemma newest_first_filter: "newest_first (filter P xs) = filter P (newest_first xs)"
  by (simp add: newest_first_def filter_sort [symmetric] rev_filter)

lemma set_newest_first [simp]: "set (newest_first xs) = set xs"
  by (simp add: newest_first_def)

definition strictly_older :: "'i::linorder listed_link list \<Rightarrow> bool" where
  "strictly_older xs = sorted_wrt (\<lambda>a b. age_key b < age_key a) xs"

lemma newest_first_sorted:
  assumes "distinct (map ll_id xs)"
  shows "strictly_older (newest_first xs)"
proof -
  have "distinct (map age_key xs)" using assms by (auto simp: distinct_map inj_on_def)
  then have "distinct (map age_key (sort_key age_key xs))"
    by (metis (no_types, lifting) distinct_map distinct_sort set_sort)
  moreover have "sorted (map age_key (sort_key age_key xs))" by (rule sorted_sort_key)
  ultimately have "sorted_wrt (\<lambda>a b. age_key a < age_key b) (sort_key age_key xs)"
    using strict_sorted_iff [of "map age_key (sort_key age_key xs)"] by (simp add: sorted_wrt_map)
  then show ?thesis by (simp add: strictly_older_def newest_first_def sorted_wrt_rev)
qed

lemma after_cursor_iff: "after_cursor c l \<longleftrightarrow> age_key l < (fst c * 1000, snd c)"
  by (auto simp: after_cursor_def less_prod_def')

lemma cursor_not_newer: "(fst (cursor_of l) * 1000, snd (cursor_of l)) \<le> age_key l"
  for l :: "'i::linorder listed_link"
proof -
  have "ll_created_us l div 1000 * 1000 \<le> ll_created_us l"
    using minus_mod_eq_div_mult [of "ll_created_us l" 1000] pos_mod_sign [of 1000 "ll_created_us l"] by linarith
  then show ?thesis by (auto simp: cursor_of_def less_eq_prod_def)
qed

definition whole_ms :: "'i listed_link \<Rightarrow> bool" where
  "whole_ms l = (ll_created_us l mod 1000 = 0)"

lemma cursor_exact: "whole_ms l \<Longrightarrow> (fst (cursor_of l) * 1000, snd (cursor_of l)) = age_key l"
  by (auto simp: cursor_of_def whole_ms_def)

lemma after_cursor_older: "after_cursor (cursor_of m) l \<Longrightarrow> age_key l < age_key m"
  unfolding after_cursor_iff by (rule order_less_le_trans [OF _ cursor_not_newer])

lemma from_cursor_down: "from_cursor c m \<Longrightarrow> age_key l < age_key m \<Longrightarrow> from_cursor c l"
  by (auto simp: from_cursor_def after_cursor_iff simp del: less_prod_simp split: option.splits dest: order_less_trans)

definition all_matching :: "int \<Rightarrow> list_query \<Rightarrow> 'i::linorder listed_link list \<Rightarrow> 'i listed_link list" where
  "all_matching now q table = newest_first (filter (list_filter now q) table)"

definition matching_from :: "int \<Rightarrow> list_query \<Rightarrow> 'i::linorder listed_link list \<Rightarrow> 'i list_cursor option \<Rightarrow> 'i listed_link list" where
  "matching_from now q table c = filter (from_cursor c) (all_matching now q table)"

lemma list_page_eq:
  "list_page now q limit c table =
     (let rest = matching_from now q table c in
      (take limit rest, length (all_matching now q table),
       if limit < length rest \<and> 0 < limit then Some (cursor_of (rest ! (limit - 1))) else None))"
proof -
  have len: "length (newest_first xs) = length xs" for xs :: "'a listed_link list" by (simp add: newest_first_def)
  have n: "newest_first (filter (from_cursor c) (filter (list_filter now q) table)) = matching_from now q table c"
    by (simp add: matching_from_def all_matching_def newest_first_filter)
  show ?thesis
    unfolding list_page_def Let_def n
    by (auto simp: all_matching_def len min_def last_conv_nth take_eq_Nil)
qed

lemma matching_from_sorted:
  assumes "distinct (map ll_id table)"
  shows "strictly_older (matching_from now q table c)"
proof -
  have "distinct (map ll_id (filter (list_filter now q) table))" using assms by (simp add: distinct_map_filter)
  then have "strictly_older (all_matching now q table)" unfolding all_matching_def by (rule newest_first_sorted)
  then show ?thesis by (simp add: matching_from_def strictly_older_def sorted_wrt_filter)
qed

text \<open>A page's cursor leaves rows below the page only, and all of them where times are whole milliseconds.\<close>

lemma next_page:
  assumes d: "distinct (map ll_id table)" and n: "0 < n" "n \<le> length rest"
    and rest: "rest = matching_from now q table c" and c': "c' = cursor_of (rest ! (n - 1))"
  shows "matching_from now q table (Some c') = filter (after_cursor c') (drop n rest)"
    and "whole_ms (rest ! (n - 1)) \<Longrightarrow> matching_from now q table (Some c') = drop n rest"
proof -
  have s: "strictly_older rest" using matching_from_sorted [OF d] by (simp add: rest)
  have mem: "from_cursor c (rest ! (n - 1))" using n nth_mem [of "n - 1" rest] by (simp add: rest matching_from_def)
  have "matching_from now q table (Some c') = filter (after_cursor c') (all_matching now q table)"
    unfolding matching_from_def by (intro filter_cong refl) (simp add: from_cursor_def)
  also have "\<dots> = filter (after_cursor c') rest"
    unfolding rest matching_from_def filter_filter
    using after_cursor_older from_cursor_down [OF mem] by (intro filter_cong refl) (auto simp: c')
  also have "\<dots> = filter (after_cursor c') (take n rest) @ filter (after_cursor c') (drop n rest)"
    by (simp add: filter_append [symmetric] del: filter_append)
  also have "filter (after_cursor c') (take n rest) = []"
  proof -
    have "\<not> after_cursor c' (rest ! i)" if i: "i < n" for i
    proof
      assume "after_cursor c' (rest ! i)"
      then have "age_key (rest ! i) < age_key (rest ! (n - 1))" unfolding c' by (rule after_cursor_older)
      moreover have "i = n - 1 \<or> age_key (rest ! (n - 1)) < age_key (rest ! i)"
        using s i n sorted_wrt_nth_less [OF s [unfolded strictly_older_def], of i "n - 1"] by linarith
      ultimately show False by (metis order_less_asym)
    qed
    then show ?thesis using n by (auto simp: filter_empty_conv in_set_conv_nth)
  qed
  finally show 1: "matching_from now q table (Some c') = filter (after_cursor c') (drop n rest)" by simp
  assume w: "whole_ms (rest ! (n - 1))"
  have "after_cursor c' l" if l: "l \<in> set (drop n rest)" for l
  proof -
    obtain i where i: "l = drop n rest ! i" "i < length (drop n rest)" using l by (metis in_set_conv_nth)
    have "age_key (rest ! (n + i)) < age_key (rest ! (n - 1))"
      by (rule sorted_wrt_nth_less [OF s [unfolded strictly_older_def]]) (use i n in simp_all)
    moreover have "l = rest ! (n + i)" using i n(2) by (simp only: nth_drop)
    ultimately have "age_key l < age_key (rest ! (n - 1))" by (simp only:)
    then show ?thesis unfolding after_cursor_iff c' cursor_exact [OF w] .
  qed
  then show "matching_from now q table (Some c') = drop n rest" unfolding 1 by (intro filter_True ballI)
qed

lemma export_pages_total:
  assumes d: "distinct (map ll_id table)" and n: "0 < n"
  shows "\<exists>rows. export_pages now q n c table = Some rows \<and> set rows \<subseteq> set (matching_from now q table c)
    \<and> ((\<forall>l \<in> set table. whole_ms l) \<longrightarrow> rows = matching_from now q table c)"
proof (induction "length (matching_from now q table c)" arbitrary: c rule: less_induct)
  case less
  define rest where "rest = matching_from now q table c"
  show ?case
  proof (cases "n < length rest")
    case False
    then show ?thesis
      by (subst export_pages.simps) (simp add: list_page_eq rest_def [symmetric])
  next
    case True
    define c' where "c' = cursor_of (rest ! (n - 1))"
    have np: "matching_from now q table (Some c') = filter (after_cursor c') (drop n rest)"
      "whole_ms (rest ! (n - 1)) \<Longrightarrow> matching_from now q table (Some c') = drop n rest"
      using next_page [OF d n less_imp_le [OF True] rest_def c'_def] by auto
    have "length (matching_from now q table (Some c')) < length rest"
      unfolding np(1) using True n length_filter_le [of "after_cursor c'" "drop n rest"] by simp
    from less [OF this [unfolded rest_def]] obtain rows where
      rows: "export_pages now q n (Some c') table = Some rows" "set rows \<subseteq> set (matching_from now q table (Some c'))"
        "(\<forall>l \<in> set table. whole_ms l) \<longrightarrow> rows = matching_from now q table (Some c')" by blast
    have step: "export_pages now q n c table = Some (take n rest @ rows)"
      by (subst export_pages.simps) (simp add: list_page_eq rest_def [symmetric] True n c'_def [symmetric] rows(1) del: One_nat_def)
    have "rest ! (n - 1) \<in> set table"
      using nth_mem [of "n - 1" rest] True n by (simp add: rest_def matching_from_def all_matching_def)
    then have "(\<forall>l \<in> set table. whole_ms l) \<longrightarrow> take n rest @ rows = rest" using rows(3) np(2) by auto
    moreover have "set (take n rest @ rows) \<subseteq> set rest"
      using rows(2) unfolding np(1) by (auto dest: in_set_takeD in_set_dropD)
    ultimately show ?thesis using step by (simp add: rest_def)
  qed
qed

text \<open>Rows that share one instant finer than a millisecond: everything after the first page is skipped.\<close>

lemma same_instant_skipped:
  assumes "distinct (map ll_id table)" "0 < n" "n < length (all_matching now q table)"
    "\<forall>l \<in> set table. ll_created_us l = t" "t mod 1000 \<noteq> 0"
  shows "export_pages now q n None table = Some (take n (all_matching now q table))"
proof -
  let ?S = "all_matching now q table"
  have S: "matching_from now q table None = ?S" by (simp add: matching_from_def from_cursor_def)
  have sub: "set ?S \<subseteq> set table" by (auto simp: all_matching_def)
  define c where "c = cursor_of (?S ! (n - 1))"
  have "?S ! (n - 1) \<in> set ?S" using assms(3) by simp
  then have "fst c * 1000 < t"
    using assms(4,5) sub pos_mod_sign [of 1000 t] minus_mod_eq_div_mult [of t 1000] by (auto simp: c_def cursor_of_def)
  then have "matching_from now q table (Some c) = []"
    using assms(4) sub by (auto simp: matching_from_def from_cursor_def after_cursor_def filter_empty_conv)
  then have "export_pages now q n (Some c) table = Some []"
    by (subst export_pages.simps) (simp add: list_page_eq)
  then show ?thesis
    using assms(2,3) by (subst export_pages.simps) (simp add: list_page_eq S c_def [symmetric] Let_def del: One_nat_def)
qed

section \<open>The text of a cursor\<close>

text \<open>\<open>b64\<close> and \<open>unb64\<close> are the runtime's base64url.\<close>

definition encode_cursor :: "(string \<Rightarrow> string) \<Rightarrow> int \<Rightarrow> string \<Rightarrow> string" where
  "encode_cursor b64 created i = b64 (to_iso created @ ''|'' @ i)"

definition decode_cursor :: "(string \<Rightarrow> string) \<Rightarrow> string \<Rightarrow> string list_cursor option" where
  "decode_cursor unb64 s =
     (case split_on (CHR ''|'') (unb64 s) of
        stamp # i # _ \<Rightarrow> if stamp = [] \<or> i = [] then None else map_option (\<lambda>t. (t, i)) (parse_iso stamp)
      | _ \<Rightarrow> None)"

lemma digit_char_no_bar: "0 \<le> n \<Longrightarrow> n < 10 \<Longrightarrow> digit_char (nat n) \<noteq> CHR ''|''"
proof -
  assume "0 \<le> n" "n < 10"
  then have "is_digit (digit_char (nat n))" by (intro is_digit_digit_char) simp
  then show ?thesis by (auto simp: is_digit_def cu_def)
qed

lemma two_no_bar: "0 \<le> n \<Longrightarrow> n < 100 \<Longrightarrow> CHR ''|'' \<notin> set (two n)"
proof -
  assume "0 \<le> n" "n < 100"
  then have "0 \<le> n div 10" "n div 10 < 10" by (simp_all add: pos_imp_zdiv_nonneg_iff)
  then show ?thesis
    using digit_char_no_bar [of "n div 10"] digit_char_no_bar [of "n mod 10"] by (auto simp: two_def)
qed

lemma to_iso_no_bar:
  assumes "fst (civil_of_days (t div day_ms)) \<in> {0..9999}"
  shows "CHR ''|'' \<notin> set (to_iso t)"
proof -
  obtain y m d where c: "civil_of_days (t div day_ms) = (y, m, d)" by (cases "civil_of_days (t div day_ms)")
  note days = days_of_civil_of_days [OF c]
  have r: "0 \<le> t mod day_ms" "t mod day_ms < 86400000" by (simp_all add: day_ms_def)
  have y: "0 \<le> y" "y \<le> 9999" using assms c by auto
  have "CHR ''|'' \<notin> set (four y)"
    using y two_no_bar [of "y div 100"] two_no_bar [of "y mod 100"] by (simp add: four_def)
  moreover have "CHR ''|'' \<notin> set (three (t mod day_ms mod 1000))"
  proof -
    have "0 \<le> t mod day_ms mod 1000 div 100" "t mod day_ms mod 1000 div 100 < 10"
      using pos_mod_bound [of 1000 "t mod day_ms"] pos_mod_sign [of 1000 "t mod day_ms"]
      by (simp_all add: pos_imp_zdiv_nonneg_iff del: pos_mod_bound pos_mod_sign)
    then show ?thesis
      using digit_char_no_bar [OF \<open>0 \<le> t mod day_ms mod 1000 div 100\<close>] two_no_bar [of "t mod day_ms mod 1000 mod 100"]
      by (simp add: three_def)
  qed
  moreover have "CHR ''|'' \<notin> set (two m)" "CHR ''|'' \<notin> set (two d)" using days by (simp_all add: two_no_bar)
  moreover have "CHR ''|'' \<notin> set (two (t mod day_ms div 3600000))"
  proof (rule two_no_bar)
    show "0 \<le> t mod day_ms div 3600000" using r by (simp add: pos_imp_zdiv_nonneg_iff)
    show "t mod day_ms div 3600000 < 100" using r by linarith
  qed
  moreover have "CHR ''|'' \<notin> set (two (t mod day_ms div 60000 mod 60))" "CHR ''|'' \<notin> set (two (t mod day_ms div 1000 mod 60))"
  proof -
    have "CHR ''|'' \<notin> set (two (x mod 60))" for x
      by (rule two_no_bar) (use pos_mod_bound [of 60 x] in \<open>simp_all del: pos_mod_bound\<close>)
    then show "CHR ''|'' \<notin> set (two (t mod day_ms div 60000 mod 60))" "CHR ''|'' \<notin> set (two (t mod day_ms div 1000 mod 60))"
      by blast+
  qed
  ultimately show ?thesis using y by (simp add: to_iso_def c Let_def iso_year_def)
qed

lemma cursor_roundtrip:
  assumes "unb64 (b64 (to_iso t @ ''|'' @ i)) = to_iso t @ ''|'' @ i" "i \<noteq> []" "CHR ''|'' \<notin> set i"
    "fst (civil_of_days (t div day_ms)) \<in> {0..9999}"
  shows "decode_cursor unb64 (encode_cursor b64 t i) = Some (t, i)"
proof -
  have "split_on (CHR ''|'') (to_iso t @ CHR ''|'' # i) = [to_iso t, i]"
    using assms(3) to_iso_no_bar [OF assms(4)] by (simp add: split_on_append split_on_no_sep)
  moreover have "to_iso t \<noteq> []" by (auto simp: to_iso_def Let_def split: prod.splits)
  ultimately show ?thesis
    using assms parse_to_iso by (simp add: decode_cursor_def encode_cursor_def)
qed

section \<open>The sparkline\<close>

definition sparkline_days :: nat where
  "sparkline_days = 30"

definition build_sparkline :: "(string \<times> int) list \<Rightarrow> int \<Rightarrow> int list" where
  "build_sparkline daily today =
     map (\<lambda>i. or_else (map_of (rev daily) (take 10 (to_iso (today - int i * day_ms)))) 0) (rev [0..<sparkline_days])"

lemma sparkline_positions:
  "length (build_sparkline daily today) = 30"
  "k < 30 \<Longrightarrow> build_sparkline daily today ! k = or_else (map_of (rev daily) (take 10 (to_iso (today - int (29 - k) * day_ms)))) 0"
  by (simp_all add: build_sparkline_def sparkline_days_def rev_nth del: upt_Suc)

section \<open>The CSV export\<close>

definition csv_guarded :: "string \<Rightarrow> string" where
  "csv_guarded s = (if s \<noteq> [] \<and> hd s \<in> {CHR ''='', CHR ''+'', CHR ''-'', CHR ''@'', CHR 0x09, CHR 0x0D} then CHR 0x27 # s else s)"

definition csv_cell :: "string \<Rightarrow> string" where
  "csv_cell s =
     (let g = csv_guarded s in
      if \<exists>c \<in> set g. c \<in> {CHR 0x22, CHR '','', CHR 0x0A, CHR 0x0D}
      then [CHR 0x22] @ replace_all (CHR 0x22) [CHR 0x22, CHR 0x22] g @ [CHR 0x22] else g)"

fun status_text :: "link_status \<Rightarrow> string" where
  "status_text StActive = ''active''"
| "status_text StScheduled = ''scheduled''"
| "status_text StExpiring = ''expiring''"
| "status_text StExpired = ''expired''"
| "status_text StArchived = ''archived''"

definition export_columns :: "string list" where
  "export_columns = [''short_url'', ''destination'', ''title'', ''status'', ''clicks'', ''unique_clicks'', ''tags'', ''folder'',
     ''redirect_type'', ''password_protected'', ''activates_at'', ''expires_at'', ''safe_browsing'', ''created_at'', ''created_by'']"

definition export_row :: "int \<Rightarrow> 'i listed_link \<Rightarrow> string list" where
  "export_row now l =
     [ll_domain l @ ''/'' @ ll_slug l, ll_destination l, or_else (ll_title l) [], status_text (shown_status now l),
      show_int (or_else (ll_clicks l) 0), show_int (or_else (ll_unique l) 0), join_with '' '' (ll_tags l),
      or_else (ll_folder l) [], ll_redirect l, if truthy (ll_password l) then ''true'' else ''false'',
      or_else (map_option to_iso (ll_activates l)) [], or_else (map_option to_iso (ll_expires l)) [],
      ll_safe l, to_iso (ll_created_us l div 1000), or_else (ll_creator l) []]"

definition csv_line :: "string list \<Rightarrow> string" where
  "csv_line cells = join_with '','' (map csv_cell cells) @ [CHR 0x0A]"

definition export_csv :: "int \<Rightarrow> list_query \<Rightarrow> 'i::linorder listed_link list \<Rightarrow> string option" where
  "export_csv now q table =
     map_option (\<lambda>rows. join_with '','' export_columns @ [CHR 0x0A] @ concat (map (csv_line \<circ> export_row now) rows))
       (export_pages now q 500 None table)"

text \<open>A reader of CSV: quoted cells end at a quote that is not doubled.\<close>

fun read_quoted :: "string \<Rightarrow> string \<times> string" where
  "read_quoted [] = ([], [])"
| "read_quoted (c # s) =
     (if c = CHR 0x22 then
        (case s of d # t \<Rightarrow> if d = CHR 0x22 then (let (v, r) = read_quoted t in (c # v, r)) else ([], s) | [] \<Rightarrow> ([], []))
      else let (v, r) = read_quoted s in (c # v, r))"

definition plain_char :: "char \<Rightarrow> bool" where
  "plain_char c = (c \<notin> {CHR '','', CHR 0x0A})"

definition read_cell :: "string \<Rightarrow> string \<times> string" where
  "read_cell s = (if s \<noteq> [] \<and> hd s = CHR 0x22 then read_quoted (tl s) else (takeWhile plain_char s, dropWhile plain_char s))"

lemma read_quoted_length: "length (snd (read_quoted s)) \<le> length s"
proof (induction s rule: read_quoted.induct)
  case (2 c s)
  show ?case
  proof (cases "c = CHR 0x22")
    case True
    then show ?thesis
    proof (cases s)
      case (Cons d t)
      then show ?thesis using 2(1) [OF True Cons] True by (cases "d = CHR 0x22") (simp_all add: split_beta)
    qed simp
  next
    case False
    then show ?thesis using 2(2) [OF False] by (simp add: split_beta)
  qed
qed simp

lemma read_cell_length: "length (snd (read_cell s)) \<le> length s"
  using read_quoted_length [of "tl s"] length_dropWhile_le [of plain_char s] by (auto simp: read_cell_def)

function read_row :: "string \<Rightarrow> string list \<times> string" where
  "read_row s =
     (case read_cell s of
        (v, []) \<Rightarrow> ([v], [])
      | (v, c # t) \<Rightarrow> if c = CHR '','' then (let (vs, u) = read_row t in (v # vs, u)) else ([v], if c = CHR 0x0A then t else []))"
  by auto
termination
proof (relation "measure length")
  fix s v r c t assume "(v, r) = read_cell s" "r = c # t" "c = CHR '',''"
  then show "(t, s) \<in> measure length" using read_cell_length [of s] by (metis in_measure length_Cons less_eq_Suc_le snd_conv)
qed simp

declare read_row.simps [simp del]

lemma read_row_length: "s \<noteq> [] \<Longrightarrow> length (snd (read_row s)) < length s"
proof (induction s rule: read_row.induct)
  case (1 s)
  obtain v r where c: "read_cell s = (v, r)" by (cases "read_cell s")
  have l: "length r \<le> length s" using read_cell_length [of s] c by simp
  show ?case
  proof (cases r)
    case Nil then show ?thesis using 1(2) c by (simp add: read_row.simps [of s])
  next
    case (Cons d t)
    have "length (snd (read_row t)) \<le> length t" if d: "d = CHR '',''"
    proof (cases "t = []")
      case True then show ?thesis by (simp add: read_row.simps [of "[]"] read_cell_def)
    next
      case False
      then show ?thesis using 1(1) [OF c [symmetric] Cons d] by simp
    qed
    then show ?thesis using l c Cons by (auto simp: read_row.simps [of s] split: prod.splits)
  qed
qed

function read_csv :: "string \<Rightarrow> string list list" where
  "read_csv s = (if s = [] then [] else case read_row s of (row, u) \<Rightarrow> row # read_csv u)"
  by auto
termination
proof (relation "measure length")
  fix s row u assume "s \<noteq> []" "(row, u) = read_row s"
  then show "(u, s) \<in> measure length" using read_row_length [of s] by (metis in_measure snd_conv)
qed simp

declare read_csv.simps [simp del]

text \<open>What is read is what was written, up to the guard.\<close>

definition ends_cell :: "string \<Rightarrow> bool" where
  "ends_cell r = (r \<noteq> [] \<and> hd r \<in> {CHR '','', CHR 0x0A})"

lemma read_quoted_back:
  assumes "ends_cell r"
  shows "read_quoted (replace_all (CHR 0x22) [CHR 0x22, CHR 0x22] g @ CHR 0x22 # r) = (g, r)"
proof (induction g)
  case Nil
  then show ?case using assms by (cases r) (auto simp: ends_cell_def replace_all_def)
next
  case (Cons c g)
  then show ?case by (cases "c = CHR 0x22") (simp_all add: replace_all_def)
qed

lemma read_cell_back:
  assumes "ends_cell r"
  shows "read_cell (csv_cell s @ r) = (csv_guarded s, r)"
proof (cases "\<exists>c \<in> set (csv_guarded s). c \<in> {CHR 0x22, CHR '','', CHR 0x0A, CHR 0x0D}")
  case True
  then have "csv_cell s @ r = CHR 0x22 # replace_all (CHR 0x22) [CHR 0x22, CHR 0x22] (csv_guarded s) @ CHR 0x22 # r"
    unfolding csv_cell_def Let_def by (simp only: if_True append_Cons append_Nil append_assoc)
  then show ?thesis by (simp add: read_cell_def read_quoted_back [OF assms])
next
  case False
  then have plain: "csv_cell s = csv_guarded s" "\<forall>c \<in> set (csv_guarded s). plain_char c \<and> c \<noteq> CHR 0x22"
    by (auto simp: csv_cell_def Let_def plain_char_def)
  have r: "r \<noteq> []" "\<not> plain_char (hd r)" "hd r \<noteq> CHR 0x22" using assms by (auto simp: ends_cell_def plain_char_def)
  have "hd (csv_guarded s @ r) \<noteq> CHR 0x22" using plain(2) r(3) by (cases "csv_guarded s") auto
  moreover have "takeWhile plain_char r = []" "dropWhile plain_char r = r" using r by (cases r; simp)+
  ultimately show ?thesis
    using plain by (simp add: read_cell_def takeWhile_append2 dropWhile_append2)
qed

lemma read_row_back:
  assumes "cells \<noteq> []"
  shows "read_row (csv_line cells @ u) = (map csv_guarded cells, u)"
  using assms
proof (induction cells rule: induct_list012)
  case (2 s)
  have "ends_cell (CHR 0x0A # u)" by (simp add: ends_cell_def)
  from read_cell_back [OF this] show ?case
    by (simp add: csv_line_def read_row.simps [of "csv_cell s @ _"])
next
  case (3 s s' cells)
  have "csv_line (s # s' # cells) @ u = csv_cell s @ CHR '','' # csv_line (s' # cells) @ u"
    by (simp add: csv_line_def)
  moreover have "ends_cell (CHR '','' # csv_line (s' # cells) @ u)" by (simp add: ends_cell_def)
  ultimately have "read_row (csv_line (s # s' # cells) @ u)
      = (let (vs, w) = read_row (csv_line (s' # cells) @ u) in (csv_guarded s # vs, w))"
    by (simp add: read_row.simps [of "csv_cell s @ _"] read_cell_back)
  then show ?case using 3(2) by simp
qed simp

lemma csv_line_not_Nil: "csv_line cells \<noteq> []"
  by (simp add: csv_line_def)

lemma read_csv_back: "\<forall>cells \<in> set rows. cells \<noteq> [] \<Longrightarrow> read_csv (concat (map csv_line rows)) = map (map csv_guarded) rows"
proof (induction rows)
  case Nil then show ?case by (simp add: read_csv.simps [of "[]"])
next
  case (Cons cells rows)
  then show ?case
    by (subst read_csv.simps) (simp add: read_row_back csv_line_not_Nil)
qed

lemma export_columns_plain: "join_with '','' export_columns @ [CHR 0x0A] = csv_line export_columns"
  "map csv_guarded export_columns = export_columns"
  by code_simp+

lemma csv_guarded_safe: "csv_guarded s = [] \<or> hd (csv_guarded s) \<notin> {CHR ''='', CHR ''+'', CHR ''-'', CHR ''@'', CHR 0x09, CHR 0x0D}"
  by (auto simp: csv_guarded_def)

lemma export_csv_reads_back:
  assumes "export_pages now q 500 None table = Some rows" "export_csv now q table = Some csv"
  shows "read_csv csv = export_columns # map (map csv_guarded \<circ> export_row now) rows"
proof -
  have "csv = concat (map csv_line (export_columns # map (export_row now) rows))"
    using assms unfolding export_csv_def append_assoc [symmetric] export_columns_plain(1) by simp
  moreover have "\<forall>cells \<in> set (export_columns # map (export_row now) rows). cells \<noteq> []"
    by (auto simp: export_columns_def export_row_def)
  ultimately have "read_csv csv = map (map csv_guarded) (export_columns # map (export_row now) rows)"
    by (simp only: read_csv_back)
  then show ?thesis by (simp add: export_columns_plain(2))
qed

section \<open>The properties\<close>


text \<open>
  C36. The search is literal: whatever wildcards are typed, a link is found exactly when the term occurs, in
  any case, in its back-half, its destination, its title or one of its tags.
\<close>

theorem search_is_literal:
  "matches_search term l \<longleftrightarrow>
     (\<exists>s \<in> set (ll_slug l # ll_destination l # (case ll_title l of None \<Rightarrow> [] | Some t \<Rightarrow> [t]) @ ll_tags l).
        str_includes (js_lower s) (js_lower term))"
  by (auto simp: matches_search_def Let_def ilike_contains [simplified] list_ex_iff split: option.splits)

text \<open>
  C35. The export of an unchanging table ends; it lists only links the filters select, all of them, newest
  first, when their creation times are whole milliseconds; and a CSV reader gets every cell back as it was,
  but for the quote put before a formula.
\<close>

theorem csv_export_faithful:
  assumes "distinct (map ll_id table)"
  shows "\<exists>rows csv. export_pages now q 500 None table = Some rows \<and> export_csv now q table = Some csv
    \<and> set rows \<subseteq> set (filter (list_filter now q) table)
    \<and> ((\<forall>l \<in> set table. whole_ms l) \<longrightarrow> rows = newest_first (filter (list_filter now q) table))
    \<and> read_csv csv = export_columns # map (map csv_guarded \<circ> export_row now) rows"
proof -
  have c: "matching_from now q table None = newest_first (filter (list_filter now q) table)"
    by (simp add: matching_from_def from_cursor_def all_matching_def)
  obtain rows where r: "export_pages now q 500 None table = Some rows" "set rows \<subseteq> set (matching_from now q table None)"
      "(\<forall>l \<in> set table. whole_ms l) \<longrightarrow> rows = matching_from now q table None"
    using export_pages_total [OF assms, of 500 now q None] by auto
  then obtain csv where t: "export_csv now q table = Some csv" by (simp add: export_csv_def)
  show ?thesis
    using r t export_csv_reads_back [OF r(1) t] unfolding c by auto
qed

definition example_row :: "nat listed_link" where
  "example_row = \<lparr> ll_id = 1, ll_created_us = 1700000000000000, ll_archived = None, ll_expires = None, ll_activates = None,
     ll_limit = None, ll_clicks = Some 3, ll_slug = ''sale'', ll_destination = ''https://e.com/?a=1,2'', ll_title = Some ''=SUM(A1)'',
     ll_tags = [''a'', ''b''], ll_folder = None, ll_domain = ''s.co'', ll_managed = False, ll_unique = None, ll_redirect = ''302'',
     ll_password = None, ll_safe = ''clean'', ll_creator = Some ''Al'' \<rparr>"

definition listed_rows :: "nat listed_link list" where
  "listed_rows = [example_row, example_row\<lparr>ll_id := 2, ll_created_us := 1700000000001000\<rparr>]"

definition everything :: list_query where
  "everything = \<lparr> lq_status = TabAll, lq_search = None, lq_tag = None, lq_folder = None, lq_domain = None \<rparr>"

theorem csv_export_faithful_witness:
  "\<exists>rows csv. export_csv 1700000000002 everything listed_rows = Some csv
    \<and> rows = rev listed_rows \<and> read_csv csv = export_columns # map (map csv_guarded \<circ> export_row 1700000000002) rows"
proof -
  have d: "distinct (map ll_id listed_rows)" by code_simp
  have w: "\<forall>l \<in> set listed_rows. whole_ms l" by (simp add: listed_rows_def example_row_def whole_ms_def)
  have "newest_first (filter (list_filter 1700000000002 everything) listed_rows) = rev listed_rows" by code_simp
  then show ?thesis using csv_export_faithful [OF d, of 1700000000002 everything] w by metis
qed

end
