(* ===== verification/Spec2Isabelle.thy ===== *)
theory Spec2Isabelle
  imports Redirect_Props Salt Billing_Math Http_Url Routing_Reference Visitor Outbox Projection
    Webhooks Lease Kill_Switches Plans Members Retention Links Link_List
begin

text \<open>
  A verification library of SnapURL, a URL shortener in TypeScript: an API that keeps links, domains,
  plans and settings in Postgres; a redirect service that answers short links; a worker that projects
  links to DynamoDB and to the key-value store at the edge, delivers webhooks and runs the timed jobs.
  The library translates their logic into HOL definitions and states what makes it correct.

  \<^bold>\<open>Parts and how they meet.\<close> The API writes a link and, in the same transaction, a row of the outbox.
  The worker drains the outbox (\<^verbatim>\<open>outbox.ts\<close>) into the projection writers (\<^verbatim>\<open>dynamo-projection.ts\<close>,
  \<^verbatim>\<open>kvs-projection.ts\<close>), which write the item that the redirect service resolves, the edge value of a
  link simple enough to be served there, and bust the cache in front. The redirect service
  (\<^verbatim>\<open>redirect/main.ts\<close>) resolves a slug through that cache, decides the gate, reserves a click, checks
  the password, evaluates the routing rules, builds the destination and records a click. What happens in a
  workspace raises events that are queued as webhook deliveries. Kill switches and plans decide
  what the API and the mailer may do at all.

  \<^bold>\<open>Theories and code.\<close>
  \<^item> \<^theory_text>\<open>Prelude\<close>: collections, lists, maps, text of numbers, lower case,
    splitting; \<^theory_text>\<open>Js_Number\<close>: doubles as rationals rounded to 53 bits, and what JavaScript's
    integer conversions do; \<^theory_text>\<open>Js_Date\<close>: civil dates, \<^verbatim>\<open>toISOString\<close> and \<^verbatim>\<open>Date.parse\<close> of that form.
  \<^item> \<^theory_text>\<open>Routing\<close>, \<^theory_text>\<open>Routing_Reference\<close>: \<^verbatim>\<open>packages/domain/src/routing.ts\<close> and \<^verbatim>\<open>routing.reference.ts\<close>,
    the matching of a rule, the weighted split, the chain and its validation; the two evaluators agree.
  \<^item> \<^theory_text>\<open>Destination\<close>: \<^verbatim>\<open>destination.ts\<close>, \<^verbatim>\<open>expiry.ts\<close>, the deep links and slugs of \<^verbatim>\<open>packages/domain\<close>.
  \<^item> \<^theory_text>\<open>Hll\<close>: \<^verbatim>\<open>hll.ts\<close>, the sketches of unique visitors; \<^theory_text>\<open>Visitor\<close>: \<^verbatim>\<open>visitor.ts\<close> and
    \<^verbatim>\<open>client-ip.ts\<close>; \<^theory_text>\<open>Billing_Math\<close>: \<^verbatim>\<open>proration.ts\<close>, \<^verbatim>\<open>coupon.ts\<close>; \<^theory_text>\<open>Http_Url\<close>: the URL guard of
    \<^verbatim>\<open>http-url.ts\<close> and the scalar inputs of \<^verbatim>\<open>link.ts\<close>.
  \<^item> \<^theory_text>\<open>Cache\<close>: \<^verbatim>\<open>packages/cache\<close>, its in-memory store and the interface \<^verbatim>\<open>CacheStore\<close> as a locale that
    the store interprets; \<^theory_text>\<open>Link_Store\<close>: \<^verbatim>\<open>link-projection.ts\<close>, \<^verbatim>\<open>caching-resolver.ts\<close> and
    \<^verbatim>\<open>cache-bust-listener.ts\<close>; \<^theory_text>\<open>Salt\<close>: \<^verbatim>\<open>salt.ts\<close>, alone and with instances interleaved.
  \<^item> \<^theory_text>\<open>Error_Page\<close>: \<^verbatim>\<open>error-page.ts\<close>; \<^theory_text>\<open>Redirect\<close>, \<^theory_text>\<open>Redirect_Props\<close>: \<^verbatim>\<open>redirect/main.ts\<close> and
    \<^verbatim>\<open>click-reservation.ts\<close>, the two handlers with every guard in the order of the code.
  \<^item> \<^theory_text>\<open>Outbox\<close>: \<^verbatim>\<open>worker/src/jobs/outbox.ts\<close>; \<^theory_text>\<open>Projection\<close>: \<^verbatim>\<open>dynamo-projection.ts\<close> and
    \<^verbatim>\<open>kvs-projection.ts\<close>; \<^theory_text>\<open>Webhooks\<close>: \<^verbatim>\<open>webhooks.ts\<close>, \<^verbatim>\<open>safe-post.ts\<close>, \<^verbatim>\<open>enqueueWebhookEvent\<close>;
    \<^theory_text>\<open>Lease\<close>: \<^verbatim>\<open>lease.ts\<close>.
  \<^item> \<^theory_text>\<open>Kill_Switches\<close>: \<^verbatim>\<open>contract/src/kill-switches.ts\<close>, the loading of settings by the API
    (\<^verbatim>\<open>platform-settings.service.ts\<close>) and the worker, the gates of \<^verbatim>\<open>kill-switch.service.ts\<close>, the audit of
    refusals of \<^verbatim>\<open>database/src/events.ts\<close>, the send log and \<^verbatim>\<open>MailService.send\<close>.
  \<^item> \<^theory_text>\<open>Plans\<close>: \<^verbatim>\<open>contract/src/plans.ts\<close>, \<^verbatim>\<open>plan-seed.ts\<close>, and the resolution, entitlement and usage
    services of \<^verbatim>\<open>api/src/plans\<close>.
  \<^item> \<^theory_text>\<open>Tokens\<close>: \<^verbatim>\<open>api/src/auth/token.service.ts\<close>; \<^theory_text>\<open>Signup\<close>: what a new account is checked for
    (\<^verbatim>\<open>blocklist.ts\<close>, \<^verbatim>\<open>disposable-email.ts\<close>, \<^verbatim>\<open>mail-domain.service.ts\<close>, \<^verbatim>\<open>bot-protection.service.ts\<close>);
    \<^theory_text>\<open>Auth\<close>, \<^theory_text>\<open>Auth_Props\<close>: \<^verbatim>\<open>auth.service.ts\<close> and \<^verbatim>\<open>totp.service.ts\<close>; \<^theory_text>\<open>Members\<close>: \<^verbatim>\<open>auth.guard.ts\<close> and
    \<^verbatim>\<open>members.service.ts\<close>.
  \<^item> \<^theory_text>\<open>Rollups\<close>, \<^theory_text>\<open>Retention\<close>: \<^verbatim>\<open>worker/src/jobs/rollup.ts\<close>, the pass that folds clicks into the daily tables,
    and the provisioning, backfill and expiry of the daily partitions with the SQL functions they call.
  \<^item> \<^theory_text>\<open>Links\<close>: \<^verbatim>\<open>links.service.ts\<close>, creation, clones, edits, deletion and batches with every check before the
    write (\<^verbatim>\<open>shortener-chain.ts\<close>, \<^verbatim>\<open>ssrf-guard.ts\<close>); \<^theory_text>\<open>Link_List\<close>: the list with its tabs, search and
    cursors (\<^verbatim>\<open>links.mapper.ts\<close>, \<^verbatim>\<open>sql-like.ts\<close>) and the CSV export.

  \<^bold>\<open>How the code is translated.\<close> An object is a record, a union a datatype, a thrown error the left side
  of a sum, \<^verbatim>\<open>undefined\<close> and \<^verbatim>\<open>null\<close> are \<^term>\<open>None\<close>. One SQL statement is one function of the table it
  reads and writes, since Postgres runs it as a unit; several processes are then an inductive step relation
  whose steps are those statements, in any order. Integers the code shifts and multiplies modulo \<open>2\<^sup>3\<^sup>2\<close>
  are words, other numbers that stay integers are \<^typ>\<open>int\<close>, fractions are rationals with the rounding of
  the operation written out. Times are milliseconds since the epoch.

  \<^bold>\<open>Parameters.\<close> What the source calls and does not hold is an argument: the URL library, HMAC and JWT
  checks, the random draws, the logarithm, locale order, \<^verbatim>\<open>JSON\<close> text (with the round trip it documents as
  a named hypothesis), the answers of DynamoDB, the edge store, DNS and the socket, and the database rows
  a query found. Nothing is assumed of the services beyond the form of their answers: what a batch write
  leaves over, which call throws, and when, is arbitrary.

  \<^bold>\<open>What the lemmas show.\<close> Redirects: click limits are hard under any interleaving, a gate of higher
  precedence is final, a locked link opens with a token of its own only, the edge serves what the origin
  would, a cached resolve is stale for at most its time to live. Routing: first match, exact shares, agreement
  with the reference. Projection: an operation reported done is in the table and at the edge, writes to a
  domain converge in any order, a drained row is processed or counted as failed. Webhooks: every delivery row
  tells the posts made for it, the guarded request stays outside the private network. Leases: at most one
  pass at a time. Switches: unreadable settings refuse whatever costs money, an audit row per window,
  mail within its caps. Sessions: one live token
  per login, a replayed token ends its login, neither password nor second factor is skipped, reset tokens
  and invitations work once, keys reach what they were granted, a team keeps an owner. Rollups: each click is counted once,
  uniques, breakdowns and counters agree with the clicks counted; retention drops nothing uncounted and the
  backfill ends. Links: no destination is written unchecked, back-halves and rules stay unique, workspaces
  apart, every change reaches the outbox, a batch answers for each row; tabs agree with the status, a search
  is literal, an export ends and reads back. Plans: precedence of overrides, exact bands, warnings once. Arithmetic and text:
  sketches are unions, discounts, proration, escaping, the stored form of links and switches.
  Several lemmas state where the code does not do what it says; the manifest lists them.

  \<^bold>\<open>Interfaces.\<close> Four locales state a contract and are interpreted on the definitions of the component
  that provides it: \<open>cache_store\<close> (get, set, delete with a time to live; the in-memory store), \<open>merge_laws\<close>
  (an idempotent, commutative, associative merge; the sketches), \<open>keyed_table\<close> (an upsert that keeps its key;
  the tables of the rollup) and \<open>batch_target\<close> (what a drain relies on
  of the projection it drives; the DynamoDB writer).

  \<^bold>\<open>Bounds and fuel.\<close> Loops with a bound in the code recurse on it: eight attempts of a projection row, five
  of a batch write, three of an edge write, the redraws of a slug. All other recursion is structural
  or has a measure, but for the backfill loop and the paging of the export, partial functions whose end is proved; no definition can run out of fuel silently, the bound reached is the code's own error.

  \<^bold>\<open>Not modelled.\<close> The Redis and DynamoDB adapters of the cache, the resolvers and the queue of clicks (calls
  of their clients); the wiring at start-up; the controllers, services of the API other than
  those named (billing, domains, bio pages, reports: mostly queries, provider calls and wire shapes), and
  telemetry; the web application,
  the extension, the infrastructure and the test tooling.
\<close>

end
